(* ===== verification/Prelude.thy ===== *)
theory Prelude
  imports Main "HOL-Library.Word"
begin

text \<open>
  Shared ground of the development: the faults a C operation can run into, the result type
  every fallible operation returns, C strings as byte lists, and decimal printing.

  An operation of the source either returns a value or hits undefined behaviour (or leaves
  the process). The model makes the second outcome a value of type \<open>fault\<close>, so that a crash
  of the program is a branch of the model and never an unspecified term.
\<close>

section \<open>Faults and results\<close>

datatype fault =
    NullDeref        \<comment> \<open>a load or store through a null pointer\<close>
  | Dangling         \<comment> \<open>a load, store or free through a pointer to freed memory\<close>
  | BadFree          \<comment> \<open>free of a pointer that is wild or already freed\<close>
  | OutOfBounds      \<comment> \<open>an access outside the array it is meant for\<close>
  | Uninit           \<comment> \<open>a value read before it was written\<close>
  | Diverge          \<comment> \<open>a loop over a cyclic chain\<close>
  | ExitProcess int  \<comment> \<open>exit(status)\<close>
  | Blocked          \<comment> \<open>waiting for a system call the environment never answers\<close>

type_synonym 'a res = "fault + 'a"

definition rbind :: "'a res \<Rightarrow> ('a \<Rightarrow> 'b res) \<Rightarrow> 'b res" where
  "rbind m f = (case m of Inl e \<Rightarrow> Inl e | Inr x \<Rightarrow> f x)"

named_theorems res_simps "evaluation of results"

lemma rbind_Inr [simp, res_simps]: "rbind (Inr x) f = f x"
  by (simp add: rbind_def)

lemma rbind_Inl [simp, res_simps]: "rbind (Inl e) f = Inl e"
  by (simp add: rbind_def)

lemma rbind_eq_Inr [simp]: "rbind m f = Inr y \<longleftrightarrow> (\<exists>x. m = Inr x \<and> f x = Inr y)"
  by (cases m) auto

lemma rbind_eq_Inl: "rbind m f = Inl e \<longleftrightarrow> m = Inl e \<or> (\<exists>x. m = Inr x \<and> f x = Inl e)"
  by (cases m) auto

lemma rbind_pairE:
  assumes "rbind m (\<lambda>(a, b). f a b) = Inr y"
  obtains a b where "m = Inr (a, b)" "f a b = Inr y"
  using assms by auto

lemma rbind_tripleE:
  assumes "rbind m (\<lambda>(a, b, c). f a b c) = Inr y"
  obtains a b c where "m = Inr (a, b, c)" "f a b c = Inr y"
  using assms by auto

lemma rbind_cong [fundef_cong]:
  "m = m' \<Longrightarrow> (\<And>x. m' = Inr x \<Longrightarrow> f x = g x) \<Longrightarrow> rbind m f = rbind m' g"
  by (cases m') auto

lemma rbind_assoc: "rbind (rbind m f) g = rbind m (\<lambda>x. rbind (f x) g)"
  by (cases m) auto

definition guard_res :: "fault \<Rightarrow> bool \<Rightarrow> unit res" where
  "guard_res e b = (if b then Inr () else Inl e)"

lemma guard_res_simps [simp, res_simps]:
  "guard_res e True = Inr ()" "guard_res e False = Inl e"
  by (simp_all add: guard_res_def)

lemma guard_res_eq_Inr [simp]: "guard_res e b = Inr u \<longleftrightarrow> b"
  by (simp add: guard_res_def)

lemma guard_res_eq_Inl [simp]: "guard_res e b = Inl e' \<longleftrightarrow> \<not> b \<and> e' = e"
  by (auto simp add: guard_res_def)

text \<open>What holds of the value, if there is one.\<close>

definition res_post :: "'a res \<Rightarrow> ('a \<Rightarrow> bool) \<Rightarrow> bool" where
  "res_post m P \<longleftrightarrow> (\<forall>x. m = Inr x \<longrightarrow> P x)"

lemma res_post_simps [simp]:
  "res_post (Inr x) P = P x" "res_post (Inl e) P = True"
  by (simp_all add: res_post_def)

lemma res_post_rbind [simp]: "res_post (rbind m f) P = res_post m (\<lambda>x. res_post (f x) P)"
  by (cases m) (simp_all add: res_post_def)

lemma res_post_if: "(b \<Longrightarrow> res_post m P) \<Longrightarrow> (\<not> b \<Longrightarrow> res_post m' P) \<Longrightarrow> res_post (if b then m else m') P"
  by simp

lemma res_post_mono: "res_post m Q \<Longrightarrow> (\<And>x. m = Inr x \<Longrightarrow> Q x \<Longrightarrow> P x) \<Longrightarrow> res_post m P"
  by (simp add: res_post_def)

lemma res_post_any: "(\<And>x. m = Inr x \<Longrightarrow> P x) \<Longrightarrow> res_post m P"
  by (simp add: res_post_def)

lemma res_postD: "res_post m P \<Longrightarrow> m = Inr x \<Longrightarrow> P x"
  by (simp add: res_post_def)

text \<open>Not one of the faults \<open>F\<close>; and a value with a property, or a fault that is not one of \<open>F\<close>.\<close>

definition avoids :: "fault set \<Rightarrow> 'a res \<Rightarrow> bool" where
  "avoids F m \<longleftrightarrow> (\<forall>e \<in> F. m \<noteq> Inl e)"

definition gives :: "fault set \<Rightarrow> 'a res \<Rightarrow> ('a \<Rightarrow> bool) \<Rightarrow> bool" where
  "gives F m P \<longleftrightarrow> avoids F m \<and> res_post m P"

lemma avoids_simps [simp]:
  "avoids F (Inr x)" "avoids F (Inl e) \<longleftrightarrow> e \<notin> F" "avoids F (guard_res e b) \<longleftrightarrow> b \<or> e \<notin> F"
  by (auto simp: avoids_def guard_res_def)

lemma avoids_rbind: "avoids F m \<Longrightarrow> (\<And>x. m = Inr x \<Longrightarrow> avoids F (f x)) \<Longrightarrow> avoids F (rbind m f)"
  by (cases m) simp_all

lemma avoids_if: "avoids F x \<Longrightarrow> avoids F y \<Longrightarrow> avoids F (if b then x else y)"
  by simp

lemma gives_simps [simp]:
  "gives F (Inr x) P = P x" "gives F (Inl e) P \<longleftrightarrow> e \<notin> F" "gives F (guard_res e b) Q \<longleftrightarrow> (if b then Q () else e \<notin> F)"
  by (simp_all add: gives_def guard_res_def)

lemma gives_rbind: "gives F m Q \<Longrightarrow> (\<And>x. m = Inr x \<Longrightarrow> Q x \<Longrightarrow> gives F (f x) P) \<Longrightarrow> gives F (rbind m f) P"
  by (cases m) (simp_all add: gives_def)

lemma gives_any: "avoids F m \<Longrightarrow> (\<And>x. m = Inr x \<Longrightarrow> P x) \<Longrightarrow> gives F m P"
  by (simp add: gives_def res_post_any)

lemma gives_avoids: "gives F m P \<Longrightarrow> avoids F m"
  by (simp add: gives_def)

lemma givesD: "gives F m P \<Longrightarrow> m = Inr x \<Longrightarrow> P x"
  by (simp add: gives_def res_postD)

section \<open>Bytes and C strings\<close>

type_synonym byte = "8 word"
type_synonym u16 = "16 word"
type_synonym u32 = "32 word"

text \<open>A string literal of the source, without its terminator.\<close>

definition str :: "string \<Rightarrow> byte list" where
  "str s = map of_char s"

lemma str_simps [simp]:
  "str [] = []" "str (c # cs) = of_char c # str cs" "str (s @ t) = str s @ str t"
  by (simp_all add: str_def)

text \<open>\<open>strlen\<close> of an array: the index of its first zero byte; an array without one is read
  past its end.\<close>

fun cstrlen :: "byte list \<Rightarrow> nat res" where
  "cstrlen [] = Inl OutOfBounds"
| "cstrlen (b # bs) = (if b = 0 then Inr 0 else rbind (cstrlen bs) (\<lambda>n. Inr (Suc n)))"

definition cstring :: "byte list \<Rightarrow> byte list res" where
  "cstring a = rbind (cstrlen a) (\<lambda>n. Inr (take n a))"

lemma cstrlen_append_zero:
  "0 \<notin> set s \<Longrightarrow> cstrlen (s @ 0 # t) = Inr (length s)"
  by (induction s) auto

lemma cstring_append_zero [simp]:
  "0 \<notin> set s \<Longrightarrow> cstring (s @ 0 # t) = Inr s"
  by (simp add: cstring_def cstrlen_append_zero)

lemma cstrlen_eq_Inr:
  "cstrlen a = Inr n \<Longrightarrow> n < length a \<and> a ! n = 0 \<and> 0 \<notin> set (take n a)"
proof (induction a arbitrary: n)
  case Nil
  then show ?case by simp
next
  case (Cons b bs)
  then show ?case by (cases "b = 0") auto
qed

lemma cstrlen_eq_Inl: "cstrlen a = Inl e \<longleftrightarrow> e = OutOfBounds \<and> 0 \<notin> set a"
  by (induction a) (auto simp: rbind_eq_Inl)

lemma cstring_eq_Inr: "cstring a = Inr s \<Longrightarrow> 0 \<notin> set s"
  by (auto simp: cstring_def dest: cstrlen_eq_Inr)

lemma cstrlen_ok: "0 \<in> set a \<Longrightarrow> \<exists>n. cstrlen a = Inr n"
  by (cases "cstrlen a") (auto simp: cstrlen_eq_Inl)

section \<open>Decimal printing\<close>

text \<open>\<open>%d\<close> of a non-negative number.\<close>

definition digit_byte :: "nat \<Rightarrow> byte" where
  "digit_byte d = of_nat (48 + d)"

fun decimal :: "nat \<Rightarrow> byte list" where
  "decimal n = (if n < 10 then [digit_byte n] else decimal (n div 10) @ [digit_byte (n mod 10)])"

declare decimal.simps [simp del]

lemma decimal_nonempty [simp]: "decimal n \<noteq> []"
  by (subst decimal.simps) simp

lemma unat_digit_byte: "d < 10 \<Longrightarrow> unat (digit_byte d) = 48 + d"
  by (simp add: digit_byte_def unat_of_nat del: of_nat_add)

lemma digit_byte_nonzero: "d < 10 \<Longrightarrow> digit_byte d \<noteq> 0"
  using unat_digit_byte [of d] by auto

lemma decimal_nonzero [simp]: "0 \<notin> set (decimal n)"
proof (induction n rule: decimal.induct)
  case (1 n)
  show ?case
  proof (cases "n < 10")
    case True
    then show ?thesis
      by (subst decimal.simps) (use digit_byte_nonzero [of n] in auto)
  next
    case False
    moreover have "digit_byte (n mod 10) \<noteq> 0" by (rule digit_byte_nonzero) simp
    ultimately show ?thesis
      by (subst decimal.simps) (use 1 in auto)
  qed
qed

lemma length_decimal_le: "n < 10 ^ k \<Longrightarrow> 0 < k \<Longrightarrow> length (decimal n) \<le> k"
proof (induction k arbitrary: n)
  case 0
  then show ?case by simp
next
  case (Suc k)
  show ?case
  proof (cases "n < 10")
    case True
    then show ?thesis by (subst decimal.simps) simp
  next
    case False
    with Suc.prems have "0 < k" by (cases k) auto
    moreover from Suc.prems have "n div 10 < 10 ^ k" by (simp add: div_less_iff_less_mult mult.commute)
    ultimately have "length (decimal (n div 10)) \<le> k" by (intro Suc.IH)
    with False show ?thesis by (subst decimal.simps) simp
  qed
qed

end
