(* ===== verification/Linked_List.thy ===== *)
theory Linked_List
  imports Prelude
begin

text \<open>
  The generic linked list of common/src/linked_list.c over an explicit heap.

  A heap \<open>'a lheap\<close> holds the nodes and the list headers of one payload type: the \<open>void *\<close>
  payload of the source is typed here (users, channels, channel ids), and the byte sizes the
  source passes along with it disappear. A pointer is an \<open>addr option\<close>, \<open>None\<close> being NULL.
  The two cells \<open>Node **head\<close> and \<open>Node **tail\<close> of a list are owned by it alone and are
  fields of the header.

  \<open>malloc\<close> hands out fresh addresses; whether the n-th allocation succeeds is the oracle
  \<open>malloc_ok\<close>, and what a fresh \<open>int\<close> of the n-th block holds before it is written is
  \<open>junk\<close>. An address is not handed out twice, so an access to a freed block is seen as
  \<open>Dangling\<close>. Loops along the chain carry fuel: one more than the number of addresses handed
  out, which every acyclic chain respects, so running out of it means the loop does not end.

  \<open>list->length\<close> is an \<open>int\<close> of the source; its overflow (after 2^31 pushes) is left out.
\<close>

section \<open>The heap\<close>

type_synonym addr = nat

record 'a node =
  ndata :: "'a option"
  nxt :: "addr option"

record llist =
  ll_length :: int
  ll_head :: "addr option"
  ll_tail :: "addr option"

record 'a lheap =
  nodes :: "addr \<rightharpoonup> 'a node"
  lists :: "addr \<rightharpoonup> llist"
  brk :: addr
  malloc_ok :: "nat \<Rightarrow> bool"
  junk :: "nat \<Rightarrow> int"

definition malloc :: "'a lheap \<Rightarrow> addr option \<times> 'a lheap" where
  "malloc h = (if malloc_ok h (brk h) then Some (brk h) else None, h\<lparr>brk := Suc (brk h)\<rparr>)"

definition set_node :: "addr \<Rightarrow> 'a node \<Rightarrow> 'a lheap \<Rightarrow> 'a lheap" where
  "set_node a nd h = h\<lparr>nodes := (nodes h)(a \<mapsto> nd)\<rparr>"

definition set_list :: "addr \<Rightarrow> llist \<Rightarrow> 'a lheap \<Rightarrow> 'a lheap" where
  "set_list l L h = h\<lparr>lists := (lists h)(l \<mapsto> L)\<rparr>"

definition free_node :: "addr \<Rightarrow> 'a lheap \<Rightarrow> 'a lheap" where
  "free_node a h = h\<lparr>nodes := (nodes h)(a := None)\<rparr>"

definition free_list :: "addr \<Rightarrow> 'a lheap \<Rightarrow> 'a lheap" where
  "free_list l h = h\<lparr>lists := (lists h)(l := None)\<rparr>"

definition deref_node :: "'a lheap \<Rightarrow> addr option \<Rightarrow> 'a node res" where
  "deref_node h p = (case p of None \<Rightarrow> Inl NullDeref
     | Some a \<Rightarrow> (case nodes h a of None \<Rightarrow> Inl Dangling | Some nd \<Rightarrow> Inr nd))"

definition deref_list :: "'a lheap \<Rightarrow> addr option \<Rightarrow> llist res" where
  "deref_list h p = (case p of None \<Rightarrow> Inl NullDeref
     | Some l \<Rightarrow> (case lists h l of None \<Rightarrow> Inl Dangling | Some L \<Rightarrow> Inr L))"

definition fuel :: "'a lheap \<Rightarrow> nat" where
  "fuel h = Suc (brk h)"

section \<open>The operations of linked_list.c\<close>

definition get_head_node :: "'a lheap \<Rightarrow> addr option \<Rightarrow> addr option res" where
  "get_head_node h list = rbind (deref_list h list) (\<lambda>L. Inr (ll_head L))"

fun for_each_walk ::
  "nat \<Rightarrow> 'a lheap \<Rightarrow> addr option \<Rightarrow> ('a option \<Rightarrow> 's \<Rightarrow> 's res) \<Rightarrow> 's \<Rightarrow> 's res" where
  "for_each_walk 0 h node consumer s = Inl Diverge"
| "for_each_walk (Suc n) h node consumer s = rbind (deref_node h node) (\<lambda>nd.
     if nxt nd = None then Inr s
     else rbind (consumer (ndata nd) s) (for_each_walk n h (nxt nd) consumer))"

definition for_each ::
  "'a lheap \<Rightarrow> addr option \<Rightarrow> ('a option \<Rightarrow> 's \<Rightarrow> 's res) \<Rightarrow> 's \<Rightarrow> 's res" where
  "for_each h list consumer s =
     rbind (get_head_node h list) (\<lambda>node.
     rbind (deref_node h node) (\<lambda>nd.
       if nxt nd \<noteq> None then for_each_walk (fuel h) h node consumer s
       else if ndata nd \<noteq> None then consumer (ndata nd) s
       else Inr s))"

definition create_node :: "'a lheap \<Rightarrow> 'a option \<Rightarrow> (addr option \<times> 'a lheap) res" where
  "create_node h data = (case malloc h of
      (None, h1) \<Rightarrow> Inr (None, h1)
    | (Some a, h1) \<Rightarrow> (case malloc h1 of
         (None, h2) \<Rightarrow> Inr (None, h2)
       | (Some _, h2) \<Rightarrow> (case data of
            None \<Rightarrow> Inl NullDeref
          | Some x \<Rightarrow> Inr (Some a, set_node a \<lparr>ndata = Some x, nxt = None\<rparr> h2))))"

definition destroy_node :: "'a lheap \<Rightarrow> addr option \<Rightarrow> 'a lheap res" where
  "destroy_node h node = (case node of None \<Rightarrow> Inr h
     | Some a \<Rightarrow> rbind (deref_node h node) (\<lambda>_. Inr (free_node a h)))"

definition init_list_node :: "'a lheap \<Rightarrow> addr option \<Rightarrow> addr option \<times> 'a lheap" where
  "init_list_node h head = (case malloc h of
      (None, h1) \<Rightarrow> (None, h1)
    | (Some l, h1) \<Rightarrow> (case malloc h1 of
         (None, h2) \<Rightarrow> (None, h2)
       | (Some _, h2) \<Rightarrow> (case malloc h2 of
            (None, h3) \<Rightarrow> (None, h3)
          | (Some _, h3) \<Rightarrow>
              (Some l, set_list l \<lparr>ll_length = junk h l + 1, ll_head = head, ll_tail = head\<rparr> h3))))"

definition init_list_data :: "'a lheap \<Rightarrow> 'a option \<Rightarrow> (addr option \<times> 'a lheap) res" where
  "init_list_data h data = (case malloc h of
      (None, h1) \<Rightarrow> Inr (None, h1)
    | (Some l, h1) \<Rightarrow> rbind (create_node h1 data) (\<lambda>(head, h2).
        if head = None then Inr (None, h2)
        else (case malloc h2 of
            (None, h3) \<Rightarrow> Inr (None, h3)
          | (Some _, h3) \<Rightarrow> (case malloc h3 of
               (None, h4) \<Rightarrow> Inr (None, h4)
             | (Some _, h4) \<Rightarrow>
                 Inr (Some l, set_list l
                   \<lparr>ll_length = junk h l + 1, ll_head = head, ll_tail = head\<rparr> h4)))))"

fun destroy_walk :: "nat \<Rightarrow> 'a lheap \<Rightarrow> addr \<Rightarrow> 'a lheap res" where
  "destroy_walk 0 h a = Inl Diverge"
| "destroy_walk (Suc n) h a = rbind (deref_node h (Some a)) (\<lambda>nd.
     (case nxt nd of None \<Rightarrow> Inr h | Some b \<Rightarrow> destroy_walk n (free_node a h) b))"

definition destroy_list :: "'a lheap \<Rightarrow> addr option \<Rightarrow> 'a lheap res" where
  "destroy_list h list = rbind (deref_list h list) (\<lambda>L.
     (case ll_head L of None \<Rightarrow> Inr h
      | Some a \<Rightarrow> rbind (destroy_walk (fuel h) h a)
          (\<lambda>h'. Inr (case list of None \<Rightarrow> h' | Some l \<Rightarrow> free_list l h'))))"

definition push_data :: "'a lheap \<Rightarrow> addr option \<Rightarrow> 'a option \<Rightarrow> (int \<times> 'a lheap) res" where
  "push_data h list data = rbind (create_node h data) (\<lambda>(new_node, h1).
     (case new_node of None \<Rightarrow> Inr (0, h1)
      | Some a \<Rightarrow> rbind (deref_list h1 list) (\<lambda>L.
          let next_node = ll_head L;
              h2 = set_node a \<lparr>ndata = data, nxt = next_node\<rparr> h1;
              tail = (if ll_length L = 1 then next_node else ll_tail L)
          in Inr (1, (case list of None \<Rightarrow> h2 | Some l \<Rightarrow>
               set_list l \<lparr>ll_length = ll_length L + 1, ll_head = Some a, ll_tail = tail\<rparr> h2)))))"

definition push_node :: "'a lheap \<Rightarrow> addr option \<Rightarrow> addr option \<Rightarrow> (int \<times> 'a lheap) res" where
  "push_node h list node = rbind (get_head_node h list) (\<lambda>next_node.
     if next_node = None then Inr (0, h)
     else rbind (deref_list h list) (\<lambda>L.
       rbind (deref_node h node) (\<lambda>nd.
         let tail = (if ll_length L = 1 then next_node else ll_tail L)
         in Inr (1, (case (list, node) of
              (Some l, Some a) \<Rightarrow>
                set_list l \<lparr>ll_length = ll_length L + 1, ll_head = node, ll_tail = tail\<rparr>
                  (set_node a (nd\<lparr>nxt := next_node\<rparr>) h)
            | _ \<Rightarrow> h)))))"

text \<open>The comparator of \<open>filter\<close> may write its query (filter_user_id does), so the query is
  threaded through the loop.\<close>

fun filter_loop ::
  "nat \<Rightarrow> addr option \<Rightarrow> ('a option \<Rightarrow> 'q \<Rightarrow> (bool \<times> 'q) res) \<Rightarrow> nat \<Rightarrow>
   'a lheap \<Rightarrow> 'q \<Rightarrow> addr option \<Rightarrow> nat \<Rightarrow> nat \<Rightarrow> addr option \<Rightarrow>
   ('a lheap \<times> 'q \<times> nat \<times> addr option) res" where
  "filter_loop 0 list cmp num h q node passes found filtered = Inl Diverge"
| "filter_loop (Suc n) list cmp num h q node passes found filtered =
     (if passes < num then
        if found = num then Inr (h, q, found, filtered)
        else rbind (deref_node h node) (\<lambda>nd.
          rbind (cmp (ndata nd) q) (\<lambda>(match, q').
          rbind (if match then
                   if filtered = None then rbind (init_list_data h (ndata nd)) (\<lambda>(f, h'). Inr (f, h'))
                   else rbind (push_data h filtered (ndata nd)) (\<lambda>(_, h'). Inr (filtered, h'))
                 else Inr (filtered, h)) (\<lambda>(filtered', h').
          let found' = (if match then Suc found else found) in
          rbind (deref_node h' node) (\<lambda>nd'.
          if nxt nd' = None then
            rbind (get_head_node h' list) (\<lambda>hd_node.
            rbind (deref_node h' hd_node) (\<lambda>hd'.
              filter_loop n list cmp num h' q' (nxt hd') (Suc passes) found' filtered'))
          else filter_loop n list cmp num h' q' (nxt nd') passes found' filtered'))))
      else Inr (h, q, found, filtered))"

definition filter_list ::
  "'a lheap \<Rightarrow> addr option \<Rightarrow> ('a option \<Rightarrow> 'q \<Rightarrow> (bool \<times> 'q) res) \<Rightarrow> 'q \<Rightarrow> nat \<Rightarrow>
   (addr option \<times> 'q \<times> 'a lheap) res" where
  "filter_list h list cmp params num_params =
     rbind (get_head_node h list) (\<lambda>node.
     rbind (filter_loop (Suc (fuel h * Suc num_params)) list cmp num_params h params node 0 0 None)
       (\<lambda>(h', q', found, filtered).
       (case filtered of None \<Rightarrow> Inr (None, q', h')
        | Some f \<Rightarrow> rbind (deref_list h' filtered) (\<lambda>L.
            Inr (filtered, q', set_list f (L\<lparr>ll_length := int found\<rparr>) h')))))"

fun find_walk :: "nat \<Rightarrow> 'a lheap \<Rightarrow> addr option \<Rightarrow> ('a option \<Rightarrow> bool res) \<Rightarrow> addr option res" where
  "find_walk 0 h node cmp = Inl Diverge"
| "find_walk (Suc n) h node cmp =
     (if node = None then Inr None
      else rbind (deref_node h node) (\<lambda>nd.
        rbind (cmp (ndata nd)) (\<lambda>b.
          if b then Inr node else find_walk n h (nxt nd) cmp)))"

definition find_node :: "'a lheap \<Rightarrow> addr option \<Rightarrow> ('a option \<Rightarrow> bool res) \<Rightarrow> addr option res" where
  "find_node h list cmp = rbind (get_head_node h list) (\<lambda>node. find_walk (fuel h) h node cmp)"

text \<open>The inner loop of \<open>delete_node\<close>: from \<open>node_iter\<close> on, up to the first node whose
  successor matches or whose successor is the last node. It reads \<open>node_iter->next->next\<close>
  first, so a list with one node that does not match is a null dereference.\<close>

fun delete_walk ::
  "nat \<Rightarrow> 'a lheap \<Rightarrow> addr option \<Rightarrow> ('a option \<Rightarrow> bool res) \<Rightarrow> (bool \<times> addr option) res" where
  "delete_walk 0 h node_iter cmp = Inl Diverge"
| "delete_walk (Suc n) h node_iter cmp =
     rbind (deref_node h node_iter) (\<lambda>nd.
     rbind (deref_node h (nxt nd)) (\<lambda>nd1.
       if nxt nd1 = None then Inr (False, node_iter)
       else rbind (cmp (ndata nd1)) (\<lambda>found.
         if found then Inr (True, node_iter) else delete_walk n h (nxt nd) cmp)))"

definition set_next :: "addr option \<Rightarrow> addr option \<Rightarrow> 'a lheap \<Rightarrow> 'a lheap res" where
  "set_next node q h = rbind (deref_node h node) (\<lambda>nd.
     Inr (case node of None \<Rightarrow> h | Some a \<Rightarrow> set_node a (nd\<lparr>nxt := q\<rparr>) h))"

definition upd_list :: "addr option \<Rightarrow> (llist \<Rightarrow> llist) \<Rightarrow> 'a lheap \<Rightarrow> 'a lheap res" where
  "upd_list list f h = rbind (deref_list h list) (\<lambda>L.
     Inr (case list of None \<Rightarrow> h | Some l \<Rightarrow> set_list l (f L) h))"

definition delete_node ::
  "'a lheap \<Rightarrow> addr option \<Rightarrow> ('a option \<Rightarrow> bool res) \<Rightarrow> (int \<times> 'a lheap) res" where
  "delete_node h list cmp =
     rbind (get_head_node h list) (\<lambda>node_iter.
     rbind (deref_node h node_iter) (\<lambda>nd.
     rbind (cmp (ndata nd)) (\<lambda>found.
     rbind (if found then
              rbind (upd_list list (\<lambda>L. L\<lparr>ll_head := nxt nd\<rparr>) h) (\<lambda>h1.
              rbind (destroy_node h1 node_iter) (\<lambda>h2. Inr (True, h2)))
            else
              rbind (delete_walk (fuel h) h node_iter cmp) (\<lambda>(found, iter).
              rbind (deref_node h iter) (\<lambda>ndi.
              if found then
                rbind (deref_node h (nxt ndi)) (\<lambda>nd1.
                rbind (destroy_node h (nxt ndi)) (\<lambda>h1.
                rbind (set_next iter (nxt nd1) h1) (\<lambda>h2. Inr (True, h2))))
              else
                rbind (deref_node h (nxt ndi)) (\<lambda>nd1.
                rbind (cmp (ndata nd1)) (\<lambda>found.
                if found then
                  rbind (upd_list list (\<lambda>L. L\<lparr>ll_tail := iter\<rparr>) h) (\<lambda>h1.
                  rbind (destroy_node h1 (nxt ndi)) (\<lambda>h2.
                  rbind (set_next iter None h2) (\<lambda>h3. Inr (True, h3))))
                else Inr (False, h))))))
       (\<lambda>(found, h').
         if found then
           rbind (upd_list list (\<lambda>L. L\<lparr>ll_length := ll_length L - 1\<rparr>) h') (\<lambda>h''. Inr (1, h''))
         else Inr (0, h')))))"

text \<open>The loop \<open>while (node) { ...; node = node->next; }\<close> that the callers write out by hand,
  with the loop body a state transformer.\<close>

fun iter_nodes ::
  "nat \<Rightarrow> 'a lheap \<Rightarrow> addr option \<Rightarrow> ('a option \<Rightarrow> 's \<Rightarrow> 's res) \<Rightarrow> 's \<Rightarrow> 's res" where
  "iter_nodes 0 h node body s = Inl Diverge"
| "iter_nodes (Suc n) h node body s =
     (if node = None then Inr s
      else rbind (deref_node h node) (\<lambda>nd.
        rbind (body (ndata nd) s) (iter_nodes n h (nxt nd) body)))"

lemma iter_nodes_invariant:
  assumes "\<And>u s s'. P s \<Longrightarrow> body u s = Inr s' \<Longrightarrow> P s'"
  shows "P s \<Longrightarrow> iter_nodes n h p body s = Inr s' \<Longrightarrow> P s'"
proof (induction n arbitrary: p s)
  case 0
  then show ?case by simp
next
  case (Suc n)
  then show ?case by (auto split: if_splits dest: assms)
qed

end
