(* ===== verification/List_Store.thy ===== *)
theory List_Store
  imports Linked_List
begin

text \<open>
  What the linked list promises. \<open>seg\<close> describes a chain of nodes in the heap; \<open>rep h A\<close> says
  that the heap \<open>h\<close> stores, at every list address of \<open>A\<close>, a list with the length field and
  the payloads \<open>A\<close> gives, and that no two lists share a node. Every operation of
  linked_list.c is shown to simulate an operation on \<open>A\<close>; the laws are collected in the locale
  \<open>list_store\<close>, in which the clients (users, channels) prove their own lemmas.
\<close>

section \<open>Chains\<close>

primrec seg :: "(addr \<rightharpoonup> 'a node) \<Rightarrow> addr option \<Rightarrow> (addr \<times> 'a) list \<Rightarrow> addr option \<Rightarrow> bool" where
  "seg f p [] q \<longleftrightarrow> p = q"
| "seg f p (ax # axs) q \<longleftrightarrow> p = Some (fst ax) \<and>
     (\<exists>r. f (fst ax) = Some \<lparr>ndata = Some (snd ax), nxt = r\<rparr> \<and> seg f r axs q)"

abbreviation addrs :: "(addr \<times> 'a) list \<Rightarrow> addr set" where
  "addrs axs \<equiv> fst ` set axs"

lemma seg_append: "seg f p (us @ vs) q \<longleftrightarrow> (\<exists>m. seg f p us m \<and> seg f m vs q)"
  by (induction us arbitrary: p) auto

lemma seg_upd [simp]: "a \<notin> addrs us \<Longrightarrow> seg (f(a := v)) p us q = seg f p us q"
  by (induction us arbitrary: p) auto

lemma seg_cong: "(\<And>a. a \<in> addrs us \<Longrightarrow> f a = g a) \<Longrightarrow> seg f p us q = seg g p us q"
  by (induction us arbitrary: p) auto

lemma seg_None [simp]: "seg f None us None \<longleftrightarrow> us = []"
  by (cases us) auto

lemma seg_unique: "seg f p us None \<Longrightarrow> seg f p vs None \<Longrightarrow> us = vs"
proof (induction us arbitrary: p vs)
  case Nil
  then show ?case by simp
next
  case (Cons u us)
  then show ?case by (cases vs) (auto simp: prod_eq_iff)
qed

lemma seg_hd_notin: "seg f p (u # us) None \<Longrightarrow> fst u \<notin> addrs us"
proof
  assume c: "seg f p (u # us) None" and "fst u \<in> addrs us"
  then obtain u' where u': "u' \<in> set us" "fst u' = fst u" by auto
  from u'(1) obtain xs ys where us: "us = xs @ u' # ys" by (auto simp: in_set_conv_decomp)
  from c us have "seg f (Some (fst u)) (u # us) None" and "seg f (Some (fst u)) (u' # ys) None"
    using u'(2) by (auto simp: seg_append)
  then have "u # us = u' # ys" by (rule seg_unique)
  then have "length (u # us) = length (u' # ys)" by simp
  with us show False by simp
qed

lemma seg_distinct: "seg f p us None \<Longrightarrow> distinct (map fst us)"
proof (induction us arbitrary: p)
  case Nil
  then show ?case by simp
next
  case (Cons u us)
  from Cons.prems have "fst u \<notin> addrs us" by (rule seg_hd_notin)
  moreover from Cons.prems obtain r where "seg f r us None" by auto
  then have "distinct (map fst us)" by (rule Cons.IH)
  ultimately show ?case by simp
qed

lemma distinct_addrs_append:
  "distinct (map fst (us @ vs)) \<Longrightarrow> addrs us \<inter> addrs vs = {}"
  by (induction us) auto

section \<open>Removing the first match\<close>

fun del_first :: "('a \<Rightarrow> bool) \<Rightarrow> 'a list \<Rightarrow> 'a list" where
  "del_first P [] = []"
| "del_first P (x # xs) = (if P x then xs else x # del_first P xs)"

lemma del_first_append:
  "\<forall>x\<in>set us. \<not> P x \<Longrightarrow> P y \<Longrightarrow> del_first P (us @ y # vs) = us @ vs"
  by (induction us) auto

lemma del_first_id: "\<forall>x\<in>set xs. \<not> P x \<Longrightarrow> del_first P xs = xs"
  by (induction xs) auto

lemma set_del_first_subset: "set (del_first P xs) \<subseteq> set xs"
  by (induction xs) auto

lemma length_del_first:
  "length (del_first P xs) = (if \<exists>x\<in>set xs. P x then length xs - 1 else length xs)"
proof (induction xs)
  case Nil
  then show ?case by simp
next
  case (Cons x xs)
  then show ?case by (cases xs) auto
qed

lemma filter_del_first_disjoint:
  "(\<And>x. P x \<Longrightarrow> \<not> Q x) \<Longrightarrow> filter Q (del_first P xs) = filter Q xs"
  by (induction xs) auto

lemma find_filter: "List.find P xs = (case filter P xs of [] \<Rightarrow> None | x # _ \<Rightarrow> Some x)"
  by (induction xs) auto

lemma last_del_first:
  "xs \<noteq> [] \<Longrightarrow> \<not> P (last xs) \<Longrightarrow> del_first P xs \<noteq> [] \<and> last (del_first P xs) = last xs"
  by (induction xs) (auto split: if_splits)

section \<open>The representation of a store of lists\<close>

type_synonym 'a astore = "addr \<rightharpoonup> int \<times> 'a list"

definition list_at :: "'a lheap \<Rightarrow> addr \<Rightarrow> (addr \<times> 'a) list \<Rightarrow> int \<Rightarrow> 'a list \<Rightarrow> bool" where
  "list_at h l ns n xs \<longleftrightarrow> (\<exists>L. lists h l = Some L \<and> ll_length L = n \<and>
     seg (nodes h) (ll_head L) ns None \<and> map snd ns = xs)"

definition repN :: "'a lheap \<Rightarrow> (addr \<Rightarrow> (addr \<times> 'a) list) \<Rightarrow> 'a astore \<Rightarrow> bool" where
  "repN h N A \<longleftrightarrow>
     (\<forall>l. A l = None \<longrightarrow> N l = []) \<and>
     (\<forall>l n xs. A l = Some (n, xs) \<longrightarrow> list_at h l (N l) n xs) \<and>
     (\<forall>l l'. l \<noteq> l' \<longrightarrow> addrs (N l) \<inter> addrs (N l') = {}) \<and>
     (\<forall>l. \<forall>a\<in>addrs (N l). a < brk h) \<and>
     (\<forall>l\<in>dom A. l < brk h)"

definition rep :: "'a lheap \<Rightarrow> 'a astore \<Rightarrow> bool" where
  "rep h A \<longleftrightarrow> (\<exists>N. repN h N A)"

lemma repN_list: "repN h N A \<Longrightarrow> A l = Some (n, xs) \<Longrightarrow> list_at h l (N l) n xs"
  by (simp add: repN_def)

lemma repN_less: "repN h N A \<Longrightarrow> a \<in> addrs (N l) \<Longrightarrow> a < brk h"
  by (auto simp: repN_def)

lemma repN_dom: "repN h N A \<Longrightarrow> A l = Some y \<Longrightarrow> l < brk h"
  by (auto simp: repN_def)

lemma rep_list_fuel:
  assumes "repN h N A" and "A l = Some (n, xs)"
  shows "length (N l) < fuel h"
proof -
  from repN_list [OF assms] have "distinct (map fst (N l))"
    by (auto simp: list_at_def dest: seg_distinct)
  then have "card (addrs (N l)) = length (N l)"
    by (metis distinct_card length_map set_map)
  moreover have "addrs (N l) \<subseteq> {..<brk h}" using repN_less [OF assms(1)] by blast
  then have "card (addrs (N l)) \<le> brk h" by (metis card_lessThan card_mono finite_lessThan)
  ultimately show ?thesis by (simp add: fuel_def)
qed

text \<open>Frame: an operation that touches the list \<open>l\<close> and fresh addresses only.\<close>

lemma repN_update:
  assumes R: "repN h N A"
    and l: "list_at h' l ns n xs" "l < brk h'"
    and mono: "brk h \<le> brk h'"
    and other: "\<And>l'. l' \<noteq> l \<Longrightarrow> A l' \<noteq> None \<Longrightarrow> lists h' l' = lists h l'"
    and nds: "\<And>l' a. l' \<noteq> l \<Longrightarrow> a \<in> addrs (N l') \<Longrightarrow> nodes h' a = nodes h a"
    and new: "\<And>a. a \<in> addrs ns \<Longrightarrow> a < brk h'"
    and dis: "\<And>l'. l' \<noteq> l \<Longrightarrow> addrs (N l') \<inter> addrs ns = {}"
  shows "repN h' (N(l := ns)) (A(l \<mapsto> (n, xs)))"
  unfolding repN_def
proof (intro conjI allI impI ballI)
  fix l' assume "(A(l \<mapsto> (n, xs))) l' = None"
  then show "(N(l := ns)) l' = []" using R by (auto simp: repN_def split: if_splits)
next
  fix l' n' xs' assume a: "(A(l \<mapsto> (n, xs))) l' = Some (n', xs')"
  show "list_at h' l' ((N(l := ns)) l') n' xs'"
  proof (cases "l' = l")
    case True
    with a l show ?thesis by auto
  next
    case False
    with a have A': "A l' = Some (n', xs')" by simp
    have "seg (nodes h') p (N l') None = seg (nodes h) p (N l') None" for p
      by (rule seg_cong) (rule nds [OF False])
    with repN_list [OF R A'] False other [OF False] A' show ?thesis
      by (auto simp: list_at_def)
  qed
next
  fix l1 l2 :: addr assume "l1 \<noteq> l2"
  moreover have "addrs (N l1) \<inter> addrs (N l2) = {}" if "l1 \<noteq> l2" for l1 l2
    using R that unfolding repN_def by blast
  ultimately show "addrs ((N(l := ns)) l1) \<inter> addrs ((N(l := ns)) l2) = {}"
    using dis by (cases "l1 = l"; cases "l2 = l") (auto simp: Int_commute)
next
  fix l' a assume a: "a \<in> addrs ((N(l := ns)) l')"
  show "a < brk h'"
  proof (cases "l' = l")
    case True
    with a new show ?thesis by simp
  next
    case False
    with a have "a \<in> addrs (N l')" by simp
    from repN_less [OF R this] mono show ?thesis by simp
  qed
next
  fix l' assume "l' \<in> dom (A(l \<mapsto> (n, xs)))"
  then show "l' < brk h'"
    using l(2) repN_dom [OF R] mono by (cases "l' = l") (auto intro: less_le_trans)
qed

text \<open>Frame: an operation that only allocates.\<close>

lemma repN_extend:
  assumes R: "repN h N A"
    and mono: "brk h \<le> brk h'"
    and "\<And>l'. l' < brk h \<Longrightarrow> lists h' l' = lists h l'"
    and "\<And>a. a < brk h \<Longrightarrow> nodes h' a = nodes h a"
  shows "repN h' N A"
  unfolding repN_def
proof (intro conjI allI impI ballI)
  fix l n xs assume A: "A l = Some (n, xs)"
  have "seg (nodes h') p (N l) None = seg (nodes h) p (N l) None" for p
    by (rule seg_cong) (use repN_less [OF R] assms(4) in blast)
  with repN_list [OF R A] assms(3) repN_dom [OF R A] show "list_at h' l (N l) n xs"
    by (auto simp: list_at_def)
next
  fix l assume "l \<in> dom A"
  then show "l < brk h'" using repN_dom [OF R] mono by (force intro: less_le_trans)
next
  fix l a assume "a \<in> addrs (N l)"
  then show "a < brk h'" using repN_less [OF R] mono by (auto intro: less_le_trans)
qed (use R in \<open>auto simp: repN_def\<close>)

section \<open>The operations simulate list operations\<close>

lemma malloc_cases:
  obtains "malloc h = (None, h\<lparr>brk := Suc (brk h)\<rparr>)"
  | "malloc h = (Some (brk h), h\<lparr>brk := Suc (brk h)\<rparr>)"
  by (cases "malloc_ok h (brk h)") (auto simp: malloc_def)

lemma deref_node_Some [simp]: "nodes h a = Some nd \<Longrightarrow> deref_node h (Some a) = Inr nd"
  by (simp add: deref_node_def)

lemma deref_node_None [simp]: "deref_node h None = Inl NullDeref"
  by (simp add: deref_node_def)

lemma deref_list_Some [simp]: "lists h l = Some L \<Longrightarrow> deref_list h (Some l) = Inr L"
  by (simp add: deref_list_def)

lemma deref_list_None [simp]: "deref_list h None = Inl NullDeref"
  by (simp add: deref_list_def)

lemmas heap_upd_simps [simp] =
  set_node_def set_list_def free_node_def free_list_def

text \<open>\<open>create_node\<close> allocates and leaves everything else as it was.\<close>

definition only_allocates :: "'a lheap \<Rightarrow> 'a lheap \<Rightarrow> bool" where
  "only_allocates h h' \<longleftrightarrow> brk h \<le> brk h' \<and>
     (\<forall>l<brk h. lists h' l = lists h l) \<and> (\<forall>a<brk h. nodes h' a = nodes h a)"

lemma only_allocates_rep: "repN h N A \<Longrightarrow> only_allocates h h' \<Longrightarrow> repN h' N A"
  by (rule repN_extend [where h = h]) (auto simp: only_allocates_def)

lemma create_node_cases:
  obtains (fail) h' where "create_node h (Some x) = Inr (None, h')" "only_allocates h h'"
      "lists h' = lists h"
  | (ok) h' where "create_node h (Some x) = Inr (Some (brk h), h')" "only_allocates h h'"
      "lists h' = lists h" "nodes h' (brk h) = Some \<lparr>ndata = Some x, nxt = None\<rparr>" "brk h < brk h'"
proof -
  let ?h1 = "h\<lparr>brk := Suc (brk h)\<rparr>"
  show ?thesis
  proof (cases h rule: malloc_cases)
    case 1
    then have "create_node h (Some x) = Inr (None, ?h1)" by (simp add: create_node_def)
    then show ?thesis by (rule fail) (auto simp: only_allocates_def)
  next
    case 2
    show ?thesis
    proof (cases ?h1 rule: malloc_cases)
      case 1
      with 2 have "create_node h (Some x) = Inr (None, ?h1\<lparr>brk := Suc (Suc (brk h))\<rparr>)"
        by (simp add: create_node_def)
      then show ?thesis by (rule fail) (auto simp: only_allocates_def)
    next
      case m: 2
      with 2 have "create_node h (Some x) =
          Inr (Some (brk h), set_node (brk h) \<lparr>ndata = Some x, nxt = None\<rparr>
                 (?h1\<lparr>brk := Suc (Suc (brk h))\<rparr>))"
        by (simp add: create_node_def)
      then show ?thesis by (rule ok) (auto simp: only_allocates_def)
    qed
  qed
qed

lemma create_node_null: "create_node h None = Inr (p, h') \<Longrightarrow> p = None"
  by (auto simp: create_node_def split: prod.splits option.splits)

lemma list_head:
  "list_at h l ns n xs \<Longrightarrow>
     \<exists>L. deref_list h (Some l) = Inr L \<and> lists h l = Some L \<and> ll_length L = n \<and>
         seg (nodes h) (ll_head L) ns None \<and> map snd ns = xs"
  by (auto simp: list_at_def)

text \<open>Both ways of pushing: a node with the payload, already in the heap and in no list, is put
  in front.\<close>

lemma push_front_rep:
  assumes R: "repN h N A" and A: "A l = Some (n, xs)"
    and L: "lists h l = Some L" "ll_length L = n" "seg (nodes h) (ll_head L) (N l) None"
    and a: "\<And>l'. a \<notin> addrs (N l')" "a < brk h"
  shows "repN (set_list l \<lparr>ll_length = n + 1, ll_head = Some a, ll_tail = t\<rparr>
                (set_node a \<lparr>ndata = Some x, nxt = ll_head L\<rparr> h))
          (N(l := (a, x) # N l)) (A(l \<mapsto> (n + 1, x # xs)))"
proof (rule repN_update [OF R])
  from repN_list [OF R A] L have "map snd (N l) = xs" by (auto simp: list_at_def)
  with L a show "list_at (set_list l \<lparr>ll_length = n + 1, ll_head = Some a, ll_tail = t\<rparr>
      (set_node a \<lparr>ndata = Some x, nxt = ll_head L\<rparr> h)) l ((a, x) # N l) (n + 1) (x # xs)"
    by (simp add: list_at_def)
  fix l' assume "l' \<noteq> l"
  with R a show "addrs (N l') \<inter> addrs ((a, x) # N l) = {}" by (auto simp: repN_def)
qed (use R a repN_dom [OF R A] in \<open>auto simp: repN_def\<close>)

lemma push_data_rep:
  assumes R: "repN h N A" and A: "A l = Some (n, xs)"
  shows "\<exists>r h'. push_data h (Some l) (Some x) = Inr (r, h') \<and>
     ((r = 0 \<and> rep h' A) \<or> (r = 1 \<and> rep h' (A(l \<mapsto> (n + 1, x # xs)))))"
proof (cases rule: create_node_cases [where h = h and x = x])
  case (fail h')
  then show ?thesis
    using only_allocates_rep [OF R] by (auto simp: push_data_def rep_def)
next
  case (ok h1)
  from list_head [OF repN_list [OF R A]] obtain L where
    L: "lists h l = Some L" "ll_length L = n" "seg (nodes h) (ll_head L) (N l) None" by auto
  have R1: "repN h1 N A" using only_allocates_rep [OF R ok(2)] .
  from list_head [OF repN_list [OF R1 A]] L ok(3)
  have L1: "lists h1 l = Some L" "seg (nodes h1) (ll_head L) (N l) None" by auto
  have "brk h \<notin> addrs (N l')" for l' using repN_less [OF R, of "brk h" l'] by auto
  note rep1 = push_front_rep [OF R1 A L1(1) L(2) L1(2) this ok(5)]
  let ?h2 = "\<lambda>t. set_list l \<lparr>ll_length = n + 1, ll_head = Some (brk h), ll_tail = t\<rparr>
                (set_node (brk h) \<lparr>ndata = Some x, nxt = ll_head L\<rparr> h1)"
  have "push_data h (Some l) (Some x) =
      Inr (1, ?h2 (if n = 1 then ll_head L else ll_tail L))"
    using ok(1) L1(1) L(2) by (simp add: push_data_def Let_def)
  then show ?thesis using rep1 unfolding rep_def by blast
qed

text \<open>Memory that does not run out.\<close>

definition room :: "'a lheap \<Rightarrow> bool" where
  "room h \<longleftrightarrow> (\<forall>i. malloc_ok h i)"

lemma malloc_room: "room h \<Longrightarrow> malloc h = (Some (brk h), h\<lparr>brk := Suc (brk h)\<rparr>)"
  by (simp add: room_def malloc_def)

lemma room_update [simp]:
  "room (h\<lparr>brk := n\<rparr>) = room h" "room (h\<lparr>nodes := f\<rparr>) = room h" "room (h\<lparr>lists := g\<rparr>) = room h"
  by (simp_all add: room_def)

lemma create_node_room:
  "room h \<Longrightarrow> \<exists>h'. create_node h (Some x) = Inr (Some (brk h), h') \<and> room h'"
  by (simp add: create_node_def malloc_room)

text \<open>\<open>push_node\<close> of a freshly created node, as push_channel_user does: nothing is pushed onto
  an empty list.\<close>

definition push_new :: "'a lheap \<Rightarrow> addr option \<Rightarrow> 'a option \<Rightarrow> (int \<times> 'a lheap) res" where
  "push_new h list data = rbind (create_node h data) (\<lambda>(node, h'). push_node h' list node)"

lemma push_new_rep:
  assumes R: "repN h N A" and A: "A l = Some (n, xs)" and ne: "xs \<noteq> []"
  shows "(\<exists>h'. push_new h (Some l) (Some x) = Inr (1, h') \<and> rep h' (A(l \<mapsto> (n + 1, x # xs))))
     \<or> (push_new h (Some l) (Some x) = Inl NullDeref \<and> \<not> room h)"
proof -
  from list_head [OF repN_list [OF R A]] obtain L where
    L: "lists h l = Some L" "ll_length L = n" "seg (nodes h) (ll_head L) (N l) None"
      "map snd (N l) = xs" by auto
  from L ne obtain b where hd: "ll_head L = Some b" by (cases "N l") auto
  show ?thesis
  proof (cases rule: create_node_cases [where h = h and x = x])
    case (fail h')
    with create_node_room [of h x] have "\<not> room h" by auto
    with fail L hd show ?thesis by (simp add: push_new_def push_node_def get_head_node_def)
  next
    case (ok h1)
    have R1: "repN h1 N A" using only_allocates_rep [OF R ok(2)] .
    from list_head [OF repN_list [OF R1 A]] L ok(3)
    have L1: "lists h1 l = Some L" "seg (nodes h1) (ll_head L) (N l) None" by auto
    have "brk h \<notin> addrs (N l')" for l' using repN_less [OF R, of "brk h" l'] by auto
    note rep1 = push_front_rep [OF R1 A L1(1) L(2) L1(2) this ok(5)]
    have "push_new h (Some l) (Some x) = Inr (1, set_list l
        \<lparr>ll_length = n + 1, ll_head = Some (brk h),
          ll_tail = (if n = 1 then ll_head L else ll_tail L)\<rparr>
        (set_node (brk h) \<lparr>ndata = Some x, nxt = ll_head L\<rparr> h1))"
      using ok L1(1) L(2) hd
      by (simp add: push_new_def push_node_def get_head_node_def Let_def)
    with rep1 show ?thesis unfolding rep_def by blast
  qed
qed

lemma push_new_empty:
  assumes R: "repN h N A" and A: "A l = Some (n, [])"
  shows "\<exists>h'. push_new h (Some l) (Some x) = Inr (0, h') \<and> rep h' A"
proof -
  have "\<exists>h'. push_new h (Some l) (Some x) = Inr (0, h') \<and> only_allocates h h'"
  proof -
    from list_head [OF repN_list [OF R A]] obtain L where
      L: "lists h l = Some L" "ll_head L = None" by auto
    show ?thesis
      by (cases rule: create_node_cases [where h = h and x = x])
        (use L in \<open>auto simp: push_new_def push_node_def get_head_node_def\<close>)
  qed
  then show ?thesis using only_allocates_rep [OF R] unfolding rep_def by blast
qed

text \<open>\<open>find_node\<close> and the payload of the node it returns.\<close>

definition find_data :: "'a lheap \<Rightarrow> addr option \<Rightarrow> ('a option \<Rightarrow> bool res) \<Rightarrow> 'a option res" where
  "find_data h list cmp = rbind (find_node h list cmp) (\<lambda>node.
     if node = None then Inr None else rbind (deref_node h node) (\<lambda>nd. Inr (ndata nd)))"

lemma find_walk_seg:
  "seg (nodes h) p ns None \<Longrightarrow> length ns < n \<Longrightarrow>
   (\<And>x. x \<in> set (map snd ns) \<Longrightarrow> cmp (Some x) = Inr (P x)) \<Longrightarrow>
   find_walk n h p cmp = Inr (map_option fst (List.find (\<lambda>ax. P (snd ax)) ns))"
proof (induction ns arbitrary: p n)
  case Nil
  then show ?case by (cases n) auto
next
  case (Cons ax ns)
  from Cons.prems(2) obtain m where n: "n = Suc m" and "length ns < m" by (cases n) auto
  from Cons.prems(1) obtain r where
    p: "p = Some (fst ax)" "nodes h (fst ax) = Some \<lparr>ndata = Some (snd ax), nxt = r\<rparr>"
      "seg (nodes h) r ns None" by auto
  have "find_walk m h r cmp = Inr (map_option fst (List.find (\<lambda>ax. P (snd ax)) ns))"
    by (rule Cons.IH) (use p(3) \<open>length ns < m\<close> Cons.prems(3) in auto)
  with p n Cons.prems(3) [of "snd ax"] show ?case by simp
qed

lemma seg_lookup:
  "seg f p ns q \<Longrightarrow> ax \<in> set ns \<Longrightarrow> \<exists>r. f (fst ax) = Some \<lparr>ndata = Some (snd ax), nxt = r\<rparr>"
  by (induction ns arbitrary: p) auto

lemma find_map_snd: "map_option snd (List.find (\<lambda>ax. P (snd ax)) ns) = List.find P (map snd ns)"
  by (induction ns) auto

lemma find_data_rep:
  assumes R: "repN h N A" and A: "A l = Some (n, xs)"
    and cmp: "\<And>x. x \<in> set xs \<Longrightarrow> cmp (Some x) = Inr (P x)"
  shows "find_data h (Some l) cmp = Inr (List.find P xs)"
proof -
  from list_head [OF repN_list [OF R A]] obtain L where
    L: "lists h l = Some L" "seg (nodes h) (ll_head L) (N l) None" "map snd (N l) = xs" by auto
  let ?f = "List.find (\<lambda>ax. P (snd ax)) (N l)"
  have find: "find_node h (Some l) cmp = Inr (map_option fst ?f)"
    using find_walk_seg [OF L(2) rep_list_fuel [OF R A], of cmp P] cmp L
    by (simp add: find_node_def get_head_node_def)
  show ?thesis
  proof (cases ?f)
    case None
    then have "List.find P xs = None" using L(3) find_map_snd [of P "N l"] by simp
    with find None show ?thesis by (simp add: find_data_def)
  next
    case (Some ax)
    then have "ax \<in> set (N l)" by (auto simp: find_Some_iff)
    from seg_lookup [OF L(2) this] obtain r where
      "nodes h (fst ax) = Some \<lparr>ndata = Some (snd ax), nxt = r\<rparr>" by auto
    moreover have "List.find P xs = Some (snd ax)"
      using Some L(3) find_map_snd [of P "N l"] by simp
    ultimately show ?thesis using find Some by (simp add: find_data_def)
  qed
qed

text \<open>Walking the list visits its payloads in order.\<close>

fun fold_res :: "('a \<Rightarrow> 's \<Rightarrow> 's res) \<Rightarrow> 'a list \<Rightarrow> 's \<Rightarrow> 's res" where
  "fold_res f [] s = Inr s"
| "fold_res f (x # xs) s = rbind (f x s) (fold_res f xs)"

lemma fold_res_append: "fold_res f (xs @ ys) s = rbind (fold_res f xs s) (fold_res f ys)"
  by (induction xs arbitrary: s) (auto simp: rbind_assoc intro: rbind_cong)

lemma iter_nodes_seg:
  "seg (nodes h) p ns None \<Longrightarrow> length ns < n \<Longrightarrow>
   iter_nodes n h p body s = fold_res (\<lambda>x. body (Some x)) (map snd ns) s"
proof (induction ns arbitrary: p n s)
  case Nil
  then show ?case by (cases n) auto
next
  case (Cons ax ns)
  from Cons.prems(2) obtain m where n: "n = Suc m" and m: "length ns < m" by (cases n) auto
  from Cons.prems(1) obtain r where
    p: "p = Some (fst ax)" "nodes h (fst ax) = Some \<lparr>ndata = Some (snd ax), nxt = r\<rparr>"
      "seg (nodes h) r ns None" by auto
  have "iter_nodes m h r body = fold_res (\<lambda>x. body (Some x)) (map snd ns)"
    by (rule ext) (rule Cons.IH [OF p(3) m])
  with p n show ?case by simp
qed

definition iter_list :: "'a lheap \<Rightarrow> addr option \<Rightarrow> ('a option \<Rightarrow> 's \<Rightarrow> 's res) \<Rightarrow> 's \<Rightarrow> 's res" where
  "iter_list h list body s = rbind (get_head_node h list) (\<lambda>node. iter_nodes (fuel h) h node body s)"

lemma iter_list_rep:
  assumes R: "repN h N A" and A: "A l = Some (n, xs)"
  shows "iter_list h (Some l) body s = fold_res (\<lambda>x. body (Some x)) xs s"
proof -
  from list_head [OF repN_list [OF R A]] obtain L where
    L: "lists h l = Some L" "seg (nodes h) (ll_head L) (N l) None" "map snd (N l) = xs" by auto
  then show ?thesis
    using iter_nodes_seg [OF L(2) rep_list_fuel [OF R A], of body s]
    by (simp add: iter_list_def get_head_node_def)
qed

section \<open>delete_node\<close>

lemma delete_walk_hit:
  "seg (nodes h) p (u # us @ y # vs) None \<Longrightarrow> vs \<noteq> [] \<Longrightarrow> length us < n \<Longrightarrow>
   (\<And>z. z \<in> set (us @ [y]) \<Longrightarrow> cmp (Some (snd z)) = Inr (P (snd z))) \<Longrightarrow>
   P (snd y) \<Longrightarrow> \<forall>z\<in>set us. \<not> P (snd z) \<Longrightarrow>
   delete_walk n h p cmp = Inr (True, Some (fst (last (u # us))))"
proof (induction us arbitrary: u p n)
  case Nil
  then obtain m where "n = Suc m" by (cases n) auto
  with Nil show ?case by (cases vs) auto
next
  case (Cons z us)
  from Cons.prems(3) obtain m where n: "n = Suc m" and m: "length us < m" by (cases n) auto
  from Cons.prems(1) obtain r where
    r: "p = Some (fst u)" "nodes h (fst u) = Some \<lparr>ndata = Some (snd u), nxt = r\<rparr>"
      "seg (nodes h) r (z # us @ y # vs) None" by auto
  then obtain r' where
    r': "r = Some (fst z)" "nodes h (fst z) = Some \<lparr>ndata = Some (snd z), nxt = r'\<rparr>"
      "seg (nodes h) r' (us @ y # vs) None" by auto
  then have "r' \<noteq> None" by (cases us) auto
  moreover have "delete_walk m h r cmp = Inr (True, Some (fst (last (z # us))))"
    by (rule Cons.IH) (use r(3) m Cons.prems in auto)
  moreover have "cmp (Some (snd z)) = Inr False" using Cons.prems(4) [of z] Cons.prems(6) by simp
  ultimately show ?case using n r r' by auto
qed

lemma delete_walk_miss:
  "seg (nodes h) p (u # us @ [y]) None \<Longrightarrow> length us < n \<Longrightarrow>
   (\<And>z. z \<in> set us \<Longrightarrow> cmp (Some (snd z)) = Inr False) \<Longrightarrow>
   delete_walk n h p cmp = Inr (False, Some (fst (last (u # us))))"
proof (induction us arbitrary: u p n)
  case Nil
  then show ?case by (cases n) auto
next
  case (Cons z us)
  from Cons.prems(2) obtain m where n: "n = Suc m" and m: "length us < m" by (cases n) auto
  from Cons.prems(1) obtain r where
    r: "p = Some (fst u)" "nodes h (fst u) = Some \<lparr>ndata = Some (snd u), nxt = r\<rparr>"
      "seg (nodes h) r (z # us @ [y]) None" by auto
  then obtain r' where
    r': "r = Some (fst z)" "nodes h (fst z) = Some \<lparr>ndata = Some (snd z), nxt = r'\<rparr>"
      "seg (nodes h) r' (us @ [y]) None" by auto
  then have "r' \<noteq> None" by (cases us) auto
  moreover have "delete_walk m h r cmp = Inr (False, Some (fst (last (z # us))))"
    by (rule Cons.IH) (use r(3) m Cons.prems in auto)
  ultimately show ?case using n r r' Cons.prems(3) [of z] by auto
qed

lemma seg_unlink:
  assumes s: "seg f p (us @ c # b # vs) None"
  shows "\<exists>q. f (fst c) = Some \<lparr>ndata = Some (snd c), nxt = Some (fst b)\<rparr> \<and>
     f (fst b) = Some \<lparr>ndata = Some (snd b), nxt = q\<rparr> \<and> fst b \<noteq> fst c \<and> (q = None \<longleftrightarrow> vs = []) \<and>
     seg (f(fst b := None, fst c \<mapsto> \<lparr>ndata = Some (snd c), nxt = q\<rparr>)) p (us @ c # vs) None"
proof -
  from s obtain m q where
    seg: "seg f p us m" "m = Some (fst c)" "f (fst c) = Some \<lparr>ndata = Some (snd c), nxt = Some (fst b)\<rparr>"
      "f (fst b) = Some \<lparr>ndata = Some (snd b), nxt = q\<rparr>" "seg f q vs None"
    by (auto simp: seg_append)
  from seg_distinct [OF s] have
    "fst c \<notin> addrs us" "fst b \<notin> addrs us" "fst c \<noteq> fst b" "fst c \<notin> addrs vs" "fst b \<notin> addrs vs"
    by (auto simp: image_iff)
  with seg show ?thesis by (intro exI [of _ q]) (auto simp: seg_append)
qed

text \<open>A list that loses one node and keeps its other nodes.\<close>

lemma delete_rep:
  assumes R: "repN h N A" and A: "A l = Some (n, xs)"
    and sub: "addrs ns \<subseteq> addrs (N l)"
    and h': "list_at h' l ns m ys" "brk h' = brk h"
      "\<And>l'. l' \<noteq> l \<Longrightarrow> lists h' l' = lists h l'"
      "\<And>a. a \<notin> addrs (N l) \<Longrightarrow> nodes h' a = nodes h a"
  shows "repN h' (N(l := ns)) (A(l \<mapsto> (m, ys)))"
proof -
  have dis: "addrs (N l') \<inter> addrs (N l) = {}" if "l' \<noteq> l" for l'
    using R that unfolding repN_def by blast
  show ?thesis
  proof (rule repN_update [OF R h'(1)])
    show "l < brk h'" using repN_dom [OF R A] h'(2) by simp
    show "nodes h' a = nodes h a" if "l' \<noteq> l" "a \<in> addrs (N l')" for l' a
      using dis [OF that(1)] that(2) h'(4) by blast
    show "a < brk h'" if "a \<in> addrs ns" for a
      using that sub repN_less [OF R] h'(2) by auto
    show "addrs (N l') \<inter> addrs ns = {}" if "l' \<noteq> l" for l'
      using dis [OF that] sub by blast
  qed (use h' in auto)
qed

lemma set_map_snd: "x \<in> set (map snd ns) \<longleftrightarrow> (\<exists>a. (a, x) \<in> set ns)"
  by force

lemma delete_node_empty:
  assumes R: "repN h N A" and A: "A l = Some (n, [])"
  shows "delete_node h (Some l) cmp = Inl NullDeref"
  using list_head [OF repN_list [OF R A]]
  by (auto simp: delete_node_def get_head_node_def)

lemma delete_node_single_miss:
  assumes R: "repN h N A" and A: "A l = Some (n, [x])" and "cmp (Some x) = Inr False"
  shows "delete_node h (Some l) cmp = Inl NullDeref"
proof -
  from list_head [OF repN_list [OF R A]] obtain L a where
    "lists h l = Some L" "N l = [(a, x)]" "ll_head L = Some a"
    "nodes h a = Some \<lparr>ndata = Some x, nxt = None\<rparr>" by auto
  with assms(3) show ?thesis
    by (simp add: delete_node_def get_head_node_def fuel_def)
qed

lemma delete_node_head:
  assumes R: "repN h N A" and A: "A l = Some (n, x # xs)" and cmp: "cmp (Some x) = Inr True"
  shows "\<exists>h'. delete_node h (Some l) cmp = Inr (1, h') \<and>
     repN h' (N(l := tl (N l))) (A(l \<mapsto> (n - 1, xs)))"
proof -
  from list_head [OF repN_list [OF R A]] obtain L a ns q where
    L: "lists h l = Some L" "ll_length L = n" "N l = (a, x) # ns" "ll_head L = Some a"
      "nodes h a = Some \<lparr>ndata = Some x, nxt = q\<rparr>" "seg (nodes h) q ns None" "map snd ns = xs"
      "seg (nodes h) (Some a) ((a, x) # ns) None"
    by auto
  let ?h' = "set_list l (L\<lparr>ll_head := q, ll_length := n - 1\<rparr>) (free_node a h)"
  have "delete_node h (Some l) cmp = Inr (1, ?h')"
    using L cmp by (simp add: delete_node_def get_head_node_def destroy_node_def upd_list_def)
  moreover have "repN ?h' (N(l := tl (N l))) (A(l \<mapsto> (n - 1, xs)))"
  proof (rule delete_rep [OF R A])
    from seg_hd_notin [OF L(8)] have "a \<notin> addrs ns" by simp
    with L(3,6,7) show "list_at ?h' l (tl (N l)) (n - 1) xs" by (auto simp: list_at_def)
  qed (use L in auto)
  ultimately show ?thesis by blast
qed

text \<open>The walk in front of the node \<open>b\<close> that goes: it stops at \<open>c\<close>, and it has looked at \<open>b\<close> itself unless \<open>b\<close>
  is the last node.\<close>

lemma unlink_walk:
  assumes R: "repN h N A" and A: "A l = Some (n, xs)"
    and cmp: "\<And>x. x \<in> set xs \<Longrightarrow> cmp (Some x) = Inr (P x)"
    and nl: "N l = us @ c # b # vs"
    and P: "P (snd b)" "\<forall>z\<in>set (us @ [c]). \<not> P (snd z)"
  obtains L u r0 where "lists h l = Some L" "ll_length L = n" "seg (nodes h) (ll_head L) (us @ c # b # vs) None"
    "ll_head L = Some (fst u)" "nodes h (fst u) = Some \<lparr>ndata = Some (snd u), nxt = r0\<rparr>"
    "cmp (Some (snd u)) = Inr False" "cmp (Some (snd b)) = Inr True"
    "delete_walk (fuel h) h (ll_head L) cmp = Inr (vs \<noteq> [], Some (fst c))"
proof -
  from list_head [OF repN_list [OF R A]] obtain L where
    L: "lists h l = Some L" "ll_length L = n" "seg (nodes h) (ll_head L) (us @ c # b # vs) None"
      "map snd (N l) = xs" using nl by auto
  have cmp': "cmp (Some (snd z)) = Inr (P (snd z))" if "z \<in> set (N l)" for z
    by (rule cmp) (use that L(4) in auto)
  obtain u us' where u: "us @ [c] = u # us'" by (cases us) auto
  have l: "us @ c # b # vs = u # us' @ b # vs" using u by (metis append.assoc append_Cons append_Nil)
  have c: "last (u # us') = c" unfolding u [symmetric] by simp
  have chain: "seg (nodes h) (ll_head L) (u # us' @ b # vs) None" using L(3) unfolding l .
  from chain obtain r0 where hd: "ll_head L = Some (fst u)"
    "nodes h (fst u) = Some \<lparr>ndata = Some (snd u), nxt = r0\<rparr>" by auto
  have len: "length us' < fuel h" using rep_list_fuel [OF R A] unfolding nl l by simp
  have Pu: "\<forall>z \<in> set (u # us'). \<not> P (snd z)" using P(2) unfolding u .
  have miss: "\<forall>z \<in> set (u # us'). cmp (Some (snd z)) = Inr False" using Pu cmp' unfolding nl l by simp
  have hit: "cmp (Some (snd b)) = Inr True" using cmp' [of b] P(1) nl by simp
  have "delete_walk (fuel h) h (ll_head L) cmp = Inr (vs \<noteq> [], Some (fst (last (u # us'))))"
  proof (cases "vs = []")
    case False
    have "cmp (Some (snd z)) = Inr (P (snd z))" if "z \<in> set (us' @ [b])" for z by (rule cmp') (use that in \<open>auto simp: nl l\<close>)
    with P(1) Pu False show ?thesis by (subst delete_walk_hit [OF chain False len, of cmp P]) simp_all
  next
    case True
    with delete_walk_miss [OF _ len, of h "ll_head L" u b cmp] chain miss show ?thesis by auto
  qed
  with that [OF L(1-3) hd _ hit] miss c show ?thesis by simp
qed

lemma delete_node_unlink:
  assumes R: "repN h N A" and A: "A l = Some (n, xs)"
    and cmp: "\<And>x. x \<in> set xs \<Longrightarrow> cmp (Some x) = Inr (P x)"
    and nl: "N l = us @ c # b # vs"
    and P: "P (snd b)" "\<forall>z\<in>set (us @ [c]). \<not> P (snd z)"
  shows "\<exists>h'. delete_node h (Some l) cmp = Inr (1, h') \<and>
     repN h' (N(l := us @ c # vs)) (A(l \<mapsto> (n - 1, map snd (us @ c # vs))))"
proof -
  from unlink_walk [OF assms, of thesis for thesis] obtain L u r0 where
    L: "lists h l = Some L" "ll_length L = n" "seg (nodes h) (ll_head L) (us @ c # b # vs) None"
    and u: "ll_head L = Some (fst u)" "nodes h (fst u) = Some \<lparr>ndata = Some (snd u), nxt = r0\<rparr>"
      "cmp (Some (snd u)) = Inr False" "cmp (Some (snd b)) = Inr True"
      "delete_walk (fuel h) h (ll_head L) cmp = Inr (vs \<noteq> [], Some (fst c))" by blast
  from seg_unlink [OF L(3)] obtain q where
    q: "nodes h (fst c) = Some \<lparr>ndata = Some (snd c), nxt = Some (fst b)\<rparr>"
      "nodes h (fst b) = Some \<lparr>ndata = Some (snd b), nxt = q\<rparr>" "fst b \<noteq> fst c" "q = None \<longleftrightarrow> vs = []"
      "seg ((nodes h)(fst b := None, fst c \<mapsto> \<lparr>ndata = Some (snd c), nxt = q\<rparr>))
         (ll_head L) (us @ c # vs) None" by auto
  let ?ns = "us @ c # vs"
  let ?h' = "\<lambda>L'. h\<lparr>nodes := (nodes h)(fst b := None, fst c \<mapsto> \<lparr>ndata = Some (snd c), nxt = q\<rparr>),
    lists := (lists h)(l \<mapsto> L')\<rparr>"
  let ?L' = "if vs = [] then L\<lparr>ll_tail := Some (fst c), ll_length := n - 1\<rparr> else L\<lparr>ll_length := n - 1\<rparr>"
  have "delete_node h (Some l) cmp = Inr (1, ?h' ?L')"
    using L(1,2) u q
    by (cases "vs = []") (simp_all add: delete_node_def get_head_node_def destroy_node_def
        upd_list_def set_next_def del: rbind_eq_Inr)
  moreover have "repN (?h' ?L') (N(l := ?ns)) (A(l \<mapsto> (n - 1, map snd ?ns)))"
    by (rule delete_rep [OF R A, where ns = ?ns]) (use q nl L in \<open>auto simp: list_at_def\<close>)
  ultimately show ?thesis by blast
qed

lemma delete_node_miss:
  assumes R: "repN h N A" and A: "A l = Some (n, xs)" and len: "2 \<le> length xs"
    and cmp: "\<And>x. x \<in> set xs \<Longrightarrow> cmp (Some x) = Inr False"
  shows "delete_node h (Some l) cmp = Inr (0, h)"
proof -
  from list_head [OF repN_list [OF R A]] obtain L where
    L: "lists h l = Some L" "seg (nodes h) (ll_head L) (N l) None" "map snd (N l) = xs" by auto
  from L(3) len have "2 \<le> length (N l)" by auto
  then obtain u us y where nl: "N l = u # us @ [y]"
    by (cases "N l"; cases "tl (N l)" rule: rev_cases) auto
  have cmp': "cmp (Some (snd z)) = Inr False" if "z \<in> set (N l)" for z
    by (rule cmp) (use that L(3) in auto)
  have len: "length us < fuel h" using rep_list_fuel [OF R A] nl by simp
  have chain: "seg (nodes h) (ll_head L) (u # us @ [y]) None" using L(2) nl by simp
  have walk: "delete_walk (fuel h) h (ll_head L) cmp = Inr (False, Some (fst (last (u # us))))"
    by (rule delete_walk_miss [OF chain len]) (use cmp' nl in auto)
  have last: "\<exists>ws. u # us @ [y] = ws @ last (u # us) # [y]"
    by (intro exI [of _ "butlast (u # us)"]) (metis append.assoc append_Cons append_Nil append_butlast_last_id list.distinct(1))
  then obtain ws where ws: "u # us @ [y] = ws @ last (u # us) # y # []" by auto
  have "seg (nodes h) (ll_head L) (ws @ last (u # us) # y # []) None" using chain ws by metis
  from seg_unlink [OF this] obtain q where
    q: "nodes h (fst (last (u # us))) = Some \<lparr>ndata = Some (snd (last (u # us))), nxt = Some (fst y)\<rparr>"
      "nodes h (fst y) = Some \<lparr>ndata = Some (snd y), nxt = q\<rparr>" by auto
  from chain obtain r where
    "ll_head L = Some (fst u)" "nodes h (fst u) = Some \<lparr>ndata = Some (snd u), nxt = r\<rparr>" by auto
  with walk q L(1) cmp' nl show ?thesis
    by (simp add: delete_node_def get_head_node_def)
qed

text \<open>The three lemmas together: deletion of the first match in the list.\<close>

lemma delete_node_hit_nodes:
  assumes R: "repN h N A" and A: "A l = Some (n, xs)"
    and cmp: "\<And>x. x \<in> set xs \<Longrightarrow> cmp (Some x) = Inr (P x)"
    and hit: "\<exists>x\<in>set xs. P x"
  shows "\<exists>h'. delete_node h (Some l) cmp = Inr (1, h') \<and>
    repN h' (N(l := del_first (\<lambda>z. P (snd z)) (N l))) (A(l \<mapsto> (n - 1, del_first P xs)))"
proof (cases "P (hd xs)")
  case True
  with hit obtain x xs' where xs: "xs = x # xs'" "P x" by (cases xs) auto
  with cmp have "cmp (Some x) = Inr True" by simp
  moreover from list_head [OF repN_list [OF R A]] xs have
    "del_first (\<lambda>z. P (snd z)) (N l) = tl (N l)" by (cases "N l") auto
  ultimately show ?thesis
    using delete_node_head [OF R A [unfolded xs(1)], of cmp] xs by simp
next
  case False
  from list_head [OF repN_list [OF R A]] have snd: "map snd (N l) = xs" by auto
  from hit snd have "\<exists>z\<in>set (N l). P (snd z)" by auto
  from split_list_first_prop [OF this] obtain us b vs where
    nl: "N l = us @ b # vs" and P: "P (snd b)" "\<forall>z\<in>set us. \<not> P (snd z)" by auto
  from False snd nl P have "us \<noteq> []" by (cases us) auto
  then obtain us' c where us: "us = us' @ [c]" by (cases us rule: rev_cases) auto
  have del: "del_first P xs = map snd (us' @ c # vs)"
  proof -
    have "xs = map snd us @ snd b # map snd vs" using snd nl by auto
    then have "del_first P xs = map snd us @ map snd vs"
      using P del_first_append [of "map snd us" P "snd b" "map snd vs"] by simp
    then show ?thesis using us by simp
  qed
  have "del_first (\<lambda>z. P (snd z)) (N l) = us' @ c # vs"
    unfolding nl using del_first_append [of us "\<lambda>z. P (snd z)" b vs] P us by simp
  then show ?thesis
    unfolding del using delete_node_unlink [OF R A, of cmp P us' c b vs] nl us P cmp by auto
qed

lemma delete_node_hit:
  assumes R: "repN h N A" and A: "A l = Some (n, xs)"
    and cmp: "\<And>x. x \<in> set xs \<Longrightarrow> cmp (Some x) = Inr (P x)"
    and hit: "\<exists>x\<in>set xs. P x"
  shows "\<exists>h'. delete_node h (Some l) cmp = Inr (1, h') \<and> rep h' (A(l \<mapsto> (n - 1, del_first P xs)))"
  using delete_node_hit_nodes [OF assms] by (auto simp: rep_def)

section \<open>New lists\<close>

lemma init_list_node_rep:
  assumes R: "repN h N A" and a: "nodes h a = Some \<lparr>ndata = Some x, nxt = None\<rparr>"
    "\<And>l'. a \<notin> addrs (N l')" "a < brk h"
  shows "(\<exists>h'. init_list_node h (Some a) = (None, h') \<and> rep h' A) \<or>
    (\<exists>h'. init_list_node h (Some a) = (Some (brk h), h') \<and> A (brk h) = None \<and>
       rep h' (A(brk h \<mapsto> (junk h (brk h) + 1, [x]))))"
proof -
  let ?b = "\<lambda>n. h\<lparr>brk := n\<rparr>"
  let ?h' = "set_list (brk h) \<lparr>ll_length = junk h (brk h) + 1, ll_head = Some a, ll_tail = Some a\<rparr>
      (?b (Suc (Suc (Suc (brk h)))))"
  have ext: "rep (?b n) A" if "brk h \<le> n" for n
    using only_allocates_rep [OF R, of "?b n"] that by (auto simp: only_allocates_def rep_def)
  have fresh: "A (brk h) = None" using repN_dom [OF R, of "brk h"] by (cases "A (brk h)") auto
  have new: "repN ?h' (N(brk h := [(a, x)])) (A(brk h \<mapsto> (junk h (brk h) + 1, [x])))"
    by (rule repN_update [OF R]) (use a fresh in \<open>auto simp: list_at_def\<close>)
  show ?thesis
  proof (cases "malloc_ok h (brk h) \<and> malloc_ok h (Suc (brk h)) \<and> malloc_ok h (Suc (Suc (brk h)))")
    case True
    then have "init_list_node h (Some a) = (Some (brk h), ?h')"
      by (simp add: init_list_node_def malloc_def)
    then show ?thesis using fresh new by (auto simp: rep_def)
  next
    case False
    then have "\<exists>n. init_list_node h (Some a) = (None, ?b n) \<and> brk h \<le> n"
      by (auto simp: init_list_node_def malloc_def)
    then show ?thesis using ext by blast
  qed
qed

lemma upd_length_rep:
  assumes "rep h A" and A: "A l = Some (n, xs)"
  shows "\<exists>h'. upd_list (Some l) (\<lambda>L. L\<lparr>ll_length := m\<rparr>) h = Inr h' \<and> rep h' (A(l \<mapsto> (m, xs)))"
proof -
  from assms(1) obtain N where R: "repN h N A" by (auto simp: rep_def)
  from list_head [OF repN_list [OF R A]] obtain L where
    L: "lists h l = Some L" "seg (nodes h) (ll_head L) (N l) None" "map snd (N l) = xs" by auto
  let ?h' = "set_list l (L\<lparr>ll_length := m\<rparr>) h"
  have "repN ?h' (N(l := N l)) (A(l \<mapsto> (m, xs)))"
    by (rule delete_rep [OF R A, where ns = "N l"]) (use L in \<open>auto simp: list_at_def\<close>)
  with L show ?thesis by (auto simp: upd_list_def rep_def)
qed

text \<open>Every operation keeps the room it was given.\<close>

lemma push_data_room:
  "room h \<Longrightarrow> push_data h l (Some x) = Inr (r, h') \<Longrightarrow> r = 1 \<and> room h'"
  by (auto simp: push_data_def create_node_def malloc_room Let_def split: option.splits)

lemma push_new_room:
  "room h \<Longrightarrow> push_new h l (Some x) = Inr (r, h') \<Longrightarrow> room h'"
  by (auto simp: push_new_def push_node_def create_node_def malloc_room Let_def
      split: option.splits if_splits)

lemma init_list_node_room:
  "room h \<Longrightarrow> \<exists>h'. init_list_node h p = (Some (brk h), h') \<and> room h'"
  by (simp add: init_list_node_def malloc_room)

lemma room_post:
  assumes "room h" "\<And>h'. room h' \<Longrightarrow> P h'"
  shows "res_post (upd_list l f h) P" "res_post (destroy_node h p) P" "res_post (set_next p q h) P"
  using assms
  by (auto simp: upd_list_def destroy_node_def set_next_def res_post_def split: option.splits)

lemma upd_list_room: "room h \<Longrightarrow> upd_list l f h = Inr h' \<Longrightarrow> room h'"
  using room_post(1) [of h room] by (auto simp: res_post_def)

lemma delete_node_room:
  assumes "room h" "delete_node h l cmp = Inr (r, h')"
  shows "room h'"
proof -
  have "res_post (delete_node h l cmp) (\<lambda>(r, h'). room h')"
    unfolding delete_node_def
    by (assumption | simp only: res_post_rbind res_post_simps split_beta fst_conv snd_conv if_True if_False
        | rule room_post assms(1) res_post_if | rule res_post_any)+
  with assms(2) show ?thesis by (auto dest: res_postD)
qed

section \<open>The interface\<close>

text \<open>
  A store of lists, as the client modules use it: look up the first payload that satisfies a
  comparator, push a payload in front, delete the first payload that satisfies a comparator.
  \<open>rep h A\<close> ties the concrete state to the lists it holds. The laws are those of the code,
  its null dereference on a short list without a match included.
\<close>

locale list_store =
  fixes rep :: "'h \<Rightarrow> 'a astore \<Rightarrow> bool"
    and find :: "'h \<Rightarrow> addr option \<Rightarrow> ('a option \<Rightarrow> bool res) \<Rightarrow> 'a option res"
    and push :: "'h \<Rightarrow> addr option \<Rightarrow> 'a option \<Rightarrow> (int \<times> 'h) res"
    and delete :: "'h \<Rightarrow> addr option \<Rightarrow> ('a option \<Rightarrow> bool res) \<Rightarrow> (int \<times> 'h) res"
    and room :: "'h \<Rightarrow> bool"
  assumes find_law: "rep h A \<Longrightarrow> A l = Some (n, xs) \<Longrightarrow>
      (\<And>x. x \<in> set xs \<Longrightarrow> cmp (Some x) = Inr (P x)) \<Longrightarrow>
      find h (Some l) cmp = Inr (List.find P xs)"
    and push_law: "rep h A \<Longrightarrow> A l = Some (n, xs) \<Longrightarrow>
      \<exists>r h'. push h (Some l) (Some x) = Inr (r, h') \<and>
        ((r = 0 \<and> rep h' A) \<or> (r = 1 \<and> rep h' (A(l \<mapsto> (n + 1, x # xs)))))"
    and delete_hit_law: "rep h A \<Longrightarrow> A l = Some (n, xs) \<Longrightarrow>
      (\<And>x. x \<in> set xs \<Longrightarrow> cmp (Some x) = Inr (P x)) \<Longrightarrow> \<exists>x\<in>set xs. P x \<Longrightarrow>
      \<exists>h'. delete h (Some l) cmp = Inr (1, h') \<and> rep h' (A(l \<mapsto> (n - 1, del_first P xs)))"
    and delete_miss_law: "rep h A \<Longrightarrow> A l = Some (n, xs) \<Longrightarrow>
      (\<And>x. x \<in> set xs \<Longrightarrow> cmp (Some x) = Inr False) \<Longrightarrow>
      delete h (Some l) cmp = (if length xs < 2 then Inl NullDeref else Inr (0, h))"
    and push_room: "room h \<Longrightarrow> push h (Some l) (Some x) = Inr (r, h') \<Longrightarrow> r = 1 \<and> room h'"
    and delete_room: "room h \<Longrightarrow> delete h (Some l) cmp = Inr (r, h') \<Longrightarrow> room h'"

text \<open>A store whose comparators test a key of the payload.\<close>

locale keyed_store = list_store rep find push delete room
  for rep :: "'h \<Rightarrow> 'a astore \<Rightarrow> bool" and find push delete room +
  fixes key :: "'a \<Rightarrow> 'k"
    and cmp :: "'k \<Rightarrow> 'a option \<Rightarrow> bool res"
  assumes cmp_key: "cmp k (Some x) = Inr (key x = k)"
begin

lemma find_key:
  "rep h A \<Longrightarrow> A l = Some (n, xs) \<Longrightarrow> find h (Some l) (cmp k) = Inr (List.find (\<lambda>x. key x = k) xs)"
  by (rule find_law [where A = A and n = n]) (simp_all add: cmp_key)

lemma push_ok:
  assumes "rep h A" "A l = Some (n, xs)" "room h"
  shows "\<exists>h'. push h (Some l) (Some x) = Inr (1, h') \<and> rep h' (A(l \<mapsto> (n + 1, x # xs))) \<and> room h'"
  using push_law [OF assms(1,2), of x] push_room [OF assms(3), of l x] by auto

lemma find_pushed:
  assumes "rep h A" "A l = Some (n, xs)" "push h (Some l) (Some x) = Inr (1, h')"
  shows "find h' (Some l) (cmp k) =
    (if k = key x then Inr (Some x) else find h (Some l) (cmp k))"
proof -
  from push_law [OF assms(1,2), of x] assms(3) have "rep h' (A(l \<mapsto> (n + 1, x # xs)))" by auto
  then have "find h' (Some l) (cmp k) = Inr (List.find (\<lambda>y. key y = k) (x # xs))"
    by (rule find_key) simp
  with find_key [OF assms(1,2)] show ?thesis by simp
qed

lemma delete_key:
  assumes "rep h A" "A l = Some (n, xs)" "k \<in> key ` set xs"
  shows "\<exists>h'. delete h (Some l) (cmp k) = Inr (1, h') \<and>
    rep h' (A(l \<mapsto> (n - 1, del_first (\<lambda>x. key x = k) xs)))"
  by (rule delete_hit_law [OF assms(1,2)]) (use assms(3) in \<open>auto simp: cmp_key\<close>)

lemma delete_absent:
  assumes "rep h A" "A l = Some (n, xs)" "k \<notin> key ` set xs"
  shows "delete h (Some l) (cmp k) = (if length xs < 2 then Inl NullDeref else Inr (0, h))"
  by (rule delete_miss_law [OF assms(1,2)]) (use assms(3) in \<open>auto simp: cmp_key\<close>)

lemma delete_total:
  assumes "rep h A" "A l = Some (n, xs)"
  shows "delete h (Some l) (cmp k) = Inl NullDeref \<longleftrightarrow> k \<notin> key ` set xs \<and> length xs < 2"
proof (cases "k \<in> key ` set xs")
  case True
  from delete_key [OF assms True] obtain h' where "delete h (Some l) (cmp k) = Inr (1, h')" by auto
  with True show ?thesis by simp
next
  case False
  with delete_absent [OF assms False] show ?thesis by simp
qed

lemma find_deleted_other:
  assumes "rep h A" "A l = Some (n, xs)" "delete h (Some l) (cmp k) = Inr (r, h')" "k' \<noteq> k"
  shows "find h' (Some l) (cmp k') = find h (Some l) (cmp k')"
proof (cases "k \<in> key ` set xs")
  case True
  from delete_key [OF assms(1,2) True] assms(3)
  have "rep h' (A(l \<mapsto> (n - 1, del_first (\<lambda>x. key x = k) xs)))" by auto
  moreover have "List.find (\<lambda>x. key x = k') (del_first (\<lambda>x. key x = k) xs) =
      List.find (\<lambda>x. key x = k') xs"
    unfolding find_filter by (subst filter_del_first_disjoint) (use assms(4) in auto)
  ultimately show ?thesis
    using find_key [OF assms(1,2), of k']
      find_key [of h' _ l "n - 1" "del_first (\<lambda>x. key x = k) xs" k'] by simp
next
  case False
  with delete_absent [OF assms(1,2)] assms(3) show ?thesis by (auto split: if_splits)
qed

lemma find_deleted_same:
  assumes "rep h A" "A l = Some (n, xs)" "delete h (Some l) (cmp k) = Inr (r, h')"
    "distinct (map key xs)"
  shows "find h' (Some l) (cmp k) = Inr None"
proof (cases "k \<in> key ` set xs")
  case True
  from delete_key [OF assms(1,2) True] assms(3)
  have R: "rep h' (A(l \<mapsto> (n - 1, del_first (\<lambda>x. key x = k) xs)))" by auto
  have "\<forall>x\<in>set (del_first (\<lambda>x. key x = k) xs). key x \<noteq> k"
    using assms(4) by (induction xs) (auto simp: image_iff)
  then have "List.find (\<lambda>x. key x = k) (del_first (\<lambda>x. key x = k) xs) = None"
    by (auto simp: find_None_iff)
  with find_key [OF R, of l] show ?thesis by simp
next
  case False
  with delete_absent [OF assms(1,2)] assms(3) have "h' = h" by (auto split: if_splits)
  moreover have "List.find (\<lambda>x. key x = k) xs = None" using False by (auto simp: find_None_iff)
  ultimately show ?thesis using find_key [OF assms(1,2)] by simp
qed

text \<open>Push and delete of the same key is the identity on the store.\<close>

lemma delete_pushed:
  assumes "rep h A" "A l = Some (n, xs)" "push h (Some l) (Some x) = Inr (1, h')"
  shows "\<exists>h''. delete h' (Some l) (cmp (key x)) = Inr (1, h'') \<and> rep h'' A"
proof -
  from push_law [OF assms(1,2), of x] assms(3) have "rep h' (A(l \<mapsto> (n + 1, x # xs)))" by auto
  from delete_key [OF this, of l "n + 1" "x # xs" "key x"] assms(2) show ?thesis
    by (auto simp: fun_upd_idem)
qed

end

text \<open>linked_list.c provides the interface, for every payload type.\<close>

interpretation cl: list_store rep find_data push_data delete_node room
proof unfold_locales
  fix h :: "'a lheap" and A l n xs P and cmp :: "'a option \<Rightarrow> bool res"
  assume "rep h A" and A: "A l = Some (n, xs)" and cmp: "\<And>x. x \<in> set xs \<Longrightarrow> cmp (Some x) = Inr (P x)"
  then obtain N where R: "repN h N A" by (auto simp: rep_def)
  show "find_data h (Some l) cmp = Inr (List.find P xs)"
    using find_data_rep [OF R A] cmp by simp
  show "\<exists>h'. delete_node h (Some l) cmp = Inr (1, h') \<and> rep h' (A(l \<mapsto> (n - 1, del_first P xs)))"
    if "\<exists>x\<in>set xs. P x"
    using delete_node_hit [OF R A] cmp that by simp
next
  fix h :: "'a lheap" and A l n xs x
  assume "rep h A" and A: "A l = Some (n, xs)"
  then show "\<exists>r h'. push_data h (Some l) (Some x) = Inr (r, h') \<and>
      ((r = 0 \<and> rep h' A) \<or> (r = 1 \<and> rep h' (A(l \<mapsto> (n + 1, x # xs)))))"
    using push_data_rep by (auto simp: rep_def [of h A])
next
  fix h :: "'a lheap" and A l n xs and cmp :: "'a option \<Rightarrow> bool res"
  assume "rep h A" and A: "A l = Some (n, xs)" and cmp: "\<And>x. x \<in> set xs \<Longrightarrow> cmp (Some x) = Inr False"
  then obtain N where R: "repN h N A" by (auto simp: rep_def)
  show "delete_node h (Some l) cmp = (if length xs < 2 then Inl NullDeref else Inr (0, h))"
  proof (cases "length xs < 2")
    case True
    then consider "xs = []" | x where "xs = [x]" by (cases xs) auto
    then show ?thesis
    proof cases
      case 1
      with delete_node_empty [OF R, of l n cmp] A show ?thesis by simp
    next
      case (2 x)
      with delete_node_single_miss [OF R, of l n x cmp] A cmp show ?thesis by simp
    qed
  next
    case False
    with delete_node_miss [OF R A] cmp show ?thesis by simp
  qed
qed (blast intro: push_data_room delete_node_room | simp add: push_data_room)+

text \<open>The walk of a list, in the form the clients use it.\<close>

lemma iter_list_store:
  "rep h A \<Longrightarrow> A l = Some (n, xs) \<Longrightarrow> iter_list h (Some l) body s = fold_res (\<lambda>x. body (Some x)) xs s"
  using iter_list_rep by (auto simp: rep_def)

lemma push_new_store:
  assumes "rep h A" "A l = Some (n, xs)" "xs \<noteq> []" "room h"
  shows "\<exists>h'. push_new h (Some l) (Some x) = Inr (1, h') \<and> rep h' (A(l \<mapsto> (n + 1, x # xs))) \<and> room h'"
proof -
  from assms(1) obtain N where "repN h N A" by (auto simp: rep_def)
  from push_new_rep [OF this assms(2,3), of x] assms(4) push_new_room [OF assms(4)] show ?thesis
    by blast
qed

lemma push_new_empty_store:
  assumes "rep h A" "A l = Some (n, [])" "room h"
  shows "\<exists>h'. push_new h (Some l) (Some x) = Inr (0, h') \<and> rep h' A \<and> room h'"
proof -
  from assms(1) obtain N where "repN h N A" by (auto simp: rep_def)
  from push_new_empty [OF this assms(2), of x] push_new_room [OF assms(3)] show ?thesis by blast
qed

end
