(* ===== verification/Serialize.thy ===== *)
theory Serialize
  imports Prelude
begin

text \<open>
  The byte format of common/src/serialize.c: \<open>packi16\<close>, \<open>unpacku16\<close>, \<open>unpacki16\<close> and the two
  format-driven variadic functions \<open>serialize\<close> and \<open>parse\<close>.

  A variadic argument is a value of \<open>sarg\<close>; a pointer \<open>parse\<close> writes through is a \<open>dest\<close>,
  what it writes there a \<open>parsed\<close>. A buffer is the list of the bytes from the pointer to the
  end of its array: reading or writing past the end is \<open>OutOfBounds\<close>. An argument that does
  not match the format is \<open>Uninit\<close> (undefined behaviour of \<open>va_arg\<close>).
\<close>

unbundle bit_operations_syntax

section \<open>Sixteen-bit integers\<close>

definition packi16 :: "u32 \<Rightarrow> byte list" where
  "packi16 i = [ucast (drop_bit 8 i), ucast i]"

definition unpacku16 :: "byte list \<Rightarrow> u32 res" where
  "unpacku16 buf = (case buf of
      b0 # b1 # _ \<Rightarrow> Inr (push_bit 8 (ucast b0) OR ucast b1)
    | _ \<Rightarrow> Inl OutOfBounds)"

definition unpacki16 :: "byte list \<Rightarrow> int res" where
  "unpacki16 buf = (case buf of
      b0 # b1 # _ \<Rightarrow>
        (let i2 = push_bit 8 (ucast b0) OR ucast b1 :: u32 in
         Inr (if i2 \<le> 0x7fff then uint i2 else sint (- 1 - (0xffff - i2))))
    | _ \<Rightarrow> Inl OutOfBounds)"

lemma length_packi16 [simp]: "length (packi16 i) = 2"
  by (simp add: packi16_def)

lemma packi16_u32: "push_bit 8 (ucast (ucast (drop_bit 8 i) :: byte)) OR ucast (ucast i :: byte)
    = (ucast (ucast i :: u16) :: u32)" for i :: u32
  by (rule bit_word_eqI) (auto simp: bit_simps)

lemma unpacku16_packi16 [simp]: "unpacku16 (packi16 i @ rest) = Inr (ucast (ucast i :: u16))"
  by (simp add: unpacku16_def packi16_def packi16_u32)

lemma unpacku16_packi16_Cons [simp]:
  "packi16 i = [b0, b1] \<Longrightarrow> unpacku16 (b0 # b1 # rest) = Inr (ucast (ucast i :: u16))"
  using unpacku16_packi16 [of i rest] by simp

lemma unpacku16_bound: "unpacku16 buf = Inr w \<Longrightarrow> unat w < 65536"
proof -
  assume "unpacku16 buf = Inr w"
  then obtain b0 b1 :: byte where w: "w = push_bit 8 (ucast b0) OR ucast b1"
    by (auto simp: unpacku16_def split: list.splits)
  have "w = take_bit 16 w"
    unfolding w by (rule bit_word_eqI) (auto simp: bit_simps dest: bit_imp_le_length)
  then have "unat w = take_bit 16 (unat w)" by (metis unsigned_take_bit_eq)
  also have "\<dots> < 2 ^ 16" by (rule take_bit_nat_less_exp)
  finally show ?thesis by simp
qed

lemma mod_shift: "m \<le> k \<Longrightarrow> k < 2 * m \<Longrightarrow> k mod m = k - m" for k :: int
proof -
  assume "m \<le> k" "k < 2 * m"
  have "k mod m = (k - m) mod m" by simp
  also have "\<dots> = k - m"
    by (rule mod_pos_pos_trivial) (use \<open>m \<le> k\<close> \<open>k < 2 * m\<close> in linarith)+
  finally show ?thesis .
qed

lemma sint_u16: "sint w = (if uint w < 32768 then uint w else uint w - 65536)" for w :: u16
proof -
  have s: "sint w = (uint w + 32768) mod 65536 - 32768"
    using int_word_sint [of "uint w", where 'a = 16] by simp
  have w: "0 \<le> uint w" "uint w < 65536" using uint_lt2p [of w] by simp_all
  show ?thesis
  proof (cases "uint w < 32768")
    case True
    with s w show ?thesis by simp
  next
    case False
    with w have "(uint w + 32768) mod 65536 = uint w + 32768 - 65536"
      by (intro mod_shift) simp_all
    with s False show ?thesis by simp
  qed
qed

lemma uint_u16_u32: "uint (ucast w :: u32) = uint w" for w :: u16
  using uint_lt2p [of w] by (simp add: unsigned_ucast_eq take_bit_int_eq_self)

lemma sint_u32: "- 2147483648 \<le> k \<Longrightarrow> k < 2147483648 \<Longrightarrow> sint (word_of_int k :: u32) = k"
  using int_word_sint [of k, where 'a = 32] by simp

text \<open>\<open>unpacki16\<close> is the signed reading of the sixteen bits, sign extension written out.\<close>

lemma unpacki16_packi16: "unpacki16 (packi16 i @ rest) = Inr (sint (ucast i :: u16))"
proof -
  let ?w = "ucast i :: u16"
  have w: "uint ?w < 65536" "0 \<le> uint ?w" using uint_lt2p [of ?w] by simp_all
  have pos: "uint (ucast ?w :: u32) = uint ?w"
    by (rule uint_u16_u32)
  have le: "(ucast ?w :: u32) \<le> 0x7fff \<longleftrightarrow> uint ?w < 32768"
    unfolding word_le_def pos by auto
  have "- 1 - (0xffff - (ucast ?w :: u32)) = word_of_int (uint ?w - 65536)"
    by (simp flip: pos)
  then have neg: "sint (- 1 - (0xffff - (ucast ?w :: u32))) = uint ?w - 65536"
    using w by (simp add: sint_u32 del: of_int_diff)
  have "unpacki16 (packi16 i @ rest) = Inr (if (ucast ?w :: u32) \<le> 0x7fff
      then uint (ucast ?w :: u32) else sint (- 1 - (0xffff - (ucast ?w :: u32))))"
    unfolding unpacki16_def packi16_def append_Cons append_Nil list.case packi16_u32 Let_def by simp
  also have "\<dots> = Inr (sint ?w)"
    unfolding le neg pos sint_u16 by simp
  finally show ?thesis .
qed

section \<open>serialize\<close>

datatype sarg =
    ArgInt u32                     \<comment> \<open>an int or unsigned int (smaller types are promoted)\<close>
  | ArgStr "byte list option"      \<comment> \<open>a char *, with the array it points into\<close>

text \<open>\<open>serialize cap format args\<close>, with \<open>cap\<close> the bytes left in the output buffer: the size it
  returns and the bytes it stores.\<close>

fun serialize :: "nat \<Rightarrow> string \<Rightarrow> sarg list \<Rightarrow> (u32 \<times> byte list) res" where
  "serialize cap [] args = Inr (0, [])"
| "serialize cap (f # fs) args =
     (if f = CHR ''c'' \<or> f = CHR ''C'' then
        (case args of
           ArgInt i # args' \<Rightarrow>
             rbind (guard_res OutOfBounds (1 \<le> cap)) (\<lambda>_.
             rbind (serialize (cap - 1) fs args') (\<lambda>(size, out). Inr (1 + size, ucast i # out)))
         | _ \<Rightarrow> Inl Uninit)
      else if f = CHR ''H'' then
        (case args of
           ArgInt i # args' \<Rightarrow>
             rbind (guard_res OutOfBounds (2 \<le> cap)) (\<lambda>_.
             rbind (serialize (cap - 2) fs args') (\<lambda>(size, out). Inr (2 + size, packi16 i @ out)))
         | _ \<Rightarrow> Inl Uninit)
      else if f = CHR ''s'' then
        (case args of
           ArgStr p # args' \<Rightarrow>
             (case p of None \<Rightarrow> Inl NullDeref
              | Some a \<Rightarrow>
                  rbind (cstring a) (\<lambda>s.
                  let len = of_nat (length s) :: u32 in
                  rbind (guard_res OutOfBounds (length s + 2 \<le> cap)) (\<lambda>_.
                  rbind (serialize (cap - (length s + 2)) fs args') (\<lambda>(size, out).
                    Inr (len + 2 + size, packi16 len @ s @ out)))))
         | _ \<Rightarrow> Inl Uninit)
      else serialize cap fs args)"

lemma serialize_size:
  "serialize cap fmt args = Inr (n, out) \<Longrightarrow> n = of_nat (length out) \<and> length out \<le> cap"
proof (induction fmt arbitrary: cap args n out)
  case Nil
  then show ?case by simp
next
  case (Cons f fs)
  show ?case
  proof (cases args)
    case Nil
    with Cons.prems Cons.IH show ?thesis by (auto split: if_splits)
  next
    case (Cons a args')
    with Cons.prems show ?thesis
      by (cases a) (auto simp: Let_def split: if_splits option.splits dest!: Cons.IH)
  qed
qed

section \<open>parse\<close>

datatype dest =
    DChar | DUChar | DInt | DUInt
  | DStr nat                       \<comment> \<open>a char buffer with its capacity\<close>

datatype parsed =
    PChar int | PUChar byte | PInt int | PUInt u32
  | PStr "byte list"               \<comment> \<open>the bytes stored in the buffer, terminator included\<close>

definition isdigit :: "char \<Rightarrow> bool" where
  "isdigit c \<longleftrightarrow> 48 \<le> (of_char c :: nat) \<and> (of_char c :: nat) \<le> 57"

definition resign :: "byte \<Rightarrow> int" where
  "resign b = (if b \<le> 0x7f then uint b else - 1 - uint (0xff - b))"

text \<open>\<open>parse buffer format\<close> with \<open>maxstrlen\<close> the decimal prefix read so far.\<close>

fun parse :: "byte list \<Rightarrow> string \<Rightarrow> nat \<Rightarrow> dest list \<Rightarrow> parsed list res" where
  "parse buf [] maxstrlen ds = Inr []"
| "parse buf (f # fs) maxstrlen ds =
     (if f = CHR ''c'' then
        (case (ds, buf) of
           (DChar # ds', b # bs) \<Rightarrow> rbind (parse bs fs 0 ds') (\<lambda>r. Inr (PChar (resign b) # r))
         | (DChar # ds', []) \<Rightarrow> Inl OutOfBounds
         | _ \<Rightarrow> Inl Uninit)
      else if f = CHR ''C'' then
        (case (ds, buf) of
           (DUChar # ds', b # bs) \<Rightarrow> rbind (parse bs fs 0 ds') (\<lambda>r. Inr (PUChar b # r))
         | (DUChar # ds', []) \<Rightarrow> Inl OutOfBounds
         | _ \<Rightarrow> Inl Uninit)
      else if f = CHR ''h'' then
        (case ds of
           DInt # ds' \<Rightarrow> rbind (unpacki16 buf) (\<lambda>i.
             rbind (parse (drop 2 buf) fs 0 ds') (\<lambda>r. Inr (PInt i # r)))
         | _ \<Rightarrow> Inl Uninit)
      else if f = CHR ''H'' then
        (case ds of
           DUInt # ds' \<Rightarrow> rbind (unpacku16 buf) (\<lambda>i.
             rbind (parse (drop 2 buf) fs 0 ds') (\<lambda>r. Inr (PUInt i # r)))
         | _ \<Rightarrow> Inl Uninit)
      else if f = CHR ''s'' then
        (case ds of
           DStr cap # ds' \<Rightarrow> rbind (unpacku16 buf) (\<lambda>w.
             let len = unat w;
                 buf' = drop 2 buf;
                 count = (if 0 < maxstrlen \<and> maxstrlen < len then maxstrlen - 1 else len) in
             rbind (guard_res OutOfBounds (count \<le> length buf' \<and> count + 1 \<le> cap)) (\<lambda>_.
             rbind (parse (drop len buf') fs 0 ds') (\<lambda>r. Inr (PStr (take count buf' @ [0]) # r))))
         | _ \<Rightarrow> Inl Uninit)
      else if isdigit f then parse buf fs (maxstrlen * 10 + (of_char f - 48)) ds
      else parse buf fs 0 ds)"

text \<open>\<open>resign\<close> is the two's complement reading of a byte.\<close>

lemma resign_sint: "resign b = sint b"
proof -
  have s: "sint b = (uint b + 128) mod 256 - 128"
    using int_word_sint [of "uint b", where 'a = 8] by simp
  have b: "0 \<le> uint b" "uint b < 256" using uint_lt2p [of b] by simp_all
  have le: "b \<le> 0x7f \<longleftrightarrow> uint b \<le> 127" by (simp add: word_le_def)
  have "uint (0xff - b) = (255 - uint b) mod 256" by (simp add: uint_word_ariths)
  also have "\<dots> = 255 - uint b" using b by (intro mod_pos_pos_trivial) linarith+
  finally have neg: "uint (0xff - b) = 255 - uint b" .
  show ?thesis
  proof (cases "uint b \<le> 127")
    case True
    with b have "(uint b + 128) mod 256 = uint b + 128" by (intro mod_pos_pos_trivial) linarith+
    with True s le show ?thesis by (simp add: resign_def)
  next
    case False
    with b have "(uint b + 128) mod 256 = uint b + 128 - 256" by (intro mod_shift) linarith+
    with False s le neg show ?thesis by (simp add: resign_def)
  qed
qed

section \<open>Round trip\<close>

text \<open>What \<open>parse\<close> is expected to store for the arguments \<open>serialize\<close> was given, for a format
  of unsigned fields and strings without length prefixes.\<close>

fun expected :: "string \<Rightarrow> sarg list \<Rightarrow> (dest \<times> parsed) list option" where
  "expected [] args = Some []"
| "expected (f # fs) args =
     (if f = CHR ''C'' then
        (case args of ArgInt i # args' \<Rightarrow> map_option ((#) (DUChar, PUChar (ucast i))) (expected fs args')
         | _ \<Rightarrow> None)
      else if f = CHR ''H'' then
        (case args of ArgInt i # args' \<Rightarrow>
           map_option ((#) (DUInt, PUInt (ucast (ucast i :: u16)))) (expected fs args')
         | _ \<Rightarrow> None)
      else if f = CHR ''s'' then
        (case args of ArgStr (Some a) # args' \<Rightarrow>
           (case cstring a of
              Inr s \<Rightarrow> if length s < 65536
                then map_option ((#) (DStr (Suc (length s)), PStr (s @ [0]))) (expected fs args')
                else None
            | Inl _ \<Rightarrow> None)
         | _ \<Rightarrow> None)
      else None)"

lemma unat_len16: "n < 65536 \<Longrightarrow> unat (ucast (ucast (of_nat n :: u32) :: u16) :: u32) = n"
  by (simp add: unsigned_ucast_eq unsigned_of_nat take_bit_nat_eq_self)

lemma parse_serialize:
  "serialize cap fmt args = Inr (n, out) \<Longrightarrow> expected fmt args = Some es \<Longrightarrow>
   parse (out @ rest) fmt 0 (map fst es) = Inr (map snd es)"
proof (induction fmt arbitrary: cap args n out es)
  case Nil
  then show ?case by simp
next
  case (Cons f fs)
  show ?case
  proof (cases args)
    case Nil
    with Cons.prems show ?thesis by (auto split: if_splits)
  next
    case (Cons a args')
    with Cons.prems show ?thesis
      by (cases a) (auto simp: Let_def unat_len16 split: if_splits option.splits sum.splits
          dest: Cons.IH)
  qed
qed

end
