(* ===== verification/Packet.thy ===== *)
theory Packet
  imports Serialize
begin

text \<open>
  CPT packets: the structures of cpt_types.h, the constants of cpt_definitions.h, the builder
  functions of cpt_packet_builder.c and the wire format of cpt_serialize.c and cpt_parse.c.

  A \<open>uint8_t *\<close> field is the array it points to (\<open>None\<close> for NULL). A function that allocates
  takes, for each of its allocations, whether it succeeds; a block that is not cleared by the
  code starts with the contents \<open>junk\<close> it is given.
\<close>

section \<open>Constants\<close>

definition SEND :: byte where "SEND = 1"
definition LOGOUT :: byte where "LOGOUT = 2"
definition GET_USERS :: byte where "GET_USERS = 3"
definition CREATE_CHANNEL :: byte where "CREATE_CHANNEL = 4"
definition JOIN_CHANNEL :: byte where "JOIN_CHANNEL = 5"
definition LEAVE_CHANNEL :: byte where "LEAVE_CHANNEL = 6"
definition LOGIN :: byte where "LOGIN = 7"
definition CREATE_VCHAN :: byte where "CREATE_VCHAN = 8"

lemmas command_defs = SEND_def LOGOUT_def GET_USERS_def CREATE_CHANNEL_def JOIN_CHANNEL_def
  LEAVE_CHANNEL_def LOGIN_def CREATE_VCHAN_def

definition SUCCESS :: int where "SUCCESS = 1"
definition BAD_CHANNEL :: int where "BAD_CHANNEL = 17"
definition NAME_TOO_LONG :: int where "NAME_TOO_LONG = 18"
definition CHAN_EMPTY :: int where "CHAN_EMPTY = 9"
definition FAILURE :: int where "FAILURE = 22"

lemmas code_defs = SUCCESS_def BAD_CHANNEL_def NAME_TOO_LONG_def CHAN_EMPTY_def FAILURE_def

definition MAX_NAME_SIZE :: nat where "MAX_NAME_SIZE = 12"
definition MD_BUFF_SIZE :: nat where "MD_BUFF_SIZE = 512"
definition LG_BUFF_SIZE :: nat where "LG_BUFF_SIZE = 1024"
definition SM_BUFF_SIZE :: nat where "SM_BUFF_SIZE = 256"
definition DEFAULT_USERNAME :: "byte list" where "DEFAULT_USERNAME = str ''anonymous''"

lemmas size_defs = MAX_NAME_SIZE_def MD_BUFF_SIZE_def LG_BUFF_SIZE_def SM_BUFF_SIZE_def

section \<open>Structures\<close>

record cpt_request =
  version :: byte
  command :: byte
  channel_id :: u16
  msg_len :: u16
  msg :: "byte list option"

record cpt_response =
  code :: byte
  data_size :: u16
  data :: "byte list option"

record cpt_msg_sub_packet =
  sp_channel_id :: u16
  sp_user_id :: u16
  sp_msg_len :: u16
  sp_msg :: "byte list option"

section \<open>The packet builder\<close>

definition cpt_request_init :: "cpt_request option \<Rightarrow> cpt_request option" where
  "cpt_request_init junk = map_option (\<lambda>j. j\<lparr>msg := None\<rparr>) junk"

definition cpt_request_cmd :: "byte \<Rightarrow> cpt_request \<Rightarrow> cpt_request" where
  "cpt_request_cmd cmd cpt =
     (if SEND \<le> cmd \<and> cmd \<le> CREATE_VCHAN then cpt\<lparr>command := cmd\<rparr> else cpt)"

definition cpt_request_version :: "byte \<Rightarrow> byte \<Rightarrow> cpt_request \<Rightarrow> cpt_request" where
  "cpt_request_version version_major version_minor cpt =
     (if version_major > 15 \<or> version_minor > 15 then cpt
      else cpt\<lparr>version := push_bit 4 version_major + version_minor\<rparr>)"

definition cpt_request_chan :: "u16 \<Rightarrow> cpt_request \<Rightarrow> cpt_request" where
  "cpt_request_chan chan_id cpt = cpt\<lparr>channel_id := chan_id\<rparr>"

definition cpt_request_msg :: "byte list option \<Rightarrow> cpt_request \<Rightarrow> cpt_request res" where
  "cpt_request_msg m cpt = (case m of None \<Rightarrow> Inr cpt
     | Some a \<Rightarrow> rbind (cstring a) (\<lambda>s.
         Inr (cpt\<lparr>msg := Some (s @ [0]), msg_len := of_nat (length s)\<rparr>)))"

definition cpt_request_reset :: "cpt_request \<Rightarrow> cpt_request" where
  "cpt_request_reset packet = packet\<lparr>msg := None, msg_len := 0, command := 0, channel_id := 0\<rparr>"

definition cpt_to_string :: "cpt_request \<Rightarrow> byte list res" where
  "cpt_to_string cpt =
     (let version_major = drop_bit 4 (version cpt); version_minor = version cpt AND 15 in
      rbind (case msg cpt of None \<Rightarrow> Inr (str ''(empty)'') | Some a \<Rightarrow> cstring a) (\<lambda>m.
      let out = str ''VERSION: '' @ decimal (unat version_major) @ str ''.'' @
                decimal (unat version_minor) @
                str ''\<newline>COMMAND: '' @ decimal (unat (command cpt)) @
                str ''\<newline>CHAN ID: '' @ decimal (unat (channel_id cpt)) @
                str ''\<newline>MSG LEN: '' @ decimal (unat (msg_len cpt)) @
                str ''\<newline>MSG: \"'' @ m @ str ''\"\<newline>\<newline>''
      in rbind (guard_res OutOfBounds (length out + 1 \<le> MD_BUFF_SIZE)) (\<lambda>_. Inr out)))"

definition cpt_response_init :: "bool \<Rightarrow> cpt_response option" where
  "cpt_response_init ok = (if ok then Some \<lparr>code = 0, data_size = 0, data = None\<rparr> else None)"

definition cpt_response_reset :: "cpt_response \<Rightarrow> cpt_response" where
  "cpt_response_reset r = r\<lparr>data := None, data_size := 0, code := 0\<rparr>"

section \<open>Serialization\<close>

definition cpt_serialize_packet :: "nat \<Rightarrow> cpt_request \<Rightarrow> (u32 \<times> byte list) res" where
  "cpt_serialize_packet cap cpt = serialize cap ''CCHs''
     [ArgInt (ucast (version cpt)), ArgInt (ucast (command cpt)), ArgInt (ucast (channel_id cpt)),
      ArgStr (msg cpt)]"

definition cpt_serialize_response :: "nat \<Rightarrow> cpt_response \<Rightarrow> (u32 \<times> byte list) res" where
  "cpt_serialize_response cap r = serialize cap ''Cs'' [ArgInt (ucast (code r)), ArgStr (data r)]"

definition cpt_serialize_msg :: "nat \<Rightarrow> cpt_msg_sub_packet \<Rightarrow> (u32 \<times> byte list) res" where
  "cpt_serialize_msg cap m = serialize cap ''HHHs''
     [ArgInt (ucast (sp_channel_id m)), ArgInt (ucast (sp_user_id m)), ArgInt (ucast (sp_msg_len m)),
      ArgStr (sp_msg m)]"

section \<open>Parsing\<close>

text \<open>An array of \<open>cap\<close> zero bytes after \<open>s\<close> is stored at its start.\<close>

definition fill :: "nat \<Rightarrow> byte list \<Rightarrow> byte list" where
  "fill cap s = s @ replicate (cap - length s) 0"

text \<open>
  \<open>parse\<close> stores the field 'H' through an \<open>unsigned int *\<close> although the destination is the
  \<open>uint16_t\<close> field \<open>channel_id\<close>: four bytes are written, over \<open>channel_id\<close> and the field
  \<open>msg_len\<close> behind it. On the little-endian machines the program runs on, the low half is the
  channel id.
\<close>

definition store_channel_id :: "u32 \<Rightarrow> cpt_request \<Rightarrow> cpt_request" where
  "store_channel_id w req = req\<lparr>channel_id := ucast w, msg_len := ucast (drop_bit 16 w)\<rparr>"

definition cpt_parse_request :: "bool \<times> bool \<Rightarrow> byte list \<Rightarrow> nat \<Rightarrow> cpt_request res" where
  "cpt_parse_request oks req_buf req_size =
     (if \<not> fst oks then Inl NullDeref
      else rbind (parse req_buf ''CCH512s'' 0 [DUChar, DUChar, DUInt, DStr MD_BUFF_SIZE]) (\<lambda>fields.
        (case fields of
           [PUChar v, PUChar c, PUInt w, PStr s] \<Rightarrow>
             (let req = store_channel_id w
                    \<lparr>version = v, command = c, channel_id = 0, msg_len = 0, msg = None\<rparr>;
                  buf = fill MD_BUFF_SIZE s in
              if snd oks then
                rbind (guard_res OutOfBounds (req_size \<le> MD_BUFF_SIZE)) (\<lambda>_.
                  Inr (req\<lparr>msg := Some (take req_size buf)\<rparr>))
              else Inr req)
         | _ \<Rightarrow> Inl Uninit)))"

definition cpt_parse_response :: "bool \<times> bool \<Rightarrow> byte list \<Rightarrow> cpt_response option res" where
  "cpt_parse_response oks buffer =
     rbind (parse buffer ''C512s'' 0 [DUChar, DStr MD_BUFF_SIZE]) (\<lambda>fields.
       (case fields of
          [PUChar c, PStr s] \<Rightarrow>
            (case cpt_response_init (fst oks) of
               None \<Rightarrow> Inr None
             | Some r \<Rightarrow>
                 rbind (cstring (fill MD_BUFF_SIZE s)) (\<lambda>d.
                 let size = (of_nat (length d) :: u16) in
                 Inr (Some (r\<lparr>code := c, data_size := size,
                   data := (if snd oks then Some (take (unat size) d) else None)\<rparr>))))
        | _ \<Rightarrow> Inl Uninit))"

section \<open>Lemmas\<close>

lemma isdigit_simps [simp]:
  "isdigit CHR ''5''" "isdigit CHR ''1''" "isdigit CHR ''2''"
  by (simp_all add: isdigit_def)

lemma ucast_u16_u32 [simp]: "ucast (ucast (ch :: u16) :: u32) = ch"
  by (rule bit_word_eqI) (auto simp: bit_simps)

lemma ucast_byte_u32 [simp]: "ucast (ucast (b :: byte) :: u32) = b"
  by (rule bit_word_eqI) (auto simp: bit_simps)

text \<open>\<open>parse\<close> on the string field of a packet with the length limit 512.\<close>

lemma parse_512s:
  "parse buf ''512s'' 0 [DStr MD_BUFF_SIZE] =
     rbind (unpacku16 buf) (\<lambda>w.
       let len = unat w; count = (if 512 < len then 512 - 1 else len) in
       rbind (guard_res OutOfBounds (count \<le> length buf - 2 \<and> count + 1 \<le> 512))
         (\<lambda>_. Inr [PStr (take count (drop 2 buf) @ [0])]))"
  by (simp add: MD_BUFF_SIZE_def Let_def)

lemma parse_string_field:
  assumes "length s < 512"
  shows "parse (packi16 (of_nat (length s)) @ s @ rest) ''512s'' 0 [DStr MD_BUFF_SIZE] =
    Inr [PStr (s @ [0])]"
  using assms unfolding parse_512s by (simp add: unat_len16)

lemma fill_zero: "fill cap (s @ [0]) = s @ 0 # replicate (cap - Suc (length s)) 0"
  by (simp add: fill_def)

lemma take_fill:
  "length s + k < cap \<Longrightarrow> take (length s + k) (fill cap (s @ [0])) = s @ replicate k 0"
  unfolding fill_zero by (cases k) (simp_all add: take_Cons' min_def flip: replicate_Suc)

text \<open>A version byte holds its two nibbles.\<close>

lemma version_nibbles:
  assumes "major \<le> 15" "minor \<le> 15"
  shows "drop_bit 4 (push_bit 4 major + minor :: byte) = major"
    and "(push_bit 4 major + minor :: byte) AND 15 = minor"
proof -
  have u: "unat major \<le> 15" "unat minor \<le> 15"
    using assms by (simp_all add: word_le_nat_alt)
  have "unat (push_bit 4 major) = 16 * unat major"
    using u by (simp add: push_bit_eq_mult unat_word_ariths)
  then have plus: "unat (push_bit 4 major + minor) = 16 * unat major + unat minor"
    using u by (simp add: unat_word_ariths)
  show "drop_bit 4 (push_bit 4 major + minor) = major"
    by (rule word_unat_eq_iff [THEN iffD2])
      (use plus u in \<open>simp only: unsigned_drop_bit_eq, simp add: drop_bit_eq_div take_bit_nat_eq_self\<close>)
  have "(push_bit 4 major + minor) AND 15 = take_bit 4 (push_bit 4 major + minor)"
    by (simp add: take_bit_eq_mask mask_eq_exp_minus_1)
  also have "\<dots> = minor"
    by (rule word_unat_eq_iff [THEN iffD2])
      (use plus u in \<open>simp only: unsigned_take_bit_eq, simp add: take_bit_eq_mod\<close>)
  finally show "(push_bit 4 major + minor) AND 15 = minor" .
qed

section \<open>Round trips over the wire\<close>

lemma parse_request_fields:
  "parse (v # c # packi16 i @ rest) ''CCH512s'' 0 [DUChar, DUChar, DUInt, DStr MD_BUFF_SIZE] =
     rbind (parse rest ''512s'' 0 [DStr MD_BUFF_SIZE])
       (\<lambda>r. Inr (PUChar v # PUChar c # PUInt (ucast (ucast i :: u16)) # r))"
  by (simp del: parse.simps add: parse.simps(2) [of _ "CHR ''C''"] parse.simps(2) [of _ "CHR ''H''"]
      rbind_assoc)

lemma parse_response_fields:
  "parse (c # rest) ''C512s'' 0 [DUChar, DStr MD_BUFF_SIZE] =
     rbind (parse rest ''512s'' 0 [DStr MD_BUFF_SIZE]) (\<lambda>r. Inr (PUChar c # r))"
  by (simp del: parse.simps add: parse.simps(2) [of _ "CHR ''C''"])

lemma serialize_packet_bytes:
  assumes "msg req = Some (s @ 0 # t)" "0 \<notin> set s" "length s + 6 \<le> cap"
  shows "cpt_serialize_packet cap req = Inr (of_nat (length s + 6),
    version req # command req # packi16 (ucast (channel_id req)) @ packi16 (of_nat (length s)) @ s)"
proof -
  from assms(3) obtain k where "cap = length s + 6 + k" using le_Suc_ex by blast
  with assms(1,2) show ?thesis by (simp add: cpt_serialize_packet_def Let_def algebra_simps)
qed

lemma serialize_response_bytes:
  assumes "data r = Some (s @ 0 # t)" "0 \<notin> set s" "length s + 3 \<le> cap"
  shows "cpt_serialize_response cap r = Inr (of_nat (length s + 3),
    code r # packi16 (of_nat (length s)) @ s)"
proof -
  from assms(3) obtain k where "cap = length s + 3 + k" using le_Suc_ex by blast
  with assms(1,2) show ?thesis by (simp add: cpt_serialize_response_def Let_def algebra_simps)
qed

lemma store_channel_id_u16 [simp]:
  "store_channel_id (ucast (ch :: u16)) req = req\<lparr>channel_id := ch, msg_len := 0\<rparr>"
proof -
  have "ucast (drop_bit 16 (ucast ch :: u32)) = (0 :: u16)"
    by (rule bit_word_eqI) (auto simp: bit_simps dest: bit_imp_le_length)
  then show ?thesis by (simp add: store_channel_id_def)
qed

lemma parse_request_bytes:
  assumes "0 \<notin> set s" "length s + k < 512"
  shows "cpt_parse_request (True, True)
      (v # c # packi16 (ucast ch) @ packi16 (of_nat (length s)) @ s @ rest) (length s + k) =
    Inr \<lparr>version = v, command = c, channel_id = ch, msg_len = 0,
         msg = Some (s @ replicate k 0)\<rparr>"
  using assms parse_string_field [of s rest] take_fill [of s k MD_BUFF_SIZE]
  by (simp del: parse.simps add: cpt_parse_request_def parse_request_fields Let_def)
     (simp add: MD_BUFF_SIZE_def)

text \<open>C33: A request survives the wire. For every request whose message is a C string of at most
  505 bytes, \<open>cpt_serialize_packet\<close> succeeds in a large enough buffer, returns the size of
  what it stored, and \<open>cpt_parse_request\<close> on the received bytes (whatever follows them in the
  receive buffer) rebuilds the version, the command, the channel id and the message, here
  followed by the six zero bytes that the header size adds to the copy. The length field of the
  structure is not sent: it arrives as 0.\<close>

theorem request_roundtrip:
  assumes "msg req = Some (s @ 0 # t)" "0 \<notin> set s" "length s + 6 < 512" "length s + 6 \<le> cap"
  shows "\<exists>n out. cpt_serialize_packet cap req = Inr (n, out) \<and> unat n = length out \<and>
    (\<forall>rest. cpt_parse_request (True, True) (out @ rest) (unat n) =
       Inr (req\<lparr>msg_len := 0, msg := Some (s @ replicate 6 0)\<rparr>))"
proof -
  have n: "unat (of_nat (length s + 6) :: u32) = length s + 6"
    using assms(3) by (simp add: unat_of_nat del: of_nat_add)
  show ?thesis
    unfolding serialize_packet_bytes [OF assms(1,2,4)]
    using parse_request_bytes [OF assms(2), of 6] assms(3) n
    by (simp del: of_nat_add)
qed

theorem request_roundtrip_witness:
  "\<exists>n out. cpt_serialize_packet 512 \<lparr>version = 32, command = SEND, channel_id = 258, msg_len = 2,
      msg = Some [104, 105, 0]\<rparr> = Inr (n, out) \<and> unat n = length out \<and>
    (\<forall>rest. cpt_parse_request (True, True) (out @ rest) (unat n) =
       Inr (\<lparr>version = 32, command = SEND, channel_id = 258, msg_len = 2, msg = Some [104, 105, 0]\<rparr>
         \<lparr>msg_len := 0, msg := Some ([104, 105] @ replicate 6 0)\<rparr>))"
  by (rule request_roundtrip [where t = "[]"]) simp_all

lemma cstring_fill: "0 \<notin> set s \<Longrightarrow> cstring (fill cap (s @ [0])) = Inr s"
  unfolding fill_zero by simp

lemma unat_u16_len: "n < 65536 \<Longrightarrow> unat (of_nat n :: u16) = n"
  by (simp add: unat_of_nat)

lemma parse_response_bytes:
  assumes "0 \<notin> set s" "length s < 512"
  shows "cpt_parse_response (True, True) (c # packi16 (of_nat (length s)) @ s @ rest) =
    Inr (Some \<lparr>code = c, data_size = of_nat (length s), data = Some s\<rparr>)"
  using assms parse_string_field [of s rest] cstring_fill [of s MD_BUFF_SIZE] unat_u16_len [of "length s"]
  by (simp del: parse.simps add: cpt_parse_response_def parse_response_fields cpt_response_init_def Let_def)

text \<open>C34: A response survives the wire, up to the terminator of its data. For every response
  whose data is a C string of at most 511 bytes, serializing succeeds, and parsing the received
  bytes rebuilds the code and the bytes of the data and sets \<open>data_size\<close> to their number. The
  copy is not terminated: reading it as a C string, as the client does for the codes it prints,
  runs past the end of the block.\<close>

theorem response_roundtrip:
  assumes "data r = Some (s @ 0 # t)" "0 \<notin> set s" "length s < 512" "length s + 3 \<le> cap"
  shows "\<exists>n out. cpt_serialize_response cap r = Inr (n, out) \<and> unat n = length out \<and>
    (\<forall>rest. cpt_parse_response (True, True) (out @ rest) =
       Inr (Some \<lparr>code = code r, data_size = of_nat (length s), data = Some s\<rparr>)) \<and>
    cstring s = Inl OutOfBounds"
proof -
  have n: "unat (of_nat (length s + 3) :: u32) = length s + 3"
    using assms(3) by (simp add: unat_of_nat del: of_nat_add)
  have "cstrlen s = Inl OutOfBounds" using assms(2) by (simp add: cstrlen_eq_Inl)
  then show ?thesis
    unfolding serialize_response_bytes [OF assms(1,2,4)]
    using parse_response_bytes [OF assms(2,3)] n by (simp add: cstring_def del: of_nat_add)
qed

theorem response_roundtrip_witness:
  "\<exists>n out. cpt_serialize_response 512 \<lparr>code = LOGIN, data_size = 0, data = Some [79, 75, 0]\<rparr> = Inr (n, out)
     \<and> unat n = length out \<and>
    (\<forall>rest. cpt_parse_response (True, True) (out @ rest) = Inr (Some
       \<lparr>code = code \<lparr>code = LOGIN, data_size = 0, data = Some [79, 75, 0]\<rparr>,
        data_size = of_nat (length [79, 75 :: byte]), data = Some [79, 75]\<rparr>)) \<and>
    cstring [79, 75] = Inl OutOfBounds"
  by (rule response_roundtrip [where t = "[]"]) simp_all

lemma parse_request_off_by_one:
  assumes "length s = 512"
  shows "cpt_parse_request (True, ok)
    (v # c # packi16 (ucast (ch :: u16)) @ packi16 512 @ s @ rest) n = Inl OutOfBounds"
proof -
  have "unpacku16 (packi16 512 @ s @ rest) = Inr 512"
    by (simp add: unsigned_ucast_eq)
  then have "parse (packi16 512 @ s @ rest) ''512s'' 0 [DStr MD_BUFF_SIZE] = Inl OutOfBounds"
    unfolding parse_512s by (simp add: Let_def)
  then show ?thesis
    by (simp del: parse.simps add: cpt_parse_request_def parse_request_fields)
qed

lemma parse_request_truncates:
  assumes "512 < n" "n < 65536" "length s = 511" "req_size \<le> 512"
  shows "cpt_parse_request (True, True)
      (v # c # packi16 (ucast (ch :: u16)) @ packi16 (of_nat n) @ s @ rest) req_size =
    Inr \<lparr>version = v, command = c, channel_id = ch, msg_len = 0, msg = Some (take req_size (s @ [0]))\<rparr>"
proof -
  have "unpacku16 (packi16 (of_nat n) @ s @ rest) = Inr (ucast (ucast (of_nat n :: u32) :: u16))"
    by simp
  then have "parse (packi16 (of_nat n) @ s @ rest) ''512s'' 0 [DStr MD_BUFF_SIZE] = Inr [PStr (s @ [0])]"
    unfolding parse_512s using assms unat_len16 [of n] by (simp add: Let_def)
  then show ?thesis
    using assms by (simp del: parse.simps
      add: cpt_parse_request_def parse_request_fields Let_def fill_def)
      (simp add: MD_BUFF_SIZE_def)
qed

lemma parse_request_oversized:
  assumes "512 < req_size"
  shows "\<forall>req. cpt_parse_request (True, True) buf req_size \<noteq> Inr req"
  using assms
  by (simp add: cpt_parse_request_def Let_def MD_BUFF_SIZE_def rbind_def del: parse.simps
      split: sum.splits list.splits parsed.splits)

text \<open>C36: The limits of a request. Of a message of more than 512 bytes the first 511 are kept and terminated
  inside the buffer, however long the request says it is. A message of exactly 512 bytes is not cut:
  the limit in the format equals the size of the buffer, and the terminator is stored one byte past
  its end. And whatever the packet holds, a received size of 513 or more never gives a request: as
  many bytes as were received are copied out of the buffer of 512.\<close>

theorem parse_request_limit:
  assumes "512 \<le> n" "n < 65536" "length s = 512" "req_size \<le> 512"
  shows "cpt_parse_request (True, True)
      (v # c # packi16 (ucast (ch :: u16)) @ packi16 (of_nat n) @ s @ rest) req_size =
    (if n = 512 then Inl OutOfBounds
     else Inr \<lparr>version = v, command = c, channel_id = ch, msg_len = 0,
       msg = Some (take req_size (take 511 s @ [0]))\<rparr>) \<and>
    (\<forall>buf m req. 512 < m \<longrightarrow> cpt_parse_request (True, True) buf m \<noteq> Inr req)"
proof
  show "\<forall>buf m req. 512 < m \<longrightarrow> cpt_parse_request (True, True) buf m \<noteq> Inr req"
    using parse_request_oversized by blast
  have split: "s @ rest = take 511 s @ drop 511 s @ rest" by simp
  show "cpt_parse_request (True, True)
      (v # c # packi16 (ucast (ch :: u16)) @ packi16 (of_nat n) @ s @ rest) req_size =
    (if n = 512 then Inl OutOfBounds
     else Inr \<lparr>version = v, command = c, channel_id = ch, msg_len = 0,
       msg = Some (take req_size (take 511 s @ [0]))\<rparr>)"
  proof (cases "n = 512")
    case True
    then show ?thesis using parse_request_off_by_one [OF assms(3), of True v c ch rest req_size] by simp
  next
    case False
    then show ?thesis
      unfolding split using assms by (subst parse_request_truncates) simp_all
  qed
qed

theorem parse_request_limit_witness:
  "cpt_parse_request (True, True)
      (32 # SEND # packi16 (ucast (7 :: u16)) @ packi16 (of_nat 600) @ replicate 512 65 @ []) 512 =
    Inr \<lparr>version = 32, command = SEND, channel_id = 7, msg_len = 0,
      msg = Some (replicate 511 65 @ [0])\<rparr> \<and>
   cpt_parse_request (True, True)
      (32 # SEND # packi16 (ucast (7 :: u16)) @ packi16 (of_nat 512) @ replicate 512 65 @ []) 512 =
    Inl OutOfBounds \<and>
   (\<forall>req. cpt_parse_request (True, True) (replicate 1024 1) 1024 \<noteq> Inr req)"
  using parse_request_limit [of 600 "replicate 512 65" 512 32 SEND 7 "[]"]
    parse_request_limit [of 512 "replicate 512 65" 512 32 SEND 7 "[]"] by simp

end
