(* ===== verification/Users.thy ===== *)
theory Users
  imports List_Store Packet
begin

text \<open>
  The users of cpt_app/server/src/user.c. A \<open>Users *\<close> is the address of a list in a heap whose
  payloads are users; \<open>create_user_node\<close> copies the structure, so a user that is in two
  channels is two payloads with the same id.
\<close>

section \<open>Users and lists of users\<close>

record user =
  uid :: u16
  uname :: "byte list option"
  udp_fd_s :: u16
  udp_fd_r :: u16

type_synonym uheap = "user lheap"

definition user_init :: "bool \<Rightarrow> int \<Rightarrow> int \<Rightarrow> byte list option \<Rightarrow> user option res" where
  "user_init ok id0 fd name =
     rbind (case name of None \<Rightarrow> Inr DEFAULT_USERNAME | Some a \<Rightarrow> cstring a) (\<lambda>s.
       if name \<noteq> None \<and> length s > MAX_NAME_SIZE then Inr None
       else if \<not> ok then Inr None
       else Inr (Some \<lparr>uid = ucast (word_of_int id0 :: byte), uname = Some (s @ [0]),
                       udp_fd_s = 0, udp_fd_r = 0\<rparr>))"

definition create_user_node :: "uheap \<Rightarrow> user option \<Rightarrow> (addr option \<times> uheap) res" where
  "create_user_node h u = create_node h u"

definition get_head_user :: "uheap \<Rightarrow> addr option \<Rightarrow> addr option res" where
  "get_head_user h users = get_head_node h users"

definition push_user :: "uheap \<Rightarrow> addr option \<Rightarrow> user option \<Rightarrow> (int \<times> uheap) res" where
  "push_user h users u = rbind (push_data h users u) (\<lambda>(push_res, h').
     Inr (if push_res \<noteq> 0 then 1 else 0, h'))"

definition push_user_node :: "uheap \<Rightarrow> addr option \<Rightarrow> addr option \<Rightarrow> uheap res" where
  "push_user_node h users user_node = rbind (push_node h users user_node) (\<lambda>(_, h'). Inr h')"

definition find_user_id :: "int \<Rightarrow> user option \<Rightarrow> bool res" where
  "find_user_id id0 u = Inr (case u of None \<Rightarrow> False | Some v \<Rightarrow> uint (uid v) = id0)"

definition find_user_name :: "user option \<Rightarrow> byte list \<Rightarrow> bool res" where
  "find_user_name u name = (case u of None \<Rightarrow> Inl NullDeref
     | Some v \<Rightarrow> (case uname v of None \<Rightarrow> Inl NullDeref
        | Some a \<Rightarrow> rbind (cstring a) (\<lambda>s. rbind (cstring name) (\<lambda>t. Inr (s = t)))))"

definition find_user :: "uheap \<Rightarrow> addr option \<Rightarrow> int \<Rightarrow> user option res" where
  "find_user h users id0 = find_data h users (find_user_id id0)"

definition for_each_user ::
  "uheap \<Rightarrow> addr option \<Rightarrow> (user option \<Rightarrow> 's \<Rightarrow> 's res) \<Rightarrow> 's \<Rightarrow> 's res" where
  "for_each_user h users consumer s = for_each h users consumer s"

definition user_delete :: "uheap \<Rightarrow> addr option \<Rightarrow> int \<Rightarrow> (int \<times> uheap) res" where
  "user_delete h users id0 =
     (if users \<noteq> None then delete_node h users (find_user_id id0) else Inr (-1, h))"

definition user_line :: "u16 \<Rightarrow> byte list \<Rightarrow> byte list" where
  "user_line i s = str ''ID: '' @ decimal (unat i) @ [9] @ str ''NAME: '' @ s @ [10]"

definition user_to_string :: "user \<Rightarrow> byte list res" where
  "user_to_string u = (case uname u of None \<Rightarrow> Inl NullDeref
     | Some a \<Rightarrow> rbind (cstring a) (\<lambda>s.
         rbind (guard_res OutOfBounds (length (user_line (uid u) s) + 1 \<le> MD_BUFF_SIZE))
           (\<lambda>_. Inr (user_line (uid u) s))))"

definition print_user :: "user option \<Rightarrow> byte list \<Rightarrow> byte list res" where
  "print_user u stdout = (case u of None \<Rightarrow> Inl NullDeref
     | Some v \<Rightarrow> rbind (user_to_string v) (\<lambda>line. Inr (stdout @ line @ [10])))"

definition users_init :: "uheap \<Rightarrow> addr option \<Rightarrow> (addr option \<times> uheap) res" where
  "users_init h user_node =
     (if user_node = None then Inr (None, h)
      else (case init_list_node h user_node of
          (None, h') \<Rightarrow> Inr (None, h')
        | (Some l, h') \<Rightarrow>
            rbind (upd_list (Some l) (\<lambda>L. L\<lparr>ll_length := 1\<rparr>) h') (\<lambda>h''. Inr (Some l, h''))))"

definition users_destroy :: "uheap \<Rightarrow> addr option \<Rightarrow> uheap res" where
  "users_destroy h users = (if users = None then Inr h else destroy_list h users)"

section \<open>The filter predicate\<close>

record filter_query =
  num_params :: nat
  params :: "u16 list"

fun id_crawl :: "u16 \<Rightarrow> nat \<Rightarrow> u16 list \<Rightarrow> (bool \<times> u16 list) res" where
  "id_crawl u 0 ids = Inr (False, ids)"
| "id_crawl u (Suc n) [] = Inl OutOfBounds"
| "id_crawl u (Suc n) (i # ids) =
     (if u = i then Inr (True, 65535 # ids)
      else rbind (id_crawl u n ids) (\<lambda>(b, ids'). Inr (b, i # ids')))"

definition filter_user_id :: "user option \<Rightarrow> filter_query \<Rightarrow> (bool \<times> filter_query) res" where
  "filter_user_id u q = (case u of None \<Rightarrow> Inl NullDeref
     | Some v \<Rightarrow> rbind (id_crawl (uid v) (num_params q) (params q))
         (\<lambda>(b, ids'). Inr (b, q\<lparr>params := ids'\<rparr>)))"

section \<open>Lists of users as a keyed store\<close>

abbreviation user_key :: "user \<Rightarrow> int" where
  "user_key u \<equiv> uint (uid u)"

interpretation ustore: keyed_store rep find_data push_data delete_node room user_key find_user_id
  by unfold_locales (simp add: find_user_id_def)

lemma push_user_push_data [simp]: "push_user h l u = push_data h l u"
  by (auto simp: push_user_def push_data_def rbind_def Let_def split: sum.splits option.splits prod.splits)

lemma find_user_store:
  "rep h A \<Longrightarrow> A l = Some (n, us) \<Longrightarrow>
   find_user h (Some l) k = Inr (List.find (\<lambda>u. user_key u = k) us)"
  unfolding find_user_def by (rule ustore.find_key)

lemma user_delete_store:
  "rep h A \<Longrightarrow> A l = Some (n, us) \<Longrightarrow> k \<in> user_key ` set us \<Longrightarrow>
   \<exists>h'. user_delete h (Some l) k = Inr (1, h') \<and>
        rep h' (A(l \<mapsto> (n - 1, del_first (\<lambda>u. user_key u = k) us)))"
  unfolding user_delete_def by (simp add: ustore.delete_key)

lemma user_delete_absent:
  "rep h A \<Longrightarrow> A l = Some (n, us) \<Longrightarrow> k \<notin> user_key ` set us \<Longrightarrow>
   user_delete h (Some l) k = (if length us < 2 then Inl NullDeref else Inr (0, h))"
  unfolding user_delete_def using ustore.delete_absent [of h A l n us k] by simp

lemma users_init_store:
  assumes "rep h A" and cr: "create_user_node h (Some u) = Inr (node, h1)"
  shows "\<exists>p h2. users_init h1 node = Inr (p, h2) \<and>
    ((p = None \<and> rep h2 A) \<or> (\<exists>l. p = Some l \<and> A l = None \<and> rep h2 (A(l \<mapsto> (1, [u])))))"
proof -
  from assms(1) obtain N where R: "repN h N A" by (auto simp: rep_def)
  show ?thesis
  proof (cases rule: create_node_cases [where h = h and x = u])
    case (fail h')
    with cr have "node = None" "h1 = h'" by (simp_all add: create_user_node_def)
    with only_allocates_rep [OF R fail(2)] show ?thesis by (auto simp: users_init_def rep_def)
  next
    case (ok h')
    with cr have n: "node = Some (brk h)" "h1 = h'" by (simp_all add: create_user_node_def)
    have R1: "repN h1 N A" using only_allocates_rep [OF R ok(2)] n by simp
    have notin: "brk h \<notin> addrs (N l')" for l' using repN_less [OF R, of "brk h" l'] by auto
    from init_list_node_rep [OF R1, of "brk h" u] ok n notin
    consider h2 where "init_list_node h1 (Some (brk h)) = (None, h2)" "rep h2 A"
      | h2 where "init_list_node h1 (Some (brk h)) = (Some (brk h1), h2)" "A (brk h1) = None"
          "rep h2 (A(brk h1 \<mapsto> (junk h1 (brk h1) + 1, [u])))"
      by auto
    then show ?thesis
    proof cases
      case 1
      with n show ?thesis by (simp add: users_init_def)
    next
      case (2 h2)
      from upd_length_rep [OF 2(3), of "brk h1" _ "[u]" 1] obtain h3 where
        "upd_list (Some (brk h1)) (\<lambda>L. L\<lparr>ll_length := 1\<rparr>) h2 = Inr h3"
        "rep h3 (A(brk h1 \<mapsto> (1, [u])))" by auto
      with 2 n show ?thesis by (auto simp: users_init_def)
    qed
  qed
qed

lemma uint_byte_u16: "uint (ucast b :: u16) = uint b" for b :: byte
  using uint_lt2p [of b] by (simp add: unsigned_ucast_eq take_bit_int_eq_self)

lemma user_init_id: "user_init ok k fd name = Inr (Some u) \<Longrightarrow> user_key u = k mod 256"
proof -
  have "uint (ucast (word_of_int k :: byte) :: u16) = k mod 256"
    unfolding uint_byte_u16 by (simp add: unsigned_of_int take_bit_eq_mod)
  then show "user_init ok k fd name = Inr (Some u) \<Longrightarrow> user_key u = k mod 256"
    by (auto simp: user_init_def split: if_splits option.splits)
qed

end
