(* ===== verification/Channels.thy ===== *)
theory Channels
  imports Users
begin

text \<open>
  The channels of cpt_app/server/src/channel.c. A channel holds the address of its list of
  users, so that two copies of one channel structure (the global channel and its copy in the
  directory) share their users. The directory is a list of channels in a heap of its own.
\<close>

section \<open>Channels and the directory\<close>

record channel =
  ch_fd :: int
  ch_id :: u16
  ch_users :: "addr option"

type_synonym cheap = "channel lheap"

definition channel_init :: "bool \<Rightarrow> u16 \<Rightarrow> addr option \<Rightarrow> channel option" where
  "channel_init ok cid users =
     (if ok then Some \<lparr>ch_fd = 0, ch_id = cid, ch_users = users\<rparr> else None)"

definition channel_destroy :: "uheap \<Rightarrow> channel option \<Rightarrow> uheap res" where
  "channel_destroy h channel = (case channel of None \<Rightarrow> Inr h
     | Some c \<Rightarrow> if ch_users c \<noteq> None then destroy_list h (ch_users c) else Inr h)"

text \<open>The root user's id, descriptor and name are GC_ROOT_USR_ID, GC_ROOT_USR_FD and
  GC_ROOT_USR_NAME; the two booleans say whether the user and the channel can be allocated.\<close>

definition init_global_channel :: "bool \<Rightarrow> bool \<Rightarrow> uheap \<Rightarrow> (channel option \<times> uheap) res" where
  "init_global_channel uok cok h =
     rbind (user_init uok 0 16383 (Some (str ''ROOT_USER'' @ [0]))) (\<lambda>root_user.
     rbind (create_user_node h root_user) (\<lambda>(user_node, h1).
       if root_user = None then Inr (None, h1)
       else rbind (users_init h1 user_node) (\<lambda>(gc_users, h2).
         Inr (channel_init cok 0 gc_users, h2))))"

definition create_channel_node :: "cheap \<Rightarrow> channel option \<Rightarrow> (addr option \<times> cheap) res" where
  "create_channel_node h channel = create_node h channel"

definition channels_init :: "cheap \<Rightarrow> addr option \<Rightarrow> addr option \<times> cheap" where
  "channels_init h channel_node =
     (if channel_node = None then (None, h) else init_list_node h channel_node)"

definition init_channel_directory :: "cheap \<Rightarrow> channel option \<Rightarrow> (addr option \<times> cheap) res" where
  "init_channel_directory h gc =
     (if gc \<noteq> None then
        rbind (create_channel_node h gc) (\<lambda>(channel_node, h1). Inr (channels_init h1 channel_node))
      else Inr (None, h))"

definition get_head_channel :: "cheap \<Rightarrow> addr option \<Rightarrow> addr option res" where
  "get_head_channel h channels = get_head_node h channels"

definition push_channel :: "cheap \<Rightarrow> addr option \<Rightarrow> channel option \<Rightarrow> (int \<times> cheap) res" where
  "push_channel h channels channel = rbind (push_data h channels channel) (\<lambda>(push_res, h').
     Inr (if push_res \<noteq> 0 then 1 else 0, h'))"

text \<open>The comparator reads an \<open>int\<close> and compares its low sixteen bits.\<close>

definition find_channel_id :: "int \<Rightarrow> channel option \<Rightarrow> bool res" where
  "find_channel_id cid channel = (case channel of None \<Rightarrow> Inl NullDeref
     | Some c \<Rightarrow> Inr (ch_id c = word_of_int cid))"

text \<open>\<open>find_channel\<close> passes the address of its \<open>uint16_t\<close> argument where the comparator reads
  an \<open>int\<close>: the upper half is whatever lies behind it, here \<open>junk\<close>.\<close>

definition find_channel :: "cheap \<Rightarrow> addr option \<Rightarrow> u16 \<Rightarrow> channel option res" where
  "find_channel h dir cid = find_data h dir (find_channel_id (uint cid + 65536 * junk h (brk h)))"

definition channel_delete :: "cheap \<Rightarrow> addr option \<Rightarrow> int \<Rightarrow> (int \<times> cheap) res" where
  "channel_delete h channels cid =
     (if channels \<noteq> None then delete_node h channels (find_channel_id cid) else Inr (-1, h))"

definition push_channel_user :: "uheap \<Rightarrow> channel \<Rightarrow> user option \<Rightarrow> (int \<times> uheap) res" where
  "push_channel_user h channel u = rbind (create_user_node h u) (\<lambda>(user_node, h1).
     push_node h1 (ch_users channel) user_node)"

definition channels_destroy :: "cheap \<Rightarrow> addr option \<Rightarrow> cheap res" where
  "channels_destroy h channels = (if channels = None then Inr h else destroy_list h channels)"

text \<open>\<open>channel_to_string\<close>: a single user is printed on its own; otherwise the lines of all users
  are appended to a buffer of 1024 bytes, whose end is not checked by \<open>strncat\<close>.\<close>

definition append_user :: "user option \<Rightarrow> byte list \<Rightarrow> byte list res" where
  "append_user u buffer = (case u of None \<Rightarrow> Inr buffer
     | Some v \<Rightarrow> rbind (user_to_string v) (\<lambda>user_str.
         rbind (guard_res OutOfBounds (length buffer + length user_str + 1 \<le> LG_BUFF_SIZE))
           (\<lambda>_. Inr (buffer @ user_str))))"

definition channel_to_string :: "uheap \<Rightarrow> channel \<Rightarrow> byte list option res" where
  "channel_to_string h channel =
     rbind (get_head_node h (ch_users channel)) (\<lambda>user_iterator.
     rbind (deref_node h user_iterator) (\<lambda>nd.
       if nxt nd = None then
         (case ndata nd of None \<Rightarrow> Inl NullDeref
          | Some u \<Rightarrow> rbind (user_to_string u) (\<lambda>s. Inr (Some s)))
       else rbind (iter_nodes (fuel h) h user_iterator append_user []) (\<lambda>buffer.
         Inr (if 0 < length buffer then Some buffer else None))))"

definition print_channel :: "uheap \<Rightarrow> channel \<Rightarrow> byte list res" where
  "print_channel h channel =
     for_each h (ch_users channel) print_user
       (str ''CHANNEL ID: '' @ decimal (unat (ch_id channel)) @ [9, 10])"

section \<open>The user list of a CREATE_CHANNEL request\<close>

text \<open>\<open>strtol(s, &end, 10)\<close> on a C string: the value (clamped to \<open>long\<close>) and the number of
  characters consumed, 0 if there is no number.\<close>

definition is_space :: "byte \<Rightarrow> bool" where
  "is_space b \<longleftrightarrow> b = 32 \<or> (9 \<le> b \<and> b \<le> 13)"

definition is_digit :: "byte \<Rightarrow> bool" where
  "is_digit b \<longleftrightarrow> 48 \<le> b \<and> b \<le> 57"

definition digits_value :: "byte list \<Rightarrow> int" where
  "digits_value ds = foldl (\<lambda>v d. 10 * v + (uint d - 48)) 0 ds"

definition strtol :: "byte list \<Rightarrow> int \<times> nat" where
  "strtol s =
     (let ws = takeWhile is_space s;
          s1 = dropWhile is_space s;
          neg = (s1 \<noteq> [] \<and> hd s1 = 45);
          signed = (s1 \<noteq> [] \<and> (hd s1 = 45 \<or> hd s1 = 43));
          s2 = (if signed then tl s1 else s1);
          ds = takeWhile is_digit s2;
          v = (if neg then - digits_value ds else digits_value ds)
      in if ds = [] then (0, 0)
         else (max (- (2 ^ 63)) (min (2 ^ 63 - 1) v),
               length ws + (if signed then 1 else 0) + length ds))"

text \<open>
  \<open>parse_channel_query\<close> on the array \<open>id_list\<close> points into. Pointers into the array are its
  suffixes. The source assigns \<open>id_list = id_str\<close> before it compares the two, so the first
  branch is always taken; both branches are kept.
\<close>

lemma cstring_length: "cstring a = Inr s \<Longrightarrow> length s < length a"
  by (auto simp: cstring_def dest: cstrlen_eq_Inr)

function parse_query_loop :: "byte list \<Rightarrow> u16 list \<Rightarrow> nat \<Rightarrow> (nat \<times> u16 list) res" where
  "parse_query_loop id_list id_buf id_count =
     (case cstring id_list of
        Inl e \<Rightarrow> Inl e
      | Inr s \<Rightarrow>
          if s = [] then Inr (id_count, id_buf)
          else
            let (v, k) = strtol s; chan = (word_of_int v :: u16);
                id_str = drop k id_list; id_list' = id_str in
            if length id_list' = length id_str then
              parse_query_loop (drop 1 id_list') id_buf id_count
            else if chan \<noteq> 0 then
              (case id_buf of [] \<Rightarrow> Inl OutOfBounds
               | b0 # _ \<Rightarrow>
                 if chan \<noteq> b0 then
                   (if id_count < length id_buf
                    then parse_query_loop id_list' (id_buf[id_count := chan]) (Suc id_count)
                    else Inl OutOfBounds)
                 else parse_query_loop id_list' id_buf (Suc id_count))
            else parse_query_loop id_list' id_buf id_count)"
  by pat_completeness auto
termination
  by (relation "measure (\<lambda>(a, b, c). length a)") (auto dest: cstring_length)

declare parse_query_loop.simps [simp del]

definition parse_channel_query :: "byte list option \<Rightarrow> u16 list \<Rightarrow> (u16 \<times> u16 list) res" where
  "parse_channel_query id_list id_buf = (case id_list of None \<Rightarrow> Inl NullDeref
     | Some a \<Rightarrow> rbind (parse_query_loop a id_buf 0) (\<lambda>(n, ids). Inr (of_nat n, ids)))"

definition filter_channel_users ::
  "bool \<Rightarrow> uheap \<Rightarrow> channel option \<Rightarrow> u16 list \<Rightarrow> byte list option \<Rightarrow> (addr option \<times> uheap) res" where
  "filter_channel_users cok h channel id_buf id_list =
     rbind (parse_channel_query id_list id_buf) (\<lambda>(num, id_buf').
     rbind (guard_res NullDeref (cok \<or> num = 0)) (\<lambda>_.
     rbind (guard_res OutOfBounds (unat num \<le> length id_buf')) (\<lambda>_.
       (case channel of None \<Rightarrow> Inr (None, h)
        | Some c \<Rightarrow>
            rbind (filter_list h (ch_users c) filter_user_id
                \<lparr>num_params = unat num, params = take (unat num) id_buf'\<rparr> (unat num))
              (\<lambda>(users, _, h'). Inr (users, h'))))))"

section \<open>The directory as a keyed store\<close>

lemma word_of_int_shift: "(word_of_int (uint k + 65536 * j) :: u16) = k" for k :: u16
proof -
  have "(word_of_int (65536 * j) :: u16) = 0"
    by (simp only: word_of_int_eq_0_iff) simp
  then show ?thesis by simp
qed

interpretation cstore: keyed_store rep find_data push_data delete_node room ch_id
    "\<lambda>k. find_channel_id (uint k)"
  by unfold_locales (simp add: find_channel_id_def)

lemma find_channel_id_u16: "find_channel_id n = find_channel_id (uint (word_of_int n :: u16))"
  by (rule ext) (simp add: find_channel_id_def split: option.splits)

lemma push_channel_push_data [simp]: "push_channel h l c = push_data h l c"
  by (auto simp: push_channel_def push_data_def rbind_def Let_def split: sum.splits option.splits prod.splits)

lemma push_channel_user_push_new: "push_channel_user h c u = push_new h (ch_users c) u"
  by (simp add: push_channel_user_def push_new_def create_user_node_def)

lemma find_channel_store:
  assumes "rep h A" "A l = Some (n, cs)"
  shows "find_channel h (Some l) k = Inr (List.find (\<lambda>c. ch_id c = k) cs)"
  unfolding find_channel_def
  by (subst find_channel_id_u16, unfold word_of_int_shift) (rule cstore.find_key [OF assms])

lemma channel_delete_store:
  assumes "rep h A" "A l = Some (n, cs)" "k \<in> ch_id ` set cs"
  shows "\<exists>h'. channel_delete h (Some l) (uint k) = Inr (1, h') \<and>
    rep h' (A(l \<mapsto> (n - 1, del_first (\<lambda>c. ch_id c = k) cs)))"
  unfolding channel_delete_def using cstore.delete_key [OF assms] by simp

section \<open>The id list is never read\<close>

lemma strtol_consumed: "snd (strtol s) \<le> length s"
proof -
  define s1 where "s1 = dropWhile is_space s"
  have s: "length s = length (takeWhile is_space s) + length s1"
    unfolding s1_def by (metis length_append takeWhile_dropWhile_id)
  have "length (takeWhile is_digit s1) \<le> length s1"
    "length (takeWhile is_digit (tl s1)) \<le> length s1 - 1"
    by (metis length_takeWhile_le length_tl)+
  then show ?thesis
    using s unfolding strtol_def s1_def [symmetric]
    by (cases s1) (auto simp: Let_def)
qed

lemma parse_query_step:
  assumes "cstring a = Inr s"
  shows "parse_query_loop a ids n =
    (if s = [] then Inr (n, ids) else parse_query_loop (drop (Suc (snd (strtol s))) a) ids n)"
  by (subst parse_query_loop.simps) (simp add: assms Let_def split: prod.split)

lemma parse_query_result: "parse_query_loop a ids n = Inr r \<Longrightarrow> r = (n, ids)"
proof (induction a rule: length_induct)
  case (1 a)
  show ?case
  proof (cases "cstring a")
    case (Inl e)
    with "1.prems" show ?thesis by (subst (asm) parse_query_loop.simps) simp
  next
    case (Inr s)
    from cstring_length [OF Inr] have "length (drop (Suc (snd (strtol s))) a) < length a" by simp
    with "1.IH" have "parse_query_loop (drop (Suc (snd (strtol s))) a) ids n = Inr r \<longrightarrow> r = (n, ids)"
      by blast
    with "1.prems" show ?thesis by (simp add: parse_query_step [OF Inr] split: if_splits)
  qed
qed

lemma parse_query_total:
  "0 \<notin> set s \<Longrightarrow> parse_query_loop (s @ 0 # 0 # t) ids n = Inr (n, ids)"
proof (induction s rule: length_induct)
  case (1 s)
  have c: "cstring (s @ 0 # 0 # t) = Inr s" using "1.prems" by simp
  let ?k = "snd (strtol s)"
  show ?case
  proof (cases "s = []")
    case True
    then show ?thesis using c by (simp add: parse_query_step)
  next
    case False
    then have step: "parse_query_loop (s @ 0 # 0 # t) ids n =
        parse_query_loop (drop (Suc ?k) (s @ 0 # 0 # t)) ids n"
      using parse_query_step [OF c] by simp
    show ?thesis
    proof (cases "?k = length s")
      case True
      then have "drop (Suc ?k) (s @ 0 # 0 # t) = 0 # t" by simp
      with step show ?thesis by (simp add: parse_query_step [where s = "[]"] cstring_def)
    next
      case k: False
      with strtol_consumed [of s] have "?k < length s" by simp
      then have "drop (Suc ?k) (s @ 0 # 0 # t) = drop (Suc ?k) s @ 0 # 0 # t" by simp
      moreover have "length (drop (Suc ?k) s) < length s" "0 \<notin> set (drop (Suc ?k) s)"
        using False "1.prems" by (auto dest: in_set_dropD)
      then have "parse_query_loop (drop (Suc ?k) s @ 0 # 0 # t) ids n = Inr (n, ids)"
        using "1.IH" by blast
      ultimately show ?thesis using step by simp
    qed
  qed
qed

text \<open>So no user of the list is ever selected: the filter is asked for no user and returns no
  list.\<close>

lemma filter_none:
  "rep h A \<Longrightarrow> A l = Some (n, us) \<Longrightarrow> filter_list h (Some l) cmp q 0 = Inr (None, q, h)"
  using repN_list list_head unfolding rep_def filter_list_def get_head_node_def by fastforce

lemma filter_channel_users_none:
  assumes "rep h A" "A l = Some (n, us)" "ch_users c = Some l"
    "parse_query_loop a ids 0 = Inr (0, ids)"
  shows "filter_channel_users ok h (Some c) ids (Some a) = Inr (None, h)"
  using assms(3,4)
  by (simp add: filter_channel_users_def parse_channel_query_def filter_none [OF assms(1,2)]
      del: rbind_eq_Inr)

lemma filter_channel_users_reads:
  "filter_channel_users ok h c ids (Some a) = Inr r \<Longrightarrow> parse_query_loop a ids 0 = Inr (0, ids)"
  by (auto simp: filter_channel_users_def parse_channel_query_def dest: parse_query_result)

section \<open>Listing the users of a channel\<close>

definition well_named :: "user \<Rightarrow> bool" where
  "well_named u \<longleftrightarrow> (case uname u of None \<Rightarrow> False
     | Some a \<Rightarrow> (let n = takeWhile (\<lambda>b. b \<noteq> 0) a in a = n @ [0] \<and> length n \<le> MAX_NAME_SIZE))"

definition user_text :: "user \<Rightarrow> byte list" where
  "user_text u = (case uname u of None \<Rightarrow> []
     | Some a \<Rightarrow> user_line (uid u) (takeWhile (\<lambda>b. b \<noteq> 0) a))"

definition users_text :: "user list \<Rightarrow> byte list" where
  "users_text us = concat (map user_text us)"

lemma takeWhile_nonzero: "0 \<notin> set (takeWhile (\<lambda>b. b \<noteq> 0) a)" for a :: "byte list"
  by (auto dest: set_takeWhileD)

lemma takeWhile_cstring: "0 \<notin> set n \<Longrightarrow> takeWhile (\<lambda>b. b \<noteq> 0) (n @ [0]) = n" for n :: "byte list"
  by (induction n) auto

lemma user_init_well_named:
  assumes "user_init ok k fd name = Inr (Some u)"
  shows "well_named u"
proof -
  have "0 \<notin> set DEFAULT_USERNAME" "length DEFAULT_USERNAME \<le> MAX_NAME_SIZE"
    by (simp_all add: DEFAULT_USERNAME_def MAX_NAME_SIZE_def)
  with assms obtain n where "0 \<notin> set n" "length n \<le> MAX_NAME_SIZE" "uname u = Some (n @ [0])"
    using cstring_eq_Inr by (fastforce simp: user_init_def split: if_splits option.splits)
  then show ?thesis by (simp add: well_named_def Let_def takeWhile_cstring)
qed

lemma length_user_line: "length s \<le> 12 \<Longrightarrow> length (user_line i s) \<le> 29"
proof -
  have "unat i < 65536" using unsigned_less [of i] by simp
  then have "unat i < 10 ^ 5" by simp
  then have "length (decimal (unat i)) \<le> 5" by (rule length_decimal_le) simp
  then show "length s \<le> 12 \<Longrightarrow> length (user_line i s) \<le> 29" by (simp add: user_line_def)
qed

lemma user_to_string_named:
  assumes "well_named u"
  shows "user_to_string u = Inr (user_text u)" "length (user_text u) \<le> 29" "user_text u \<noteq> []"
    "0 \<notin> set (user_text u)"
proof -
  from assms obtain n where n: "uname u = Some (n @ [0])" "n = takeWhile (\<lambda>b. b \<noteq> 0) (n @ [0])"
      "length n \<le> 12"
    unfolding well_named_def Let_def MAX_NAME_SIZE_def by (cases "uname u") auto
  then have "0 \<notin> set n" using takeWhile_nonzero [of "n @ [0]"] by simp
  then have c: "cstring (n @ [0]) = Inr n" using cstring_append_zero [of n "[]"] by simp
  have t: "user_text u = user_line (uid u) n" using n(1,2) by (simp add: user_text_def)
  show "length (user_text u) \<le> 29" using t length_user_line [OF n(3)] by simp
  with t show "user_to_string u = Inr (user_text u)"
    using n(1) c by (simp add: user_to_string_def MD_BUFF_SIZE_def)
  show "user_text u \<noteq> []" using t by (simp add: user_line_def)
  show "0 \<notin> set (user_text u)" using t \<open>0 \<notin> set n\<close> by (simp add: user_line_def)
qed

lemma append_users:
  assumes "\<forall>u\<in>set us. well_named u" "length b < LG_BUFF_SIZE"
  shows "fold_res (\<lambda>u. append_user (Some u)) us b =
    (if length (b @ users_text us) < LG_BUFF_SIZE then Inr (b @ users_text us) else Inl OutOfBounds)"
  using assms
proof (induction us arbitrary: b)
  case Nil
  then show ?case by (simp add: users_text_def)
next
  case (Cons u us)
  then have u: "well_named u" by simp
  show ?case
  proof (cases "length (b @ user_text u) < LG_BUFF_SIZE")
    case True
    then have "append_user (Some u) b = Inr (b @ user_text u)"
      by (simp add: append_user_def user_to_string_named [OF u])
    with Cons.IH [of "b @ user_text u"] Cons.prems True show ?thesis by (simp add: users_text_def)
  next
    case False
    then have "append_user (Some u) b = Inl OutOfBounds"
      by (simp add: append_user_def user_to_string_named [OF u] rbind_eq_Inl)
    with False show ?thesis by (simp add: users_text_def)
  qed
qed

lemma channel_to_string_text:
  assumes R: "rep h A" and l: "A l = Some (n, us)" "ch_users c = Some l"
    and us: "us \<noteq> []" "\<forall>u\<in>set us. well_named u"
  shows "channel_to_string h c =
    (if length (users_text us) < LG_BUFF_SIZE then Inr (Some (users_text us)) else Inl OutOfBounds)"
proof -
  from R obtain N where N: "repN h N A" by (auto simp: rep_def)
  from list_head [OF repN_list [OF N l(1)]] obtain L where
    L: "lists h l = Some L" "seg (nodes h) (ll_head L) (N l) None" "map snd (N l) = us" by auto
  from L(3) us(1) obtain a u ns where ns: "N l = (a, u) # ns" "us = u # map snd ns"
    by (cases "N l") auto
  with L(2) obtain r where r: "ll_head L = Some a" "nodes h a = Some \<lparr>ndata = Some u, nxt = r\<rparr>"
    "seg (nodes h) r ns None" by auto
  have u: "well_named u" using us(2) ns(2) by simp
  have iter: "iter_nodes (fuel h) h (Some a) append_user [] = fold_res (\<lambda>u. append_user (Some u)) us []"
    using iter_list_store [OF R l(1), of append_user "[]"] L(1) r(1)
    by (simp add: iter_list_def get_head_node_def)
  have ne: "users_text us \<noteq> []" using ns(2) user_to_string_named(3) [OF u] by (simp add: users_text_def)
  show ?thesis
  proof (cases r)
    case None
    with r(3) have "ns = []" by simp
    with ns None user_to_string_named(1,2) [OF u] L(1) l(2) r show ?thesis
      by (simp add: channel_to_string_def get_head_node_def users_text_def LG_BUFF_SIZE_def)
  next
    case (Some b)
    with L(1) l(2) r iter append_users [OF us(2), of "[]"] ne show ?thesis
      by (auto simp: channel_to_string_def get_head_node_def LG_BUFF_SIZE_def rbind_eq_Inl)
  qed
qed

end
