(* ===== verification/Net.thy ===== *)
theory Net
  imports Packet
begin

text \<open>
  The socket layer: networking/tcp and networking/udp. The operating system is a script of
  answers, one for each system call: its return value, the \<open>errno\<close> it leaves and the bytes it
  delivers. Every call is logged with its return value. A program that asks for more answers than
  the script has is waiting: \<open>Blocked\<close>. A statement for all scripts is therefore a statement
  about every behaviour of the environment.
\<close>

section \<open>System calls\<close>

datatype syscall =
    SGetaddrinfo bool "byte list option" "byte list option"  \<comment> \<open>stream?, host, port\<close>
  | SFreeaddrinfo
  | SSocket
  | SSetsockopt int int
  | SIoctl int
  | SBind int
  | SListen int nat
  | SAccept int
  | SConnect int
  | SSend int "byte list"
  | SRecv int nat
  | SPoll nat
  | SClose int
  | SRead int nat
  | SSendto int "byte list"
  | SGetpeername int
  | SFtok "byte list" | SShmget int | SShmat int | SShmdt | SShmrm int
  | SFork | SKill int int | SWait
  | SPopen "byte list" "byte list" | SFopen "byte list" "byte list"
  | SFread int nat | SFwrite int "byte list" | SWrite int "byte list" | SFclose int | SPclose int

record sysret =
  sret :: int
  serr :: int
  sbytes :: "byte list"

record os =
  script :: "sysret list"
  calls :: "(syscall \<times> int) list"

definition sys :: "syscall \<Rightarrow> os \<Rightarrow> (sysret \<times> os) res" where
  "sys c w = (case script w of [] \<Rightarrow> Inl Blocked
     | r # rs \<Rightarrow> Inr (r, w\<lparr>script := rs, calls := calls w @ [(c, sret r)]\<rparr>))"

text \<open>An answer with a result and the bytes that were received.\<close>

definition answer :: "int \<Rightarrow> byte list \<Rightarrow> sysret" where
  "answer r bs = \<lparr>sret = r, serr = 0, sbytes = bs\<rparr>"

lemma answer_fields [simp]: "sret (answer r bs) = r" "sbytes (answer r bs) = bs" "serr (answer r bs) = 0"
  by (simp_all add: answer_def)

text \<open>\<open>close\<close> and \<open>freeaddrinfo\<close>: their results are not looked at.\<close>

definition log_call :: "syscall \<Rightarrow> os \<Rightarrow> os" where
  "log_call c w = w\<lparr>calls := calls w @ [(c, 0)]\<rparr>"

lemma sys_length: "sys c w = Inr (r, w') \<Longrightarrow> length (script w') < length (script w)"
  by (auto simp: sys_def split: list.splits)

text \<open>The bytes that reached the peer of a descriptor: of each \<open>send\<close>, as many as it
  reports.\<close>

definition delivered :: "int \<Rightarrow> (syscall \<times> int) list \<Rightarrow> byte list" where
  "delivered fd log = concat (map (\<lambda>(c, r). case c of
     SSend fd' d \<Rightarrow> if fd' = fd then take (nat r) d else [] | _ \<Rightarrow> []) log)"

lemma delivered_append [simp]: "delivered fd (a @ b) = delivered fd a @ delivered fd b"
  by (simp add: delivered_def)

lemma delivered_Nil [simp]: "delivered fd [] = []"
  by (simp add: delivered_def)

lemma delivered_Cons [simp]:
  "delivered fd ((c, r) # log) = (case c of
     SSend fd' d \<Rightarrow> if fd' = fd then take (nat r) d else [] | _ \<Rightarrow> []) @ delivered fd log"
  by (simp add: delivered_def)

section \<open>Addresses\<close>

text \<open>The result pointer of \<open>getaddrinfo\<close> is a local variable without an initial value. Its
  failures are checked with \<open>== -1\<close> (or \<open>< 0\<close>), although the errors of \<open>getaddrinfo\<close> are any
  non-zero numbers: after another error the caller gets the uninitialised pointer.\<close>

datatype addrinfo = AddrNull | AddrOk | AddrWild

definition addr_result :: "(int \<Rightarrow> bool) \<Rightarrow> int \<Rightarrow> addrinfo" where
  "addr_result failed r = (if failed r then AddrNull else if r = 0 then AddrOk else AddrWild)"

definition deref_addr :: "addrinfo \<Rightarrow> unit res" where
  "deref_addr a = (case a of AddrNull \<Rightarrow> Inl NullDeref | AddrOk \<Rightarrow> Inr () | AddrWild \<Rightarrow> Inl Uninit)"

definition PORT_8080 :: "byte list" where "PORT_8080 = str ''8080''"
definition PORT_8888 :: "byte list" where "PORT_8888 = str ''8888''"
definition IP_LOCAL_LB :: "byte list" where "IP_LOCAL_LB = str ''127.0.0.1''"

definition or_default :: "byte list option \<Rightarrow> byte list \<Rightarrow> byte list option" where
  "or_default p d = Some (case p of None \<Rightarrow> d | Some s \<Rightarrow> s)"

definition tcp_server_addr ::
  "byte list option \<Rightarrow> byte list option \<Rightarrow> os \<Rightarrow> (addrinfo \<times> os) res" where
  "tcp_server_addr ip port w =
     rbind (sys (SGetaddrinfo True ip (or_default port PORT_8080)) w) (\<lambda>(r, w').
       Inr (addr_result (\<lambda>x. x = -1) (sret r), w'))"

definition tcp_client_addr ::
  "byte list option \<Rightarrow> byte list option \<Rightarrow> os \<Rightarrow> (addrinfo \<times> os) res" where
  "tcp_client_addr host port w =
     rbind (sys (SGetaddrinfo True host (or_default port PORT_8888)) w) (\<lambda>(r, w').
       Inr (addr_result (\<lambda>x. x < 0) (sret r), w'))"

definition udp_server_addr ::
  "byte list option \<Rightarrow> byte list option \<Rightarrow> os \<Rightarrow> (addrinfo \<times> os) res" where
  "udp_server_addr ip port w =
     rbind (sys (SGetaddrinfo False ip port) w) (\<lambda>(r, w').
       Inr (addr_result (\<lambda>x. x = -1) (sret r), w'))"

definition udp_client_addr ::
  "byte list option \<Rightarrow> byte list option \<Rightarrow> os \<Rightarrow> (addrinfo \<times> os) res" where
  "udp_client_addr host port w =
     rbind (sys (SGetaddrinfo False host port) w) (\<lambda>(r, w').
       Inr (addr_result (\<lambda>x. x < 0) (sret r), w'))"

section \<open>Sockets\<close>

definition SO_REUSEADDR :: int where "SO_REUSEADDR = 2"
definition SYS_CALL_FAIL :: int where "SYS_CALL_FAIL = -1"
definition LISTEN_BACKLOG_32 :: nat where "LISTEN_BACKLOG_32 = 32"

definition new_socket :: "addrinfo \<Rightarrow> os \<Rightarrow> (int \<times> os) res" where
  "new_socket serv_info w = rbind (deref_addr serv_info) (\<lambda>_.
     rbind (sys SSocket w) (\<lambda>(r, w'). Inr (if sret r < 0 then -1 else sret r, w')))"

definition tcp_listen_socket :: "addrinfo \<Rightarrow> os \<Rightarrow> (int \<times> os) res" where
  "tcp_listen_socket serv_info w = new_socket serv_info w"

definition tcp_client_socket :: "addrinfo \<Rightarrow> os \<Rightarrow> (int \<times> os) res" where
  "tcp_client_socket serv_info w = new_socket serv_info w"

definition sock_opt :: "int \<Rightarrow> int \<Rightarrow> os \<Rightarrow> (int \<times> os) res" where
  "sock_opt sock_fd opt w = rbind (sys (SSetsockopt sock_fd opt) w) (\<lambda>(r, w'). Inr (sret r, w'))"

definition tcp_server_sock_opt :: "int \<Rightarrow> int \<Rightarrow> os \<Rightarrow> (int \<times> os) res" where
  "tcp_server_sock_opt sock_fd opt w = sock_opt sock_fd opt w"

definition tcp_client_sock_opt :: "int \<Rightarrow> int \<Rightarrow> os \<Rightarrow> (int \<times> os) res" where
  "tcp_client_sock_opt sock_fd opt w = sock_opt sock_fd opt w"

definition udp_server_sock_opt :: "int \<Rightarrow> int \<Rightarrow> os \<Rightarrow> (int \<times> os) res" where
  "udp_server_sock_opt sock_fd opt w = sock_opt sock_fd opt w"

definition udp_client_sock_opt :: "int \<Rightarrow> int \<Rightarrow> os \<Rightarrow> (int \<times> os) res" where
  "udp_client_sock_opt sock_fd opt w = sock_opt sock_fd opt w"

definition udp_server_socket :: "addrinfo \<Rightarrow> os \<Rightarrow> (int \<times> os) res" where
  "udp_server_socket serv_addr w = rbind (new_socket serv_addr w) (\<lambda>(fd, w1).
     if fd < 0 then Inr (-1, w1)
     else rbind (udp_server_sock_opt fd SO_REUSEADDR w1) (\<lambda>(r, w2).
       Inr (if r = -1 then -1 else fd, w2)))"

definition udp_client_socket :: "addrinfo \<Rightarrow> os \<Rightarrow> (int \<times> os) res" where
  "udp_client_socket client_addr w = rbind (new_socket client_addr w) (\<lambda>(fd, w1).
     if fd < 0 then Inr (-1, w1)
     else rbind (udp_client_sock_opt fd SO_REUSEADDR w1) (\<lambda>(r, w2).
       Inr (if r = -1 then -1 else fd, w2)))"

definition tcp_server_bind :: "addrinfo \<Rightarrow> int \<Rightarrow> os \<Rightarrow> (int \<times> os) res" where
  "tcp_server_bind serv_info listen_fd w = rbind (deref_addr serv_info) (\<lambda>_.
     rbind (sys (SBind listen_fd) w) (\<lambda>(r, w'). Inr (sret r, log_call SFreeaddrinfo w')))"

definition udp_server_bind :: "int \<Rightarrow> addrinfo \<Rightarrow> os \<Rightarrow> (int \<times> os) res" where
  "udp_server_bind sock serv_addr w = rbind (deref_addr serv_addr) (\<lambda>_.
     rbind (sys (SBind sock) w) (\<lambda>(r, w').
       if sret r < 0 then Inr (-1, w') else Inr (sret r, log_call SFreeaddrinfo w')))"

definition tcp_server_listen :: "int \<Rightarrow> os \<Rightarrow> (int \<times> os) res" where
  "tcp_server_listen listen_fd w =
     rbind (sys (SListen listen_fd LISTEN_BACKLOG_32) w) (\<lambda>(r, w'). Inr (sret r, w'))"

definition tcp_server_accept :: "int \<Rightarrow> os \<Rightarrow> (int \<times> os) res" where
  "tcp_server_accept listen_fd w = rbind (sys (SAccept listen_fd) w) (\<lambda>(r, w').
     Inr (if sret r < 0 then -1 else sret r, w'))"

definition tcp_client_connect :: "int \<Rightarrow> addrinfo \<Rightarrow> os \<Rightarrow> (int \<times> os) res" where
  "tcp_client_connect sock_fd serv_info w = rbind (deref_addr serv_info) (\<lambda>_.
     rbind (sys (SConnect sock_fd) w) (\<lambda>(r, w').
       if sret r < 0 then Inr (-1, w') else Inr (sret r, log_call SFreeaddrinfo w')))"

definition EWOULDBLOCK :: int where "EWOULDBLOCK = 11"

definition udp_connect :: "int \<Rightarrow> addrinfo \<Rightarrow> os \<Rightarrow> (int \<times> os) res" where
  "udp_connect udp_fd client_addr w = rbind (deref_addr client_addr) (\<lambda>_.
     rbind (sys (SConnect udp_fd) w) (\<lambda>(r, w').
       if sret r < 0 \<and> serr r \<noteq> EWOULDBLOCK then Inr (-1, w')
       else Inr (sret r, log_call SFreeaddrinfo w')))"

definition udp_server_connect :: "int \<Rightarrow> addrinfo \<Rightarrow> os \<Rightarrow> (int \<times> os) res" where
  "udp_server_connect udp_fd client_addr w = udp_connect udp_fd client_addr w"

definition udp_client_connect :: "int \<Rightarrow> addrinfo \<Rightarrow> os \<Rightarrow> (int \<times> os) res" where
  "udp_client_connect udp_fd client_addr w = udp_connect udp_fd client_addr w"

section \<open>Opening connections\<close>

definition check_fd_err :: "int \<Rightarrow> int \<Rightarrow> os \<Rightarrow> os res" where
  "check_fd_err fd r w = (if r < 0 then Inl (ExitProcess 1) else Inr w)"

definition tcp_server_init ::
  "byte list option \<Rightarrow> byte list option \<Rightarrow> os \<Rightarrow> (int \<times> os) res" where
  "tcp_server_init host port w =
     rbind (tcp_server_addr (or_default host IP_LOCAL_LB) (or_default port PORT_8080) w)
       (\<lambda>(addr, w1).
     rbind (tcp_listen_socket addr w1) (\<lambda>(fd, w2).
       if fd \<ge> 0 then
         rbind (tcp_server_sock_opt fd SO_REUSEADDR w2) (\<lambda>(r, w3).
         rbind (check_fd_err fd r w3) (\<lambda>w4.
         rbind (sys (SIoctl fd) w4) (\<lambda>(r, w5).
         rbind (check_fd_err fd (sret r) w5) (\<lambda>w6.
         rbind (tcp_server_bind addr fd w6) (\<lambda>(r, w7).
         rbind (check_fd_err fd r w7) (\<lambda>w8.
         rbind (tcp_server_listen fd w8) (\<lambda>(r, w9).
         rbind (check_fd_err fd r w9) (\<lambda>w10. Inr (fd, w10)))))))))
       else Inr (fd, w2)))"

definition tcp_init_client ::
  "byte list option \<Rightarrow> byte list option \<Rightarrow> os \<Rightarrow> (int \<times> os) res" where
  "tcp_init_client host port w =
     rbind (tcp_client_addr host port w) (\<lambda>(addr, w1).
     rbind (tcp_client_socket addr w1) (\<lambda>(fd, w2).
     rbind (tcp_client_sock_opt fd SO_REUSEADDR w2) (\<lambda>(r, w3).
     let sock_fd = (if r = -1 then -1 else fd) in
     rbind (tcp_client_connect sock_fd addr w3) (\<lambda>(_, w4). Inr (sock_fd, w4)))))"

definition udp_client_init ::
  "byte list option \<Rightarrow> byte list option \<Rightarrow> os \<Rightarrow> (int \<times> os) res" where
  "udp_client_init host port w =
     rbind (udp_client_addr host port w) (\<lambda>(addr, w1).
       if addr \<noteq> AddrNull then
         rbind (udp_client_socket addr w1) (\<lambda>(udp_fd, w2).
           if udp_fd \<noteq> SYS_CALL_FAIL then
             rbind (udp_client_connect udp_fd addr w2) (\<lambda>(conn_res, w3).
               Inr (if conn_res = SYS_CALL_FAIL then conn_res else udp_fd, w3))
           else Inr (-1, w2))
       else Inr (-1, w1))"

definition udp_server_sock_init ::
  "byte list option \<Rightarrow> byte list option \<Rightarrow> os \<Rightarrow> (int \<times> os) res" where
  "udp_server_sock_init host port w =
     (if host = None \<or> port = None then Inl NullDeref
      else rbind (udp_server_addr host port w) (\<lambda>(addr, w1).
        if addr \<noteq> AddrNull then udp_server_socket addr w1 else Inr (SYS_CALL_FAIL, w1)))"

definition udp_server_sock_s ::
  "byte list option \<Rightarrow> byte list option \<Rightarrow> os \<Rightarrow> (int \<times> os) res" where
  "udp_server_sock_s host port w =
     (if host = None \<or> port = None then Inl NullDeref
      else rbind (udp_server_addr host port w) (\<lambda>(addr, w1).
        if addr \<noteq> AddrNull then
          rbind (udp_server_socket addr w1) (\<lambda>(udp_fd, w2).
            if udp_fd \<noteq> SYS_CALL_FAIL then
              rbind (udp_server_connect udp_fd addr w2) (\<lambda>(conn_res, w3).
                Inr (if conn_res = SYS_CALL_FAIL then conn_res else udp_fd, w3))
            else Inr (-1, w2))
        else Inr (-1, w1)))"

definition udp_server_sock_r ::
  "byte list option \<Rightarrow> byte list option \<Rightarrow> os \<Rightarrow> (int \<times> os) res" where
  "udp_server_sock_r host port w =
     (if host = None \<or> port = None then Inl NullDeref
      else rbind (udp_server_addr host port w) (\<lambda>(addr, w1).
        if addr \<noteq> AddrNull then
          rbind (udp_server_socket addr w1) (\<lambda>(udp_fd, w2).
            if udp_fd \<noteq> SYS_CALL_FAIL then
              rbind (udp_server_bind udp_fd addr w2) (\<lambda>(bind_res, w3).
                Inr (if bind_res = SYS_CALL_FAIL then bind_res else udp_fd, w3))
            else Inr (-1, w2))
        else Inr (-1, w1)))"

section \<open>Sending\<close>

text \<open>
  The loop of the four send functions. Each round offers the whole buffer again. The local variable
  \<open>bytes_sent\<close> is \<open>None\<close> before its first assignment.
\<close>

function send_loop ::
  "int \<Rightarrow> byte list \<Rightarrow> int \<Rightarrow> int \<Rightarrow> sysret option \<Rightarrow> os \<Rightarrow> (sysret option \<times> os) res" where
  "send_loop fd buf buf_size bytes_left bytes_sent w =
     (if bytes_left > 0 then
        rbind (guard_res OutOfBounds (nat buf_size \<le> length buf)) (\<lambda>_.
        rbind (sys (SSend fd (take (nat buf_size) buf)) w) (\<lambda>(r, w').
          if sret r < 0 then Inr (Some r, w')
          else send_loop fd buf buf_size (bytes_left - sret r) (Some r) w'))
      else Inr (bytes_sent, w))"
  by pat_completeness auto
termination
  by (relation "measure (\<lambda>(fd, d, n, l, r, w). length (script w))") (auto dest: sys_length)

declare send_loop.simps [simp del]

lemma send_loop_left: "send_loop fd buf n l r w = Inr (x, w') \<Longrightarrow> length (script w') \<le> length (script w)"
proof (induction fd buf n l r w rule: send_loop.induct)
  case (1 fd buf n l r w)
  show ?case
  proof (cases "l > 0")
    case True
    with "1.prems" obtain y w1 where y: "nat n \<le> length buf"
      "sys (SSend fd (take (nat n) buf)) w = Inr (y, w1)"
      "(if sret y < 0 then Inr (Some y, w1) else send_loop fd buf n (l - sret y) (Some y) w1) = Inr (x, w')"
      by (subst (asm) send_loop.simps) auto
    from sys_length [OF y(2)] "1.IH" [of "()" "(y, w1)" y w1] True y show ?thesis
      by (auto split: if_splits)
  next
    case False
    with "1.prems" show ?thesis by (subst (asm) send_loop.simps) simp
  qed
qed

definition tcp_server_send :: "int \<Rightarrow> byte list \<Rightarrow> int \<Rightarrow> os \<Rightarrow> (int \<times> os) res" where
  "tcp_server_send sock_fd buf buf_size w =
     rbind (send_loop sock_fd buf buf_size buf_size None w) (\<lambda>(bytes_sent, w').
       (case bytes_sent of
          None \<Rightarrow> Inl Uninit
        | Some r \<Rightarrow> if sret r < 0 \<and> serr r \<noteq> 0 then Inl (ExitProcess 1)
                    else Inr (if sret r \<noteq> 0 then 0 else -1, w')))"

definition client_send :: "int \<Rightarrow> byte list \<Rightarrow> int \<Rightarrow> os \<Rightarrow> (int \<times> os) res" where
  "client_send sock_fd buf buf_size w =
     rbind (send_loop sock_fd buf buf_size buf_size None w) (\<lambda>(bytes_sent, w').
       (case bytes_sent of None \<Rightarrow> Inl Uninit | Some r \<Rightarrow> Inr (sret r, w')))"

definition tcp_client_send :: "int \<Rightarrow> byte list \<Rightarrow> int \<Rightarrow> os \<Rightarrow> (int \<times> os) res" where
  "tcp_client_send sock_fd buf buf_size w = client_send sock_fd buf buf_size w"

definition udp_client_send :: "int \<Rightarrow> byte list \<Rightarrow> int \<Rightarrow> os \<Rightarrow> (int \<times> os) res" where
  "udp_client_send sock_fd buf buf_size w = client_send sock_fd buf buf_size w"

definition udp_server_send :: "int \<Rightarrow> byte list \<Rightarrow> int \<Rightarrow> os \<Rightarrow> (int \<times> os) res" where
  "udp_server_send sock_fd buf buf_size w = client_send sock_fd buf buf_size w"

section \<open>Receiving\<close>

text \<open>\<open>recv\<close> into a buffer: at most \<open>cap\<close> bytes are stored, and storing more than the buffer
  holds is an overflow.\<close>

definition recv_into :: "int \<Rightarrow> nat \<Rightarrow> byte list \<Rightarrow> os \<Rightarrow> (int \<times> byte list \<times> os) res" where
  "recv_into fd cap buf w = rbind (sys (SRecv fd cap) w) (\<lambda>(r, w').
     let got = take (min cap (nat (sret r))) (sbytes r) in
     rbind (guard_res OutOfBounds (length got \<le> length buf)) (\<lambda>_.
       Inr (sret r, got @ drop (length got) buf, w')))"

definition tcp_server_recv :: "int \<Rightarrow> byte list \<Rightarrow> os \<Rightarrow> (int \<times> byte list \<times> os) res" where
  "tcp_server_recv sock_fd req_buf w = recv_into sock_fd LG_BUFF_SIZE req_buf w"

definition tcp_client_recv :: "int \<Rightarrow> byte list \<Rightarrow> os \<Rightarrow> (int \<times> byte list \<times> os) res" where
  "tcp_client_recv sock_fd buff w = recv_into sock_fd MD_BUFF_SIZE buff w"

definition udp_client_recv :: "int \<Rightarrow> byte list \<Rightarrow> os \<Rightarrow> (int \<times> byte list \<times> os) res" where
  "udp_client_recv sock_fd buf w = recv_into sock_fd MD_BUFF_SIZE buf w"

definition udp_server_recv :: "int \<Rightarrow> byte list \<Rightarrow> os \<Rightarrow> (int \<times> byte list \<times> os) res" where
  "udp_server_recv sock_fd buf w = recv_into sock_fd MD_BUFF_SIZE buf w"

text \<open>\<open>udp_server_recvfrom\<close> asks for one byte more than its own buffer has.\<close>

definition udp_server_recvfrom :: "int \<Rightarrow> os \<Rightarrow> (int \<times> byte list \<times> os) res" where
  "udp_server_recvfrom sock w =
     recv_into sock (SM_BUFF_SIZE + 1) (replicate SM_BUFF_SIZE 0) w"

text \<open>A datagram to an address; its failure is reported on the terminal only.\<close>

definition udp_client_sendto :: "addrinfo \<Rightarrow> int \<Rightarrow> byte list \<Rightarrow> os \<Rightarrow> os res" where
  "udp_client_sendto client_addr sock m w =
     rbind (cstring m) (\<lambda>t. rbind (deref_addr client_addr) (\<lambda>_.
     rbind (sys (SSendto sock t) w) (\<lambda>(_, w'). Inr w')))"

text \<open>The peer of a descriptor: the six bytes delivered are its port, high byte first, and its IPv4
  address. The result of \<open>getpeername\<close> is not checked, so that after a failure an uninitialised
  address is printed. The two buffers have \<open>port_cap\<close> and \<open>ip_cap\<close> bytes.\<close>

definition udp_get_remote_info :: "int \<Rightarrow> nat \<Rightarrow> nat \<Rightarrow> os \<Rightarrow> (byte list \<times> byte list \<times> os) res" where
  "udp_get_remote_info fd port_cap ip_cap w =
     rbind (sys (SGetpeername fd) w) (\<lambda>(r, w').
     (case sbytes r of
        [p1, p0, a, b, c, d] \<Rightarrow>
          if sret r < 0 then Inl Uninit
          else
            let port = decimal (256 * unat p1 + unat p0);
                ip = decimal (unat a) @ str ''.'' @ decimal (unat b) @ str ''.'' @
                     decimal (unat c) @ str ''.'' @ decimal (unat d) in
            rbind (guard_res OutOfBounds (length port + 1 \<le> port_cap)) (\<lambda>_.
            rbind (guard_res OutOfBounds (length ip + 1 \<le> ip_cap)) (\<lambda>_.
              Inr (port @ [0], ip @ [0], w')))
      | _ \<Rightarrow> Inl Uninit))"

text \<open>\<open>build_msg\<close>: the id, a dash and a filler up to \<open>size\<close> bytes.\<close>

definition build_msg :: "bool \<Rightarrow> nat \<Rightarrow> nat \<Rightarrow> byte list option res" where
  "build_msg ok msg_id msg_size =
     (let id_buff = decimal msg_id @ str ''-'' in
      rbind (guard_res OutOfBounds (length id_buff + 1 \<le> 10)) (\<lambda>_.
        if \<not> ok then Inr None
        else rbind (guard_res OutOfBounds (length id_buff \<le> msg_size)) (\<lambda>_.
          Inr (Some (id_buff @ replicate (msg_size - length id_buff) 97 @ [0])))))"

section \<open>What the peer receives\<close>

lemma sys_Cons [simp]:
  "sys c \<lparr>script = r # rs, calls = cs\<rparr> = Inr (r, \<lparr>script = rs, calls = cs @ [(c, sret r)]\<rparr>)"
  by (simp add: sys_def)

text \<open>The answers \<open>ns\<close> of \<open>send\<close>, each a number of bytes, of which only the last one completes
  the count.\<close>

fun partial_sends :: "int \<Rightarrow> nat list \<Rightarrow> bool" where
  "partial_sends left [] \<longleftrightarrow> False"
| "partial_sends left (n # ns) \<longleftrightarrow> 0 < n \<and>
     (if int n < left then partial_sends (left - int n) ns else ns = [])"

definition answers :: "nat list \<Rightarrow> sysret list" where
  "answers ns = map (\<lambda>n. \<lparr>sret = int n, serr = 0, sbytes = []\<rparr>) ns"

lemma answers_simps [simp]:
  "answers [] = []"
  "answers (n # ns) = \<lparr>sret = int n, serr = 0, sbytes = []\<rparr> # answers ns"
  by (simp_all add: answers_def)

lemma send_loop_partial:
  assumes "partial_sends left ns" "0 < left" "0 \<le> sz" "nat sz \<le> length buf"
  shows "send_loop fd buf sz left l \<lparr>script = answers ns @ rest, calls = cs\<rparr> =
    Inr (Some \<lparr>sret = int (last ns), serr = 0, sbytes = []\<rparr>,
      \<lparr>script = rest, calls = cs @ map (\<lambda>n. (SSend fd (take (nat sz) buf), int n)) ns\<rparr>)"
  using assms
proof (induction ns arbitrary: left l cs)
  case Nil
  then show ?case by simp
next
  case (Cons n ns)
  show ?case
  proof (cases "int n < left")
    case True
    with Cons.prems have "partial_sends (left - int n) ns" by simp
    then have ne: "ns \<noteq> []" by auto
    show ?thesis
      by (subst send_loop.simps) (use Cons True ne in simp)
  next
    case False
    with Cons.prems show ?thesis
      by (subst send_loop.simps, simp) (subst send_loop.simps, simp)
  qed
qed

lemma delivered_sends:
  "delivered fd (map (\<lambda>n. (SSend fd d, int n)) ns) = concat (map (\<lambda>n. take n d) ns)"
  by (induction ns) auto

lemma sum_list_partial: "partial_sends left ns \<Longrightarrow> left \<le> int (sum_list ns)"
proof (induction ns arbitrary: left)
  case Nil
  then show ?case by simp
next
  case (Cons n ns)
  then show ?case by (fastforce split: if_splits)
qed

lemma partial_last: "partial_sends left ns \<Longrightarrow> 0 < last ns"
proof (induction ns arbitrary: left)
  case Nil
  then show ?case by simp
next
  case (Cons n ns)
  then show ?case by (cases "ns = []") (auto split: if_splits)
qed



text \<open>A call that takes everything at once, the form in which the handlers use the function.\<close>

lemma tcp_server_send_full:
  assumes "script w = r # rs" "sret r = int (length d)" "d \<noteq> []"
  shows "tcp_server_send fd d (int (length d)) w =
    Inr (0, w\<lparr>script := rs, calls := calls w @ [(SSend fd d, sret r)]\<rparr>)"
  using assms
  by (simp add: tcp_server_send_def send_loop.simps [of fd d "int (length d)"] sys_def)

lemma tcp_server_send_fail:
  assumes "script w = r # rs" "sret r < 0" "serr r \<noteq> 0" "d \<noteq> []"
  shows "tcp_server_send fd d (int (length d)) w = Inl (ExitProcess 1)"
  using assms
  by (simp add: tcp_server_send_def send_loop.simps [of fd d "int (length d)"] sys_def)

lemma client_send_full:
  assumes "script w = a # rest" "sret a = n" "0 < n" "nat n \<le> length buf"
  shows "client_send fd buf n w = Inr (n, \<lparr>script = rest, calls = calls w @ [(SSend fd (take (nat n) buf), n)]\<rparr>)"
proof -
  have "send_loop fd buf n n None w = Inr (Some a, \<lparr>script = rest, calls = calls w @ [(SSend fd (take (nat n) buf), n)]\<rparr>)"
    using assms by (subst send_loop.simps, cases w, simp) (subst send_loop.simps, simp)
  with assms(2) show ?thesis by (simp add: client_send_def)
qed

lemma client_send_empty: "n \<le> 0 \<Longrightarrow> client_send fd d n w = Inl Uninit"
  by (simp add: client_send_def send_loop.simps)

section \<open>A server socket that listens, or no server\<close>

lemma sys_eq_Inr: "sys c w = Inr (r, w') \<longleftrightarrow>
    (\<exists>rs. script w = r # rs \<and> w' = w\<lparr>script := rs, calls := calls w @ [(c, sret r)]\<rparr>)"
  by (auto simp: sys_def split: list.splits)

lemmas socket_defs = tcp_server_addr_def tcp_listen_socket_def new_socket_def tcp_server_sock_opt_def
  sock_opt_def check_fd_err_def tcp_server_bind_def tcp_server_listen_def or_default_def

lemma tcp_server_init_fd: "tcp_server_init host port w = Inr (fd, w') \<Longrightarrow> fd = -1 \<or> 0 \<le> fd"
  by (auto simp: tcp_server_init_def tcp_listen_socket_def new_socket_def split: if_splits)

text \<open>If the server's initialisation returns, either the socket could not be created and it
  returns -1, or it returns the descriptor of a socket that was made reusable and non-blocking,
  bound and set to listen, each of the four calls having succeeded, in this order; every other
  failure has ended the process.\<close>

lemma tcp_server_init_listens:
  assumes "tcp_server_init host port w = Inr (fd, w')"
  shows "fd = -1 \<or> (fd \<ge> 0 \<and> (\<exists>b c d e. calls w' = calls w @
     [(SGetaddrinfo True (or_default host IP_LOCAL_LB) (or_default port PORT_8080), 0), (SSocket, fd),
      (SSetsockopt fd SO_REUSEADDR, b), (SIoctl fd, c), (SBind fd, d), (SFreeaddrinfo, 0),
      (SListen fd LISTEN_BACKLOG_32, e)] \<and> b \<ge> 0 \<and> c \<ge> 0 \<and> d \<ge> 0 \<and> e \<ge> 0))"
  using assms
  by (auto simp: tcp_server_init_def socket_defs sys_eq_Inr addr_result_def deref_addr_def log_call_def
      split: if_splits addrinfo.splits)

lemma tcp_server_init_listens_example:
  "\<exists>w'. tcp_server_init None None \<lparr>script = map (\<lambda>r. \<lparr>sret = r, serr = 0, sbytes = []\<rparr>) [0, 3, 0, 0, 0, 0], calls = []\<rparr> = Inr (3, w') \<and>
    ((3::int) = -1 \<or> ((3::int) \<ge> 0 \<and> (\<exists>b c d e. calls w' = [] @
     [(SGetaddrinfo True (or_default None IP_LOCAL_LB) (or_default None PORT_8080), 0), (SSocket, 3),
      (SSetsockopt 3 SO_REUSEADDR, b), (SIoctl 3, c), (SBind 3, d), (SFreeaddrinfo, 0),
      (SListen 3 LISTEN_BACKLOG_32, e)] \<and> b \<ge> 0 \<and> c \<ge> 0 \<and> d \<ge> 0 \<and> e \<ge> 0)))"
proof -
  let ?w = "\<lparr>script = map (\<lambda>r. \<lparr>sret = r, serr = 0, sbytes = []\<rparr>) [0, 3, 0, 0, 0, 0], calls = []\<rparr>"
  have "\<exists>w'. tcp_server_init None None ?w = Inr (3, w')"
    by (simp add: tcp_server_init_def socket_defs sys_eq_Inr addr_result_def deref_addr_def log_call_def)
  then obtain w' where w': "tcp_server_init None None ?w = Inr (3, w')" by auto
  from tcp_server_init_listens [OF w'] w' show ?thesis by simp
qed

end
