(* ===== verification/Server.thy ===== *)
theory Server
  imports Channels Net
begin

text \<open>
  The state of the chat server and the operations that change it: server_info.c, the request
  handlers of cpt_api/src/cpt_server.c and the voice channel handler of
  cpt_api/cpt_voice/cpt_voice_server.c.

  One record holds the \<open>ServerInfo\<close> structure, the two heaps its pointers lead into, the
  operating system and an oracle for the allocations of single structures: the n-th of them
  succeeds if \<open>mem_ok n\<close>.
\<close>

section \<open>State\<close>

text \<open>The pointer \<open>info->res\<close>. It is not initialised by \<open>cpt_server_info_init\<close>, and it keeps its
  value when the structure it points to is freed.\<close>

datatype res_ptr = ResWild | ResNull | ResFreed | ResLive cpt_response

record server =
  sv_users :: uheap
  sv_chans :: cheap
  gc :: "channel option"
  dir :: "addr option"
  current_id :: int
  info_channel_id :: int
  info_res :: res_ptr
  sv_os :: os
  mem_ok :: "nat \<Rightarrow> bool"
  clock :: nat

definition alloc :: "server \<Rightarrow> bool \<times> server" where
  "alloc s = (mem_ok s (clock s), s\<lparr>clock := Suc (clock s)\<rparr>)"

definition deref_res :: "server \<Rightarrow> cpt_response res" where
  "deref_res s = (case info_res s of
     ResWild \<Rightarrow> Inl Uninit | ResNull \<Rightarrow> Inl NullDeref | ResFreed \<Rightarrow> Inl Dangling | ResLive r \<Rightarrow> Inr r)"

text \<open>\<open>cpt_response_destroy(info->res)\<close>.\<close>

definition info_res_destroy :: "server \<Rightarrow> server res" where
  "info_res_destroy s = (case info_res s of
     ResWild \<Rightarrow> Inl BadFree | ResFreed \<Rightarrow> Inl BadFree
   | ResNull \<Rightarrow> Inr s | ResLive _ \<Rightarrow> Inr (s\<lparr>info_res := ResFreed\<rparr>))"

definition gc_users :: "server \<Rightarrow> addr option res" where
  "gc_users s = (case gc s of None \<Rightarrow> Inl NullDeref | Some g \<Rightarrow> Inr (ch_users g))"

section \<open>server_info.c\<close>

definition cpt_server_info_init ::
  "bool \<Rightarrow> channel option \<Rightarrow> addr option \<Rightarrow> server \<Rightarrow> server option res" where
  "cpt_server_info_init ok g d s =
     (if \<not> ok then Inr None
      else case g of None \<Rightarrow> Inl NullDeref
        | Some c \<Rightarrow> Inr (Some (s\<lparr>gc := g, dir := d, current_id := uint (ch_id c),
                              info_channel_id := 0, info_res := ResWild\<rparr>)))"

definition cpt_server_info_destroy :: "server \<Rightarrow> server res" where
  "cpt_server_info_destroy s =
     rbind (if dir s = None then Inr s
            else rbind (channels_destroy (sv_chans s) (dir s)) (\<lambda>ch.
              Inr (s\<lparr>sv_chans := ch, dir := None\<rparr>))) (\<lambda>s1.
     (case gc s1 of None \<Rightarrow> Inr s1
      | Some g \<Rightarrow>
          rbind (if ch_users g = None then Inr (sv_users s1)
                 else users_destroy (sv_users s1) (ch_users g)) (\<lambda>uh.
          rbind (channel_destroy uh (Some g)) (\<lambda>uh'. Inr (s1\<lparr>sv_users := uh'\<rparr>)))))"

text \<open>The setup at the start of \<open>run\<close>: the global channel with its root user, the directory with
  a copy of the global channel, and the structure that holds both.\<close>

definition server_setup :: "server \<Rightarrow> server option res" where
  "server_setup s =
     (case alloc s of (uok, s1) \<Rightarrow> (case alloc s1 of (cok, s2) \<Rightarrow> (case alloc s2 of (ok, s3) \<Rightarrow>
     rbind (init_global_channel uok cok (sv_users s3)) (\<lambda>(g, uh).
     rbind (init_channel_directory (sv_chans s3) g) (\<lambda>(d, ch).
       cpt_server_info_init ok g d (s3\<lparr>sv_users := uh, sv_chans := ch\<rparr>))))))"

section \<open>cpt_server.c\<close>

definition cpt_login_response :: "server \<Rightarrow> byte list option \<Rightarrow> int res" where
  "cpt_login_response s name =
     (case gc s of None \<Rightarrow> Inr BAD_CHANNEL
      | Some g \<Rightarrow>
          if ch_id g \<noteq> 0 then Inr BAD_CHANNEL
          else rbind (case name of None \<Rightarrow> Inr DEFAULT_USERNAME | Some a \<Rightarrow> cstring a) (\<lambda>n.
            Inr (if length n > MAX_NAME_SIZE then NAME_TOO_LONG else SUCCESS)))"

text \<open>The loop of \<open>cpt_logout_response\<close> and its body for one channel. The successor of a node
  is read before its channel is deleted.\<close>

definition logout_channel :: "server \<Rightarrow> channel \<Rightarrow> server res" where
  "logout_channel s c =
     (if ch_id c \<noteq> 0 then
        rbind (user_delete (sv_users s) (ch_users c) (current_id s)) (\<lambda>(_, uh).
        rbind (deref_list uh (ch_users c)) (\<lambda>L.
          if ll_length L = 0 then
            rbind (channel_delete (sv_chans s) (dir s) (uint (ch_id c))) (\<lambda>(_, ch).
              Inr (s\<lparr>sv_users := uh, sv_chans := ch\<rparr>))
          else Inr (s\<lparr>sv_users := uh\<rparr>)))
      else Inr s)"

fun logout_walk :: "nat \<Rightarrow> server \<Rightarrow> addr option \<Rightarrow> server res" where
  "logout_walk 0 s chan_iter = Inl Diverge"
| "logout_walk (Suc n) s chan_iter =
     (if chan_iter = None then Inr s
      else rbind (deref_node (sv_chans s) chan_iter) (\<lambda>nd.
        let next_chan = nxt nd in
        (case ndata nd of None \<Rightarrow> Inl NullDeref
         | Some c \<Rightarrow> rbind (logout_channel s c) (\<lambda>s'. logout_walk n s' next_chan))))"

definition cpt_logout_response :: "server \<Rightarrow> (int \<times> server) res" where
  "cpt_logout_response s =
     (case gc s of None \<Rightarrow> Inr (BAD_CHANNEL, s)
      | Some g \<Rightarrow>
          rbind (get_head_channel (sv_chans s) (dir s)) (\<lambda>chan_iter.
          rbind (deref_node (sv_chans s) chan_iter) (\<lambda>nd.
          rbind (if nxt nd = None then Inr s
                 else logout_walk (fuel (sv_chans s)) s chan_iter) (\<lambda>s'.
          rbind (user_delete (sv_users s') (ch_users g) (current_id s')) (\<lambda>(lo_res, uh).
            Inr (if lo_res \<noteq> 0 then SUCCESS else FAILURE, s'\<lparr>sv_users := uh\<rparr>))))))"

definition cpt_get_users_response :: "server \<Rightarrow> u16 \<Rightarrow> (int \<times> server) res" where
  "cpt_get_users_response s cid =
     rbind (find_channel (sv_chans s) (dir s) cid) (\<lambda>channel.
     rbind (case channel of None \<Rightarrow> Inr (BAD_CHANNEL, None)
            | Some c \<Rightarrow> rbind (channel_to_string (sv_users s) c) (\<lambda>res_str.
                Inr (if res_str = None then CHAN_EMPTY else SUCCESS, res_str))) (\<lambda>(result, res_str).
     rbind (deref_res s) (\<lambda>r.
       let (txt, cd) = (case res_str of
                          None \<Rightarrow> (str ''Failed to get users...'', of_int FAILURE)
                        | Some t \<Rightarrow> (t, GET_USERS)) in
       Inr (result, s\<lparr>info_res := ResLive (r\<lparr>code := cd, data := Some (txt @ [0]),
                                       data_size := of_nat (length txt)\<rparr>)\<rparr>))))"

text \<open>The users of a new channel: those of the id list if \<open>filter_channel_users\<close> finds any,
  otherwise the requesting user. The buffer of 256 ids starts with the requesting user's.\<close>

definition new_channel_users ::
  "server \<Rightarrow> channel \<Rightarrow> byte list option \<Rightarrow> (addr option \<times> server) res" where
  "new_channel_users s g id_list =
     rbind (if id_list = None then Inr (None, s)
            else (case alloc s of (ok, s1) \<Rightarrow>
              rbind (filter_channel_users ok (sv_users s1) (Some g)
                  (word_of_int (current_id s1) # replicate (SM_BUFF_SIZE - 1) 0) id_list)
                (\<lambda>(users, uh). Inr (users, s1\<lparr>sv_users := uh\<rparr>)))) (\<lambda>(users, s2).
       if users \<noteq> None then Inr (users, s2)
       else
         rbind (find_user (sv_users s2) (ch_users g) (current_id s2)) (\<lambda>user.
         rbind (create_user_node (sv_users s2) user) (\<lambda>(user_node, uh1).
         rbind (users_init uh1 user_node) (\<lambda>(users, uh2).
           Inr (users, s2\<lparr>sv_users := uh2\<rparr>)))))"

definition cpt_create_channel_response ::
  "server \<Rightarrow> byte list option \<Rightarrow> (int \<times> server) res" where
  "cpt_create_channel_response s id_list =
     (case gc s of None \<Rightarrow> Inr (BAD_CHANNEL, s)
      | Some g \<Rightarrow>
          rbind (new_channel_users s g id_list) (\<lambda>(users, s1).
          rbind (deref_list (sv_chans s1) (dir s1)) (\<lambda>L.
          (case alloc s1 of (ok, s2) \<Rightarrow>
          (case channel_init ok (word_of_int (ll_length L)) users of
             None \<Rightarrow> Inr (SUCCESS, s2)
           | Some c \<Rightarrow>
               rbind (push_channel (sv_chans s2) (dir s2) (Some c)) (\<lambda>(push_res, ch).
                 Inr (if push_res \<noteq> 0 then SUCCESS else FAILURE, s2\<lparr>sv_chans := ch\<rparr>)))))))"

definition cpt_join_channel_response :: "server \<Rightarrow> u16 \<Rightarrow> (int \<times> server) res" where
  "cpt_join_channel_response s cid =
     rbind (find_channel (sv_chans s) (dir s) cid) (\<lambda>channel.
     (case channel of None \<Rightarrow> Inr (FAILURE, s)
      | Some c \<Rightarrow>
          rbind (find_user (sv_users s) (ch_users c) (current_id s)) (\<lambda>user.
          if user \<noteq> None then Inr (SUCCESS, s)
          else
            rbind (gc_users s) (\<lambda>gu.
            rbind (find_user (sv_users s) gu (current_id s)) (\<lambda>user.
              if user = None then Inr (FAILURE, s)
              else rbind (push_user (sv_users s) (ch_users c) user) (\<lambda>(r, uh).
                Inr (if r \<noteq> 0 then SUCCESS else FAILURE, s\<lparr>sv_users := uh\<rparr>)))))))"

definition cpt_leave_channel_response :: "server \<Rightarrow> u16 \<Rightarrow> (int \<times> server) res" where
  "cpt_leave_channel_response s cid =
     (if cid = 0 then Inr (BAD_CHANNEL, s)
      else
        rbind (find_channel (sv_chans s) (dir s) cid) (\<lambda>channel.
        (case channel of None \<Rightarrow> Inr (FAILURE, s)
         | Some c \<Rightarrow>
             rbind (user_delete (sv_users s) (ch_users c) (current_id s)) (\<lambda>(del_res, uh).
             if del_res = 0 then Inr (FAILURE, s\<lparr>sv_users := uh\<rparr>)
             else
               rbind (deref_list uh (ch_users c)) (\<lambda>L.
               if ll_length L = 0 then
                 rbind (channel_delete (sv_chans s) (dir s) (uint cid)) (\<lambda>(_, ch).
                   Inr (SUCCESS, s\<lparr>sv_users := uh, sv_chans := ch\<rparr>))
               else Inr (SUCCESS, s\<lparr>sv_users := uh\<rparr>))))))"

section \<open>cpt_voice_server.c\<close>

definition CPT_VCHAN_MIN :: u16 where "CPT_VCHAN_MIN = 32768"

text \<open>The response gets the address of a buffer that is local to the function; its two bytes are
  what it holds when the function returns.\<close>

definition cpt_create_vchannel_response ::
  "server \<Rightarrow> byte list option \<Rightarrow> (int \<times> server) res" where
  "cpt_create_vchannel_response s id_list =
     (case gc s of None \<Rightarrow> Inr (BAD_CHANNEL, s)
      | Some g \<Rightarrow>
          rbind (new_channel_users s g id_list) (\<lambda>(users, s1).
          rbind (deref_list (sv_chans s1) (dir s1)) (\<lambda>L.
          let chan_id = word_of_int (ll_length L) + CPT_VCHAN_MIN in
          (case alloc s1 of (ok, s2) \<Rightarrow>
          rbind (case channel_init ok chan_id users of
                   None \<Rightarrow> Inr (0, s2)
                 | Some c \<Rightarrow>
                     rbind (push_channel (sv_chans s2) (dir s2) (Some c)) (\<lambda>(push_res, ch).
                       Inr (push_res, s2\<lparr>sv_chans := ch\<rparr>))) (\<lambda>(push_res, s3).
            if push_res \<noteq> 0 then
              rbind (deref_res s3) (\<lambda>r.
                Inr (SUCCESS, s3\<lparr>info_res :=
                  ResLive (r\<lparr>data := Some (packi16 (ucast chan_id)), data_size := 2\<rparr>)\<rparr>))
            else Inr (FAILURE, s3))))))"

end
