(* ===== verification/Server_Spec.thy ===== *)
theory Server_Spec
  imports Server
begin

text \<open>
  The abstract server: a directory of channels, each an id with the list of its users, the
  global channel last, and the length field of the directory. \<open>sv_view s W\<close> relates a server
  state to it; every request handler of cpt_server.c refines an operation on views. The views
  assume that memory does not run out.
\<close>

section \<open>Views\<close>

type_synonym view = "int \<times> (u16 \<times> user list) list"

definition chan_view :: "user astore \<Rightarrow> channel \<Rightarrow> u16 \<times> user list \<Rightarrow> bool" where
  "chan_view Au c v \<longleftrightarrow> ch_id c = fst v \<and>
     (\<exists>l. ch_users c = Some l \<and> Au l = Some (int (length (snd v)), snd v))"

definition sv_rep ::
  "server \<Rightarrow> view \<Rightarrow> user astore \<Rightarrow> channel astore \<Rightarrow> addr \<Rightarrow> channel list \<Rightarrow> bool" where
  "sv_rep s W Au Ac d cs \<longleftrightarrow>
     rep (sv_users s) Au \<and> room (sv_users s) \<and>
     rep (sv_chans s) Ac \<and> room (sv_chans s) \<and> (\<forall>i. mem_ok s i) \<and>
     dir s = Some d \<and> Ac d = Some (fst W, cs) \<and>
     list_all2 (chan_view Au) cs (snd W) \<and> distinct (map ch_users cs) \<and>
     cs \<noteq> [] \<and> ch_id (last cs) = 0 \<and>
     (\<exists>g. gc s = Some g \<and> ch_id g = 0 \<and> ch_users g = ch_users (last cs))"

definition sv_view :: "server \<Rightarrow> view \<Rightarrow> bool" where
  "sv_view s W \<longleftrightarrow> (\<exists>Au Ac d cs. sv_rep s W Au Ac d cs)"

text \<open>The operations on views.\<close>

abbreviation ids :: "user list \<Rightarrow> int set" where
  "ids us \<equiv> user_key ` set us"

definition global :: "view \<Rightarrow> user list" where
  "global W = snd (last (snd W))"

fun upd_first :: "'k \<Rightarrow> ('v \<Rightarrow> 'v) \<Rightarrow> ('k \<times> 'v) list \<Rightarrow> ('k \<times> 'v) list" where
  "upd_first k f [] = []"
| "upd_first k f (v # V) = (if fst v = k then (fst v, f (snd v)) # V else v # upd_first k f V)"

definition drop_user :: "int \<Rightarrow> user list \<Rightarrow> user list" where
  "drop_user k us = del_first (\<lambda>u. user_key u = k) us"

text \<open>What the code does when it deletes a user: a null dereference if the list is too short and
  the user is not in it.\<close>

definition view_delete :: "int \<Rightarrow> user list \<Rightarrow> (bool \<times> user list) res" where
  "view_delete k us =
     (if k \<in> ids us then Inr (True, drop_user k us)
      else if length us < 2 then Inl NullDeref else Inr (False, us))"

definition view_join :: "int \<Rightarrow> u16 \<Rightarrow> view \<Rightarrow> (int \<times> view) res" where
  "view_join k cid W =
     (case map_of (snd W) cid of None \<Rightarrow> Inr (FAILURE, W)
      | Some us \<Rightarrow>
          if k \<in> ids us then Inr (SUCCESS, W)
          else (case List.find (\<lambda>u. user_key u = k) (global W) of
                  None \<Rightarrow> Inr (FAILURE, W)
                | Some u \<Rightarrow> Inr (SUCCESS, fst W, upd_first cid ((#) u) (snd W))))"

definition view_leave :: "int \<Rightarrow> u16 \<Rightarrow> view \<Rightarrow> (int \<times> view) res" where
  "view_leave k cid W =
     (if cid = 0 then Inr (BAD_CHANNEL, W)
      else case map_of (snd W) cid of None \<Rightarrow> Inr (FAILURE, W)
      | Some us \<Rightarrow> rbind (view_delete k us) (\<lambda>(found, us').
          if \<not> found then Inr (FAILURE, W)
          else if us' = [] then Inr (SUCCESS, fst W - 1, del_first (\<lambda>v. fst v = cid) (snd W))
          else Inr (SUCCESS, fst W, upd_first cid (\<lambda>_. us') (snd W))))"

definition view_create :: "int \<Rightarrow> view \<Rightarrow> (int \<times> view) res" where
  "view_create k W =
     (case List.find (\<lambda>u. user_key u = k) (global W) of
        None \<Rightarrow> Inl NullDeref
      | Some u \<Rightarrow> Inr (SUCCESS, fst W + 1, (word_of_int (fst W), [u]) # snd W))"

definition view_login :: "user \<Rightarrow> view \<Rightarrow> view" where
  "view_login u W = (fst W, butlast (snd W) @ [(0, u # global W)])"

text \<open>Refinement: the handler's outcome is that of the specification, and nothing but the two
  heaps and the allocation clock has changed.\<close>

definition same_session :: "server \<Rightarrow> server \<Rightarrow> bool" where
  "same_session s s' \<longleftrightarrow> gc s' = gc s \<and> dir s' = dir s \<and> current_id s' = current_id s \<and>
     info_res s' = info_res s \<and> sv_os s' = sv_os s"

definition refines :: "server \<Rightarrow> (int \<times> server) res \<Rightarrow> (int \<times> view) res \<Rightarrow> bool" where
  "refines s m spec \<longleftrightarrow> (case spec of Inl e \<Rightarrow> m = Inl e
     | Inr (r, W) \<Rightarrow> \<exists>s'. m = Inr (r, s') \<and> sv_view s' W \<and> same_session s s')"

lemma same_session_refl [simp]: "same_session s s"
  by (simp add: same_session_def)

lemma same_session_updates [simp]:
  "same_session s (s\<lparr>sv_users := uh\<rparr>)" "same_session s (s\<lparr>sv_chans := ch\<rparr>)"
  "same_session s (s\<lparr>sv_users := uh, sv_chans := ch\<rparr>)"
  by (simp_all add: same_session_def)

section \<open>Finding and updating a channel\<close>

lemma find_split:
  assumes "list_all2 (chan_view Au) cs V" "List.find (\<lambda>c. ch_id c = k) cs = Some c"
  shows "\<exists>cs1 cs2 V1 us V2. cs = cs1 @ c # cs2 \<and> V = V1 @ (k, us) # V2 \<and>
     list_all2 (chan_view Au) cs1 V1 \<and> list_all2 (chan_view Au) cs2 V2 \<and> chan_view Au c (k, us) \<and>
     k \<notin> fst ` set V1 \<and> k \<notin> ch_id ` set cs1 \<and> map_of V k = Some us"
  using assms
proof (induction cs V rule: list_all2_induct)
  case Nil
  then show ?case by simp
next
  case (Cons c' cs v V)
  show ?case
  proof (cases "ch_id c' = k")
    case True
    with Cons.prems have c: "c = c'" by simp
    from Cons.hyps(1) True obtain us where "v = (k, us)" by (cases v) (auto simp: chan_view_def)
    then have "c' # cs = [] @ c # cs \<and> v # V = [] @ (k, us) # V \<and>
        list_all2 (chan_view Au) [] [] \<and> list_all2 (chan_view Au) cs V \<and> chan_view Au c (k, us) \<and>
        k \<notin> fst ` set [] \<and> k \<notin> ch_id ` set [] \<and> map_of (v # V) k = Some us"
      using Cons.hyps c by simp
    then show ?thesis by blast
  next
    case False
    with Cons.prems have "List.find (\<lambda>c. ch_id c = k) cs = Some c" by simp
    from Cons.IH [OF this] obtain cs1 cs2 V1 us V2 where
      "cs = cs1 @ c # cs2" "V = V1 @ (k, us) # V2" "list_all2 (chan_view Au) cs1 V1"
      "list_all2 (chan_view Au) cs2 V2" "chan_view Au c (k, us)" "k \<notin> fst ` set V1"
      "k \<notin> ch_id ` set cs1" "map_of V k = Some us" by blast
    moreover from False Cons.hyps(1) have "fst v \<noteq> k" by (simp add: chan_view_def)
    ultimately have "c' # cs = (c' # cs1) @ c # cs2 \<and> v # V = (v # V1) @ (k, us) # V2 \<and>
        list_all2 (chan_view Au) (c' # cs1) (v # V1) \<and> list_all2 (chan_view Au) cs2 V2 \<and>
        chan_view Au c (k, us) \<and> k \<notin> fst ` set (v # V1) \<and> k \<notin> ch_id ` set (c' # cs1) \<and>
        map_of (v # V) k = Some us"
      using False Cons.hyps(1) by auto
    then show ?thesis by blast
  qed
qed

lemma find_None_view:
  "list_all2 (chan_view Au) cs V \<Longrightarrow> List.find (\<lambda>c. ch_id c = k) cs = None \<longleftrightarrow> map_of V k = None"
  by (induction cs V rule: list_all2_induct) (auto simp: chan_view_def)

lemma upd_first_split: "k \<notin> fst ` set V1 \<Longrightarrow> upd_first k f (V1 @ (k, x) # V2) = V1 @ (k, f x) # V2"
  by (induction V1) auto

lemma del_first_split:
  "k \<notin> g ` set V1 \<Longrightarrow> g v = k \<Longrightarrow> del_first (\<lambda>v. g v = k) (V1 @ v # V2) = V1 @ V2"
  by (rule del_first_append) (auto simp: image_iff)

lemma chan_view_other:
  "ch_users c \<noteq> Some l \<Longrightarrow> chan_view (Au(l \<mapsto> x)) c v = chan_view Au c v"
  by (auto simp: chan_view_def)

lemma views_other:
  "Some l \<notin> ch_users ` set cs \<Longrightarrow>
   list_all2 (chan_view (Au(l \<mapsto> x))) cs V = list_all2 (chan_view Au) cs V"
  by (rule list.rel_cong_simp) (auto simp: simp_implies_def chan_view_other image_iff)

lemma last_view:
  assumes "list_all2 (chan_view Au) cs V" "cs \<noteq> []"
  shows "chan_view Au (last cs) (last V)" "V \<noteq> []"
  using assms by (induction cs V rule: list_all2_induct) auto

section \<open>The views of updated states\<close>

lemma sv_find:
  "sv_rep s W Au Ac d cs \<Longrightarrow>
   find_channel (sv_chans s) (dir s) k = Inr (List.find (\<lambda>c. ch_id c = k) cs)"
  by (auto simp: sv_rep_def find_channel_store)

lemma sv_gc:
  assumes "sv_rep s W Au Ac d cs"
  shows "\<exists>g lg. gc s = Some g \<and> ch_id g = 0 \<and> ch_users g = Some lg \<and> ch_users (last cs) = Some lg \<and>
     Au lg = Some (int (length (global W)), global W)"
  using assms last_view(1) [of Au cs "snd W"]
  by (auto simp: sv_rep_def global_def chan_view_def)

lemma sv_update_users:
  assumes S: "sv_rep s W Au Ac d (cs1 @ c # cs2)" and c: "ch_users c = Some l"
    and W: "snd W = V1 @ (k, us) # V2" "list_all2 (chan_view Au) cs1 V1"
    and uh: "rep uh (Au(l \<mapsto> (int (length us'), us')))" "room uh"
  shows "sv_rep (s\<lparr>sv_users := uh\<rparr>) (fst W, V1 @ (k, us') # V2)
    (Au(l \<mapsto> (int (length us'), us'))) Ac d (cs1 @ c # cs2)"
proof -
  from S have all: "list_all2 (chan_view Au) (cs1 @ c # cs2) (V1 @ (k, us) # V2)"
    and dist: "distinct (map ch_users (cs1 @ c # cs2))"
    using W by (simp_all add: sv_rep_def)
  from all list_all2_lengthD [OF W(2)] have "chan_view Au c (k, us)" "list_all2 (chan_view Au) cs2 V2"
    by (simp_all add: list_all2_append)
  moreover from dist c have "Some l \<notin> ch_users ` set cs1" "Some l \<notin> ch_users ` set cs2"
    by (auto simp: image_iff)
  ultimately have "list_all2 (chan_view (Au(l \<mapsto> (int (length us'), us')))) (cs1 @ c # cs2)
      (V1 @ (k, us') # V2)"
    using W(2) c by (intro list_all2_appendI) (auto simp: views_other chan_view_def [of _ c])
  then show ?thesis
    using S uh by (simp add: sv_rep_def)
qed

lemma list_all2_del_first:
  assumes "list_all2 (chan_view Au) cs V"
  shows "list_all2 (chan_view Au) (del_first (\<lambda>c. ch_id c = k) cs) (del_first (\<lambda>v. fst v = k) V)"
  using assms
proof (induction cs V rule: list_all2_induct)
  case (Cons c cs v V)
  moreover from Cons.hyps(1) have "ch_id c = fst v" by (simp add: chan_view_def)
  ultimately show ?case by simp
qed simp

lemma distinct_del_first: "distinct (map f xs) \<Longrightarrow> distinct (map f (del_first P xs))"
proof (induction xs)
  case (Cons x xs)
  then show ?case using set_del_first_subset [of P xs] by auto
qed simp

lemma del_first_append_hit: "\<exists>x\<in>set us. P x \<Longrightarrow> del_first P (us @ vs) = del_first P us @ vs"
  by (induction us) auto

lemma sv_remove_channel:
  assumes S: "sv_rep s W Au Ac d cs" and k: "k \<noteq> 0"
    and ch: "rep ch (Ac(d \<mapsto> (n, del_first (\<lambda>c. ch_id c = k) cs)))" "room ch"
  shows "sv_rep (s\<lparr>sv_chans := ch\<rparr>) (n, del_first (\<lambda>v. fst v = k) (snd W)) Au
    (Ac(d \<mapsto> (n, del_first (\<lambda>c. ch_id c = k) cs))) d (del_first (\<lambda>c. ch_id c = k) cs)"
proof -
  from S k have "ch_id (last cs) \<noteq> k" "cs \<noteq> []" by (auto simp: sv_rep_def)
  with last_del_first [of cs "\<lambda>c. ch_id c = k"]
  have "del_first (\<lambda>c. ch_id c = k) cs \<noteq> []" "last (del_first (\<lambda>c. ch_id c = k) cs) = last cs" by auto
  with S ch list_all2_del_first [of Au cs "snd W" k] show ?thesis
    by (auto simp: sv_rep_def distinct_del_first)
qed

lemma sv_push_channel:
  assumes S: "sv_rep s W Au Ac d cs" and l: "Au l = None"
    and uh: "rep uh (Au(l \<mapsto> (1, [u])))" "room uh"
    and c: "ch_id c = k" "ch_users c = Some l"
    and ch: "rep ch (Ac(d \<mapsto> (fst W + 1, c # cs)))" "room ch"
  shows "sv_rep (s\<lparr>sv_users := uh, sv_chans := ch\<rparr>) (fst W + 1, (k, [u]) # snd W)
    (Au(l \<mapsto> (1, [u]))) (Ac(d \<mapsto> (fst W + 1, c # cs))) d (c # cs)"
proof -
  from S have all: "list_all2 (chan_view Au) cs (snd W)" by (simp add: sv_rep_def)
  have "ch_users c' \<noteq> Some l" if "c' \<in> set cs" for c'
  proof -
    from all that have "\<exists>v. chan_view Au c' v"
      by (induction cs "snd W" arbitrary: W rule: list_all2_induct) auto
    with l show ?thesis by (auto simp: chan_view_def)
  qed
  then have fresh: "Some l \<notin> ch_users ` set cs" by (metis imageE)
  with all c have "list_all2 (chan_view (Au(l \<mapsto> (1, [u])))) (c # cs) ((k, [u]) # snd W)"
    by (simp add: views_other) (simp add: chan_view_def)
  with S uh ch c fresh show ?thesis by (simp add: sv_rep_def)
qed

section \<open>Users of a channel\<close>

lemma user_delete_view:
  assumes "rep h A" "A l = Some (int (length us), us)" "room h"
  shows "case view_delete k us of Inl e \<Rightarrow> user_delete h (Some l) k = Inl e
    | Inr (b, us') \<Rightarrow> \<exists>h'. user_delete h (Some l) k = Inr (if b then 1 else 0, h') \<and>
        rep h' (A(l \<mapsto> (int (length us'), us'))) \<and> room h' \<and> (\<not> b \<longrightarrow> h' = h)"
proof (cases "k \<in> ids us")
  case True
  from user_delete_store [OF assms(1,2) True] obtain h' where
    h': "user_delete h (Some l) k = Inr (1, h')"
      "rep h' (A(l \<mapsto> (int (length us) - 1, del_first (\<lambda>u. user_key u = k) us)))" by auto
  from True have "us \<noteq> []" "\<exists>u\<in>set us. user_key u = k" by auto
  then have "int (length us) - 1 = int (length (drop_user k us))"
    by (simp add: drop_user_def length_del_first of_nat_diff Suc_leI)
  moreover have "room h'"
    using h'(1) assms(3) cl.delete_room by (auto simp: user_delete_def)
  ultimately show ?thesis using h' True by (simp add: view_delete_def drop_user_def)
next
  case False
  with user_delete_absent [OF assms(1,2) False] assms show ?thesis
    by (simp add: view_delete_def fun_upd_idem)
qed

lemma deref_list_rep:
  "rep h A \<Longrightarrow> A l = Some (n, xs) \<Longrightarrow> \<exists>L. deref_list h (Some l) = Inr L \<and> ll_length L = n"
  using repN_list list_head unfolding rep_def by metis

section \<open>The handlers refine the operations on views\<close>

lemma refines_fault: "m = Inl e \<Longrightarrow> refines s m (Inl e)"
  by (simp add: refines_def)

lemma refines_value:
  "m = Inr (r, s') \<Longrightarrow> sv_view s' W \<Longrightarrow> same_session s s' \<Longrightarrow> refines s m (Inr (r, W))"
  by (simp add: refines_def)

lemma sv_viewI: "sv_rep s W Au Ac d cs \<Longrightarrow> sv_view s W"
  unfolding sv_view_def by blast

lemma find_user_ids: "List.find (\<lambda>u. user_key u = k) us = None \<longleftrightarrow> k \<notin> ids us"
  by (induction us) auto

text \<open>The case analysis that the handlers share: the channel is not there, or it is, and its
  users are those of the view.\<close>

lemma sv_channel_cases:
  assumes "sv_rep s W Au Ac d cs"
  obtains (none) "find_channel (sv_chans s) (dir s) cid = Inr None" "map_of (snd W) cid = None"
  | (some) c cs1 cs2 V1 us V2 l where
      "find_channel (sv_chans s) (dir s) cid = Inr (Some c)" "map_of (snd W) cid = Some us"
      "cs = cs1 @ c # cs2" "snd W = V1 @ (cid, us) # V2" "list_all2 (chan_view Au) cs1 V1"
      "cid \<notin> fst ` set V1" "cid \<notin> ch_id ` set cs1" "ch_id c = cid" "ch_users c = Some l"
      "Au l = Some (int (length us), us)" "rep (sv_users s) Au" "room (sv_users s)"
proof -
  from assms have all: "list_all2 (chan_view Au) cs (snd W)" "rep (sv_users s) Au" "room (sv_users s)"
    by (simp_all add: sv_rep_def)
  show ?thesis
  proof (cases "List.find (\<lambda>c. ch_id c = cid) cs")
    case None
    with sv_find [OF assms] find_None_view [OF all(1)] show ?thesis by (intro none) auto
  next
    case (Some c)
    from find_split [OF all(1) Some] obtain cs1 cs2 V1 us V2 where
      sp: "cs = cs1 @ c # cs2" "snd W = V1 @ (cid, us) # V2" "list_all2 (chan_view Au) cs1 V1"
      "cid \<notin> fst ` set V1" "cid \<notin> ch_id ` set cs1" "map_of (snd W) cid = Some us"
      and v: "chan_view Au c (cid, us)" by blast
    from v obtain l where l: "ch_id c = cid" "ch_users c = Some l" "Au l = Some (int (length us), us)"
      by (auto simp: chan_view_def)
    have "find_channel (sv_chans s) (dir s) cid = Inr (Some c)"
      using Some sv_find [OF assms] by simp
    from some [OF this sp(6) sp(1-5) l all(2,3)] show ?thesis .
  qed
qed

lemma join_sim:
  assumes "sv_view s W"
  shows "refines s (cpt_join_channel_response s cid) (view_join (current_id s) cid W)"
proof -
  from assms obtain Au Ac d cs where S: "sv_rep s W Au Ac d cs" by (auto simp: sv_view_def)
  from sv_gc [OF S] obtain g lg where
    g: "gc s = Some g" "ch_users g = Some lg" "Au lg = Some (int (length (global W)), global W)" by auto
  let ?k = "current_id s"
  show ?thesis
  proof (cases rule: sv_channel_cases [OF S, of cid])
    case 1
    then show ?thesis
      using assms by (simp add: cpt_join_channel_response_def view_join_def refines_def)
  next
    case (2 c cs1 cs2 V1 us V2 l)
    have fu: "find_user (sv_users s) (Some l) ?k = Inr (List.find (\<lambda>u. user_key u = ?k) us)"
      "find_user (sv_users s) (Some lg) ?k = Inr (List.find (\<lambda>u. user_key u = ?k) (global W))"
      by (rule find_user_store [OF 2(11) 2(10)], rule find_user_store [OF 2(11) g(3)])
    show ?thesis
    proof (cases "?k \<in> ids us \<or> ?k \<notin> ids (global W)")
      case True
      then show ?thesis
        using assms 2 g fu find_user_ids [of ?k us] find_user_ids [of ?k "global W"]
        by (auto simp: cpt_join_channel_response_def view_join_def refines_def gc_users_def
            split: option.split)
    next
      case False
      then obtain u where u: "List.find (\<lambda>u. user_key u = ?k) (global W) = Some u"
        using find_user_ids [of ?k "global W"] by auto
      from False have nf: "List.find (\<lambda>u. user_key u = ?k) us = None" by (simp add: find_user_ids)
      from ustore.push_ok [OF 2(11,10,12)] obtain uh where
        uh: "push_data (sv_users s) (Some l) (Some u) = Inr (1, uh)"
          "rep uh (Au(l \<mapsto> (int (length (u # us)), u # us)))" "room uh"
        by (auto simp: add.commute)
      have "sv_rep (s\<lparr>sv_users := uh\<rparr>) (fst W, V1 @ (cid, u # us) # V2)
          (Au(l \<mapsto> (int (length (u # us)), u # us))) Ac d (cs1 @ c # cs2)"
        by (rule sv_update_users [OF _ 2(9,4,5) uh(2,3)]) (use S 2(3) in simp)
      then have "sv_view (s\<lparr>sv_users := uh\<rparr>) (fst W, upd_first cid ((#) u) (snd W))"
        using 2(4,6) by (simp add: upd_first_split sv_viewI)
      moreover have "cpt_join_channel_response s cid = Inr (SUCCESS, s\<lparr>sv_users := uh\<rparr>)"
        using 2 g fu nf u uh(1) by (simp add: cpt_join_channel_response_def gc_users_def)
      moreover have "view_join ?k cid W = Inr (SUCCESS, fst W, upd_first cid ((#) u) (snd W))"
        using 2 u False by (simp add: view_join_def)
      ultimately show ?thesis by (simp add: refines_def)
    qed
  qed
qed

lemma sv_delete_channel:
  assumes S: "sv_rep s W Au Ac d cs" and c: "c \<in> set cs" "ch_id c = cid" "cid \<noteq> 0"
  obtains ch where "channel_delete (sv_chans s) (Some d) (uint cid) = Inr (1, ch)"
    "sv_view (s\<lparr>sv_chans := ch\<rparr>) (fst W - 1, del_first (\<lambda>v. fst v = cid) (snd W))"
proof -
  from S have dir: "rep (sv_chans s) Ac" "room (sv_chans s)" "Ac d = Some (fst W, cs)"
    by (simp_all add: sv_rep_def)
  from channel_delete_store [OF dir(1,3), of cid] c obtain ch where
    ch: "channel_delete (sv_chans s) (Some d) (uint cid) = Inr (1, ch)"
      "rep ch (Ac(d \<mapsto> (fst W - 1, del_first (\<lambda>c. ch_id c = cid) cs)))" by auto
  from ch(1) dir(2) have "room ch" using cl.delete_room by (auto simp: channel_delete_def)
  from that [OF ch(1) sv_viewI [OF sv_remove_channel [OF S c(3) ch(2) this]]] show ?thesis .
qed

lemma leave_sim:
  assumes "sv_view s W"
  shows "refines s (cpt_leave_channel_response s cid) (view_leave (current_id s) cid W)"
proof -
  from assms obtain Au Ac d cs where S: "sv_rep s W Au Ac d cs" by (auto simp: sv_view_def)
  let ?k = "current_id s"
  show ?thesis
  proof (cases rule: sv_channel_cases [OF S, of cid])
    case 1
    then show ?thesis
      using assms by (simp add: cpt_leave_channel_response_def view_leave_def refines_def)
  next
    case (2 c cs1 cs2 V1 us V2 l)
    note del = user_delete_view [OF 2(11,10,12), of ?k]
    show ?thesis
    proof (cases "cid = 0 \<or> (\<forall>us'. view_delete ?k us \<noteq> Inr (True, us'))")
      case True
      with del assms 2 show ?thesis
        by (auto simp: cpt_leave_channel_response_def view_leave_def refines_def view_delete_def
            split: if_splits)
    next
      case False
      then obtain us' where vd: "view_delete ?k us = Inr (True, us')" and cid: "cid \<noteq> 0" by auto
      with del obtain uh where uh: "user_delete (sv_users s) (Some l) ?k = Inr (1, uh)"
          "rep uh (Au(l \<mapsto> (int (length us'), us')))" "room uh" by auto
      from deref_list_rep [OF uh(2), of l] obtain L where
        L: "deref_list uh (Some l) = Inr L" "ll_length L = int (length us')" by auto
      have S1: "sv_rep (s\<lparr>sv_users := uh\<rparr>) (fst W, V1 @ (cid, us') # V2)
          (Au(l \<mapsto> (int (length us'), us'))) Ac d (cs1 @ c # cs2)"
        by (rule sv_update_users [OF _ 2(9,4,5) uh(2,3)]) (use S 2(3) in simp)
      show ?thesis
      proof (cases "us' = []")
        case False
        then have "cpt_leave_channel_response s cid = Inr (SUCCESS, s\<lparr>sv_users := uh\<rparr>)"
          using 2 uh(1) L cid by (simp add: cpt_leave_channel_response_def)
        with S1 False show ?thesis
          using 2 vd cid
          by (simp add: view_leave_def refines_def upd_first_split sv_viewI)
      next
        case True
        obtain ch where ch: "channel_delete (sv_chans s) (Some d) (uint cid) = Inr (1, ch)"
            "sv_view (s\<lparr>sv_users := uh\<rparr>\<lparr>sv_chans := ch\<rparr>)
              (fst W - 1, del_first (\<lambda>v. fst v = cid) (V1 @ (cid, us') # V2))"
          by (rule sv_delete_channel [OF S1, of c cid]) (use 2(8) cid in auto)
        note ch(2)
        moreover have "cpt_leave_channel_response s cid =
            Inr (SUCCESS, s\<lparr>sv_users := uh\<rparr>\<lparr>sv_chans := ch\<rparr>)"
          using 2 uh(1) L cid True ch(1) S by (simp add: cpt_leave_channel_response_def sv_rep_def)
        ultimately show ?thesis
          using 2 vd cid True del_first_split [of cid fst V1 _ V2]
          by (simp add: view_leave_def refines_def)
      qed
    qed
  qed
qed

lemma users_init_room:
  assumes "rep h A" "room h"
  shows "\<exists>l h1 h2. create_user_node h (Some u) = Inr (Some (brk h), h1) \<and>
    users_init h1 (Some (brk h)) = Inr (Some l, h2) \<and> A l = None \<and> rep h2 (A(l \<mapsto> (1, [u]))) \<and> room h2"
proof -
  from create_node_room [OF assms(2), of u] obtain h1 where
    h1: "create_user_node h (Some u) = Inr (Some (brk h), h1)" "room h1"
    by (auto simp: create_user_node_def)
  from users_init_store [OF assms(1) h1(1)] obtain p h2 where
    h2: "users_init h1 (Some (brk h)) = Inr (p, h2)"
      "(p = None \<and> rep h2 A) \<or> (\<exists>l. p = Some l \<and> A l = None \<and> rep h2 (A(l \<mapsto> (1, [u]))))" by auto
  from init_list_node_room [OF h1(2), of "Some (brk h)"] h2(1) have "p \<noteq> None" "room h2"
    by (auto simp: users_init_def dest: upd_list_room)
  with h1 h2 show ?thesis by auto
qed

text \<open>The message of a CREATE_CHANNEL request: absent, or a C string with another zero byte
  behind its terminator (the parser of requests appends six).\<close>

definition query_arg :: "byte list option \<Rightarrow> bool" where
  "query_arg id_list \<longleftrightarrow> (case id_list of None \<Rightarrow> True
     | Some a \<Rightarrow> (let t = takeWhile (\<lambda>b. b \<noteq> 0) a in \<exists>r. a = t @ 0 # 0 # r))"

lemma query_arg_eq:
  "query_arg id_list \<longleftrightarrow> id_list = None \<or> (\<exists>t r. id_list = Some (t @ 0 # 0 # r) \<and> 0 \<notin> set t)"
proof -
  have "takeWhile (\<lambda>b. b \<noteq> 0) (t @ 0 # 0 # r) = t" if "0 \<notin> set t" for t r :: "byte list"
    using that by (induction t) auto
  moreover have "0 \<notin> set (takeWhile (\<lambda>b. b \<noteq> 0) a)" for a :: "byte list"
    by (auto dest: set_takeWhileD)
  ultimately show ?thesis
    unfolding query_arg_def Let_def by (auto split: option.split)
qed

text \<open>More generally, what is needed is that the loop over the list ends before the array does.\<close>

definition id_buf :: "server \<Rightarrow> u16 list" where
  "id_buf s = word_of_int (current_id s) # replicate (SM_BUFF_SIZE - 1) 0"

definition query_reads :: "server \<Rightarrow> byte list option \<Rightarrow> bool" where
  "query_reads s id_list \<longleftrightarrow> (case id_list of None \<Rightarrow> True
     | Some a \<Rightarrow> parse_query_loop a (id_buf s) 0 = Inr (0, id_buf s))"

lemma query_arg_reads: "query_arg id_list \<Longrightarrow> query_reads s id_list"
  by (auto simp: query_arg_eq query_reads_def parse_query_total)

lemma new_channel_users_view:
  assumes S: "sv_rep s W Au Ac d cs" and q: "query_reads s id_list"
    and g: "gc s = Some g" "ch_users g = Some lg" "Au lg = Some (n, global W)"
  shows "case List.find (\<lambda>u. user_key u = current_id s) (global W) of
      None \<Rightarrow> new_channel_users s g id_list = Inl NullDeref
    | Some u \<Rightarrow> \<exists>l uh m. new_channel_users s g id_list = Inr (Some l, s\<lparr>clock := m, sv_users := uh\<rparr>) \<and>
        Au l = None \<and> rep uh (Au(l \<mapsto> (1, [u]))) \<and> room uh"
proof -
  from S have R: "rep (sv_users s) Au" "room (sv_users s)" by (simp_all add: sv_rep_def)
  let ?f = "if id_list = None then Inr (None, s)
      else case alloc s of (ok, s1) \<Rightarrow>
        rbind (filter_channel_users ok (sv_users s1) (Some g)
            (word_of_int (current_id s1) # replicate (SM_BUFF_SIZE - 1) 0) id_list)
          (\<lambda>(users, uh). Inr (users, s1\<lparr>sv_users := uh\<rparr>))"
  have f: "\<exists>m. ?f = Inr (None, s\<lparr>clock := m\<rparr>)"
  proof (cases id_list)
    case None
    then show ?thesis by (auto intro: exI [of _ "clock s"])
  next
    case (Some a)
    with q filter_channel_users_none [OF R(1) g(3,2)] show ?thesis
      by (auto simp: alloc_def query_reads_def id_buf_def)
  qed
  then obtain m where m: "?f = Inr (None, s\<lparr>clock := m\<rparr>)" by auto
  have find: "find_user (sv_users s) (Some lg) (current_id s) =
      Inr (List.find (\<lambda>u. user_key u = current_id s) (global W))"
    by (rule find_user_store [OF R(1) g(3)])
  show ?thesis
  proof (cases "List.find (\<lambda>u. user_key u = current_id s) (global W)")
    case None
    then have "new_channel_users s g id_list = Inl NullDeref"
      unfolding new_channel_users_def m
      using find g(2) R(2) by (simp add: create_user_node_def create_node_def malloc_room)
    with None show ?thesis by simp
  next
    case (Some u)
    from users_init_room [OF R, of u] obtain l h1 h2 where
      "create_user_node (sv_users s) (Some u) = Inr (Some (brk (sv_users s)), h1)"
      "users_init h1 (Some (brk (sv_users s))) = Inr (Some l, h2)" "Au l = None"
      "rep h2 (Au(l \<mapsto> (1, [u])))" "room h2" by auto
    moreover then have "new_channel_users s g id_list = Inr (Some l, s\<lparr>clock := m, sv_users := h2\<rparr>)"
      unfolding new_channel_users_def m using find g(2) Some by simp
    ultimately show ?thesis using Some by auto
  qed
qed

lemma create_sim:
  assumes "sv_view s W" "query_reads s id_list"
  shows "refines s (cpt_create_channel_response s id_list) (view_create (current_id s) W)"
proof -
  from assms obtain Au Ac d cs where S: "sv_rep s W Au Ac d cs" by (auto simp: sv_view_def)
  from sv_gc [OF S] obtain g lg where
    g: "gc s = Some g" "ch_users g = Some lg" "Au lg = Some (int (length (global W)), global W)" by auto
  from S have dir: "dir s = Some d" "rep (sv_chans s) Ac" "room (sv_chans s)" "\<forall>i. mem_ok s i"
    "Ac d = Some (fst W, cs)" by (simp_all add: sv_rep_def)
  note new = new_channel_users_view [OF S assms(2) g]
  show ?thesis
  proof (cases "List.find (\<lambda>u. user_key u = current_id s) (global W)")
    case None
    with new g show ?thesis
      by (simp add: cpt_create_channel_response_def view_create_def refines_def)
  next
    case (Some u)
    with new obtain l uh m where
      nu: "new_channel_users s g id_list = Inr (Some l, s\<lparr>clock := m, sv_users := uh\<rparr>)"
        "Au l = None" "rep uh (Au(l \<mapsto> (1, [u])))" "room uh" by auto
    let ?c = "\<lparr>ch_fd = 0, ch_id = word_of_int (fst W), ch_users = Some l\<rparr>"
    from cstore.push_ok [OF dir(2,5,3), of ?c] obtain ch where
      ch: "push_data (sv_chans s) (Some d) (Some ?c) = Inr (1, ch)"
        "rep ch (Ac(d \<mapsto> (fst W + 1, ?c # cs)))" "room ch" by auto
    from deref_list_rep [OF dir(2,5)] obtain L where
      L: "deref_list (sv_chans s) (Some d) = Inr L" "ll_length L = fst W" by auto
    let ?s' = "s\<lparr>clock := Suc m, sv_users := uh, sv_chans := ch\<rparr>"
    have "cpt_create_channel_response s id_list = Inr (SUCCESS, ?s')"
      using g nu L dir ch by (simp add: cpt_create_channel_response_def alloc_def channel_init_def)
    moreover from sv_push_channel [OF S nu(2-4), of ?c "word_of_int (fst W)" ch] ch
    have "sv_view (s\<lparr>sv_users := uh, sv_chans := ch\<rparr>) (fst W + 1, (word_of_int (fst W), [u]) # snd W)"
      by (auto intro: sv_viewI)
    then have "sv_view ?s' (fst W + 1, (word_of_int (fst W), [u]) # snd W)"
      by (simp add: sv_view_def sv_rep_def)
    moreover have "same_session s ?s'" by (simp add: same_session_def)
    ultimately show ?thesis using Some by (simp add: view_create_def refines_def)
  qed
qed

section \<open>The first state\<close>

definition root_user :: user where
  "root_user = \<lparr>uid = 0, uname = Some (str ''ROOT_USER'' @ [0]), udp_fd_s = 0, udp_fd_r = 0\<rparr>"

lemma rep_empty: "rep h Map.empty"
  by (rule exI [of _ "\<lambda>_. []", THEN rep_def [THEN iffD2]]) (simp add: repN_def)

lemma user_init_root: "user_init True 0 16383 (Some (str ''ROOT_USER'' @ [0])) = Inr (Some root_user)"
proof -
  have "cstring (str ''ROOT_USER'' @ [0]) = Inr (str ''ROOT_USER'')" by (simp add: cstring_def)
  then show ?thesis by (simp add: user_init_def root_user_def MAX_NAME_SIZE_def)
qed

lemma setup_sim:
  assumes "room (sv_users s)" "room (sv_chans s)" "\<forall>i. mem_ok s i"
  shows "\<exists>s'. server_setup s = Inr (Some s') \<and>
    sv_view s' (junk (sv_chans s) (brk (sv_chans s) + 2) + 1, [(0, [root_user])]) \<and>
    info_res s' = ResWild \<and> current_id s' = 0 \<and> sv_os s' = sv_os s"
proof -
  from users_init_room [OF rep_empty assms(1), of root_user] obtain l h1 uh where
    u: "create_user_node (sv_users s) (Some root_user) = Inr (Some (brk (sv_users s)), h1)"
      "users_init h1 (Some (brk (sv_users s))) = Inr (Some l, uh)"
      "rep uh (Map.empty(l \<mapsto> (1, [root_user])))" "room uh" by auto
  let ?g = "\<lparr>ch_fd = 0, ch_id = 0, ch_users = Some l\<rparr>"
  have g: "init_global_channel True True (sv_users s) = Inr (Some ?g, uh)"
    unfolding init_global_channel_def user_init_root using u by (simp add: channel_init_def)
  let ?h = "sv_chans s" and ?b = "brk (sv_chans s)"
  let ?c1 = "set_node ?b \<lparr>ndata = Some ?g, nxt = None\<rparr> (?h\<lparr>brk := ?b + 2\<rparr>)"
  have c1: "create_channel_node ?h (Some ?g) = Inr (Some ?b, ?c1)"
    using assms(2) by (simp add: create_channel_node_def create_node_def malloc_room)
  have "repN ?c1 (\<lambda>_. []) Map.empty" by (simp add: repN_def)
  from init_list_node_rep [OF this, of ?b ?g] init_list_node_room [of ?c1 "Some ?b"] assms(2)
  obtain ch where ch: "init_list_node ?c1 (Some ?b) = (Some (?b + 2), ch)" "room ch"
      "rep ch (Map.empty(?b + 2 \<mapsto> (junk ?h (?b + 2) + 1, [?g])))" by fastforce
  have d: "init_channel_directory ?h (Some ?g) = Inr (Some (?b + 2), ch)"
    using c1 ch(1) by (simp add: init_channel_directory_def channels_init_def)
  let ?s = "s\<lparr>clock := Suc (Suc (Suc (clock s))), sv_users := uh, sv_chans := ch, gc := Some ?g,
      dir := Some (?b + 2), current_id := 0, info_channel_id := 0, info_res := ResWild\<rparr>"
  have "server_setup s = Inr (Some ?s)"
    using assms(3) g d by (simp add: server_setup_def alloc_def cpt_server_info_init_def)
  moreover have "sv_rep ?s (junk ?h (?b + 2) + 1, [(0, [root_user])]) (Map.empty(l \<mapsto> (1, [root_user])))
      (Map.empty(?b + 2 \<mapsto> (junk ?h (?b + 2) + 1, [?g]))) (?b + 2) [?g]"
    using u(3,4) ch(2,3) assms(3) by (simp add: sv_rep_def chan_view_def)
  then have "sv_view ?s (junk ?h (?b + 2) + 1, [(0, [root_user])])" by (rule sv_viewI)
  ultimately show ?thesis by auto
qed

definition blank :: server where
  "blank = (let h = \<lparr>nodes = Map.empty, lists = Map.empty, brk = 0, malloc_ok = (\<lambda>_. True), junk = (\<lambda>_. 0)\<rparr>;
                h' = \<lparr>nodes = Map.empty, lists = Map.empty, brk = 0, malloc_ok = (\<lambda>_. True), junk = (\<lambda>_. 0)\<rparr> in
     \<lparr>sv_users = h, sv_chans = h', gc = None, dir = None, current_id = 0, info_channel_id = 0,
      info_res = ResWild, sv_os = \<lparr>script = [], calls = []\<rparr>, mem_ok = (\<lambda>_. True), clock = 0\<rparr>)"

lemma blank_room: "room (sv_users blank)" "room (sv_chans blank)" "\<forall>i. mem_ok blank i"
  by (simp_all add: blank_def room_def)

section \<open>Logging in\<close>

text \<open>The last entry of a view is the global channel.\<close>

lemma view_last:
  assumes "sv_rep s W Au Ac d cs"
  shows "snd W = butlast (snd W) @ [(0, global W)]"
    "list_all2 (chan_view Au) (butlast cs) (butlast (snd W))" "cs = butlast cs @ [last cs]"
proof -
  from assms have all: "list_all2 (chan_view Au) cs (snd W)" "cs \<noteq> []" "ch_id (last cs) = 0"
    by (simp_all add: sv_rep_def)
  from last_view [OF all(1,2)] all(3) have "last (snd W) = (0, global W)" "snd W \<noteq> []"
    by (auto simp: global_def chan_view_def prod_eq_iff)
  then show V: "snd W = butlast (snd W) @ [(0, global W)]" by (metis append_butlast_last_id)
  show cs: "cs = butlast cs @ [last cs]" using all(2) by simp
  from list_all2_lengthD [OF all(1)] have len: "length (butlast cs) = length (butlast (snd W))" by simp
  from all(1) cs V have "list_all2 (chan_view Au) (butlast cs @ [last cs])
      (butlast (snd W) @ [(0, global W)])" by metis
  then show "list_all2 (chan_view Au) (butlast cs) (butlast (snd W))"
    by (simp only: list_all2_append [OF len])
qed

lemma sv_update_global:
  assumes S: "sv_rep s W Au Ac d cs" and lg: "ch_users (last cs) = Some lg"
    and uh: "rep uh (Au(lg \<mapsto> (int (length us'), us')))" "room uh"
  shows "sv_view (s\<lparr>sv_users := uh\<rparr>) (fst W, butlast (snd W) @ [(0, us')])"
proof -
  have "sv_rep s W Au Ac d (butlast cs @ last cs # [])" using S view_last(3) [OF S] by simp
  from sv_update_users [OF this lg view_last(1,2) [OF S] uh] show ?thesis by (auto intro: sv_viewI)
qed

lemma login_sim:
  assumes S: "sv_rep s W Au Ac d cs" and g: "gc s = Some g" and ne: "global W \<noteq> []"
  shows "\<exists>uh. push_channel_user (sv_users s) g (Some u) = Inr (1, uh) \<and>
    sv_view (s\<lparr>sv_users := uh\<rparr>) (view_login u W)"
proof -
  from sv_gc [OF S] g obtain lg where
    lg: "ch_users g = Some lg" "ch_users (last cs) = Some lg"
      "Au lg = Some (int (length (global W)), global W)" by auto
  from S have R: "rep (sv_users s) Au" "room (sv_users s)" by (simp_all add: sv_rep_def)
  from push_new_store [OF R(1) lg(3) ne R(2), of u] obtain uh where
    uh: "push_new (sv_users s) (Some lg) (Some u) = Inr (1, uh)" "room uh"
      "rep uh (Au(lg \<mapsto> (int (length (u # global W)), u # global W)))" by (auto simp: add.commute)
  from sv_update_global [OF S lg(2) uh(3,2)] uh(1) lg(1) show ?thesis
    by (simp add: push_channel_user_push_new view_login_def)
qed


end
