(* ===== verification/Logout.thy ===== *)
theory Logout
  imports Server_Spec
begin

text \<open>
  Logging out: the walk of \<open>cpt_logout_response\<close> over the directory, which deletes the user from
  every channel and deletes the channels that become empty while it walks over them, against an
  operation on views.
\<close>

section \<open>The specification\<close>

text \<open>One round of the walk, on the entries before the position and the entry at it: an entry
  that becomes empty makes the first entry with its id disappear.\<close>

definition logout_round ::
  "int \<Rightarrow> u16 \<times> user list \<Rightarrow> (u16 \<times> user list) list \<Rightarrow> (u16 \<times> user list) list res" where
  "logout_round k v V1 =
     (if fst v = 0 then Inr (V1 @ [v])
      else rbind (view_delete k (snd v)) (\<lambda>(_, us').
        Inr (if us' = [] then del_first (\<lambda>w. fst w = fst v) (V1 @ [(fst v, us')])
             else V1 @ [(fst v, us')])))"

definition view_logout :: "int \<Rightarrow> view \<Rightarrow> (int \<times> view) res" where
  "view_logout k W =
     rbind (fold_res (logout_round k) (snd W) []) (\<lambda>V'.
     rbind (view_delete k (global W)) (\<lambda>(found, us').
       Inr (if found then SUCCESS else FAILURE,
            fst W - int (length (snd W)) + int (length V'), butlast V' @ [(0, us')])))"

lemma fold_round_last:
  assumes "fold_res (logout_round k) V V1 = Inr V'" "V \<noteq> []" "fst (last V) = 0"
  shows "V' \<noteq> [] \<and> last V' = last V"
proof -
  have V: "V = butlast V @ [last V]" using assms(2) by simp
  from assms(1) show ?thesis
    by (subst (asm) V, unfold fold_res_append) (auto simp: logout_round_def assms(3))
qed

text \<open>With different ids, this is a pass over the entries that drops those left empty.\<close>

fun logout_entries :: "int \<Rightarrow> (u16 \<times> user list) list \<Rightarrow> (u16 \<times> user list) list res" where
  "logout_entries k [] = Inr []"
| "logout_entries k (v # V) =
     (if fst v = 0 then rbind (logout_entries k V) (\<lambda>V'. Inr (v # V'))
      else rbind (view_delete k (snd v)) (\<lambda>(_, us').
        rbind (logout_entries k V) (\<lambda>V'. Inr (if us' = [] then V' else (fst v, us') # V'))))"

section \<open>The walk\<close>

lemma seg_same_start: "seg f p xs None \<Longrightarrow> seg g q xs None \<Longrightarrow> p = q"
  by (cases xs) auto

lemma sv_rep_nodes:
  assumes "sv_rep s W Au Ac d cs" "repN (sv_chans s) N Ac"
  shows "\<exists>L. lists (sv_chans s) d = Some L \<and> seg (nodes (sv_chans s)) (ll_head L) (N d) None \<and>
    map snd (N d) = cs"
  using assms list_head [OF repN_list [OF assms(2)], of d "fst W" cs] by (auto simp: sv_rep_def)

lemma map_del_first: "map f (del_first (\<lambda>x. P (f x)) xs) = del_first P (map f xs)"
  by (induction xs) auto

text \<open>Deleting a channel at or before the position leaves the rest of the walk as it was.\<close>

lemma channel_delete_nodes:
  assumes R: "repN h N A" "A d = Some (n, cs)" and N: "N d = kn @ rn"
    and kn: "\<exists>z\<in>set kn. ch_id (snd z) = k" and seg: "seg (nodes h) r rn None" and "room h"
  shows "\<exists>h' kn'. channel_delete h (Some d) (uint k) = Inr (1, h') \<and> room h' \<and>
     map snd kn' = del_first (\<lambda>c. ch_id c = k) (map snd kn) \<and>
     repN h' (N(d := kn' @ rn)) (A(d \<mapsto> (n - 1, del_first (\<lambda>c. ch_id c = k) cs))) \<and>
     seg (nodes h') r rn None"
proof -
  let ?P = "\<lambda>c. ch_id c = k" and ?kn' = "del_first (\<lambda>z. ch_id (snd z) = k) kn"
  from list_head [OF repN_list [OF R]] N have cs: "cs = map snd (kn @ rn)" by auto
  have "\<exists>h'. delete_node h (Some d) (find_channel_id (uint k)) = Inr (1, h') \<and>
      repN h' (N(d := del_first (\<lambda>z. ?P (snd z)) (N d))) (A(d \<mapsto> (n - 1, del_first ?P cs)))"
    by (rule delete_node_hit_nodes [OF R]) (use kn in \<open>auto simp: find_channel_id_def cs\<close>)
  then obtain h' where h': "delete_node h (Some d) (find_channel_id (uint k)) = Inr (1, h')"
      "repN h' (N(d := ?kn' @ rn)) (A(d \<mapsto> (n - 1, del_first ?P cs)))"
    unfolding N del_first_append_hit [OF kn] by auto
  from list_head [OF repN_list [OF h'(2)], of d] have "\<exists>q. seg (nodes h') q (?kn' @ rn) None" by auto
  then obtain r' where r': "seg (nodes h') r' rn None" by (auto simp: seg_append)
  have "map snd ?kn' = del_first ?P (map snd kn)" by (rule map_del_first)
  with seg_same_start [OF seg r'] r' h' delete_node_room [OF assms(6) h'(1)] show ?thesis
    by (auto simp: channel_delete_def intro!: exI [of _ h'] exI [of _ ?kn'])
qed

text \<open>The state of the walk: the directory has the nodes \<open>kn\<close> of the entries \<open>V1\<close> before the
  position \<open>p\<close> and the nodes \<open>rn\<close> of the entries \<open>V2\<close> from it on; \<open>e\<close> is the excess of the
  length field.\<close>

definition walking ::
  "server \<Rightarrow> int \<Rightarrow> (u16 \<times> user list) list \<Rightarrow> (u16 \<times> user list) list \<Rightarrow> addr option \<Rightarrow>
   (addr \<times> channel) list \<Rightarrow> bool" where
  "walking s e V1 V2 p rn \<longleftrightarrow> (\<exists>Au Ac d N kn.
     sv_rep s (e + int (length (V1 @ V2)), V1 @ V2) Au Ac d (map snd (kn @ rn)) \<and>
     repN (sv_chans s) N Ac \<and> N d = kn @ rn \<and> seg (nodes (sv_chans s)) p rn None \<and>
     list_all2 (chan_view Au) (map snd kn) V1)"

lemma walkingI:
  "sv_rep s (n, V1 @ V2) Au Ac d (map snd (kn @ rn)) \<Longrightarrow> n = e + int (length (V1 @ V2)) \<Longrightarrow>
   repN (sv_chans s) N Ac \<Longrightarrow> N d = kn @ rn \<Longrightarrow> seg (nodes (sv_chans s)) p rn None \<Longrightarrow>
   list_all2 (chan_view Au) (map snd kn) V1 \<Longrightarrow> walking s e V1 V2 p rn"
  unfolding walking_def by blast

lemma walking_length: "walking s e V1 V2 p rn \<Longrightarrow> length V2 = length rn"
  by (auto simp: walking_def sv_rep_def dest!: list_all2_lengthD)

lemma walking_head:
  "walking s e V1 V2 p ((a, c) # rn) \<Longrightarrow>
   \<exists>r. p = Some a \<and> nodes (sv_chans s) a = Some \<lparr>ndata = Some c, nxt = r\<rparr> \<and>
       seg (nodes (sv_chans s)) r rn None"
  by (auto simp: walking_def)

lemma logout_channel_zero: "ch_id c = 0 \<Longrightarrow> logout_channel s c = Inr s"
  by (simp add: logout_channel_def)

lemma walking_remove:
  assumes S: "sv_rep s (e + int (length (V1 @ (i, us) # V2)), V1 @ (i, us) # V2) Au Ac d (map snd kn @ c # map snd rn)"
    and N: "repN (sv_chans s) N Ac" "N d = kn @ (a, c) # rn"
    and V1: "list_all2 (chan_view Au) (map snd (kn @ [(a, c)])) (V1 @ [(i, us)])"
    and r: "seg (nodes (sv_chans s)) r rn None" and i: "i \<noteq> 0" "ch_id c = i"
  obtains ch where "channel_delete (sv_chans s) (Some d) (uint i) = Inr (1, ch)"
    "walking (s\<lparr>sv_chans := ch\<rparr>) e (del_first (\<lambda>w. fst w = i) (V1 @ [(i, us)])) V2 r rn"
proof -
  let ?P = "\<lambda>c. ch_id c = i" and ?Q = "\<lambda>w. fst w = i" and ?n = "e + int (length (V1 @ (i, us) # V2)) - 1"
  from S have dir: "dir s = Some d" "Ac d = Some (?n + 1, map snd kn @ c # map snd rn)" "room (sv_chans s)"
    by (simp_all add: sv_rep_def)
  from channel_delete_nodes [OF N(1) dir(2), of "kn @ [(a, c)]" rn i r] N(2) i(2) r dir(3)
  obtain ch kn' where ch: "channel_delete (sv_chans s) (Some d) (uint i) = Inr (1, ch)" "room ch"
    "map snd kn' = del_first ?P (map snd (kn @ [(a, c)]))"
    "repN ch (N(d := kn' @ rn)) (Ac(d \<mapsto> (?n, del_first ?P (map snd kn @ c # map snd rn))))"
    "seg (nodes ch) r rn None" by auto
  have df: "del_first ?P (map snd kn @ c # map snd rn) = map snd (kn' @ rn)"
    using del_first_append_hit [of "map snd (kn @ [(a, c)])" ?P "map snd rn"] i(2) ch(3) by simp
  have dq: "del_first ?Q (V1 @ (i, us) # V2) = del_first ?Q (V1 @ [(i, us)]) @ V2"
    using del_first_append_hit [of "V1 @ [(i, us)]" ?Q V2] by simp
  have len: "length (del_first ?Q (V1 @ [(i, us)])) = length V1" by (simp add: length_del_first)
  have "rep ch (Ac(d \<mapsto> (?n, del_first ?P (map snd kn @ c # map snd rn))))" using ch(4) by (auto simp: rep_def)
  from sv_remove_channel [OF S i(1) this ch(2)]
  have "sv_rep (s\<lparr>sv_chans := ch\<rparr>) (?n, del_first ?Q (V1 @ [(i, us)]) @ V2) Au
      (Ac(d \<mapsto> (?n, map snd (kn' @ rn)))) d (map snd (kn' @ rn))"
    unfolding snd_conv dq df .
  then have "walking (s\<lparr>sv_chans := ch\<rparr>) e (del_first ?Q (V1 @ [(i, us)])) V2 r rn"
    by (rule walkingI [where N = "N(d := kn' @ rn)"])
      (use ch(4,5) df len list_all2_del_first [OF V1] in \<open>simp_all add: ch(3)\<close>)
  with ch(1) that show ?thesis by blast
qed

lemma logout_channel_view:
  assumes w: "walking s e V1 (v # V2) p ((a, c) # rn)" and r: "seg (nodes (sv_chans s)) r rn None"
  shows "case logout_round (current_id s) v V1 of Inl err \<Rightarrow> logout_channel s c = Inl err
    | Inr V1' \<Rightarrow> \<exists>s'. logout_channel s c = Inr s' \<and> same_session s s' \<and> walking s' e V1' V2 r rn"
proof -
  from w obtain Au Ac d N kn where
    S: "sv_rep s (e + int (length (V1 @ v # V2)), V1 @ v # V2) Au Ac d (map snd kn @ c # map snd rn)"
    and N: "repN (sv_chans s) N Ac" "N d = kn @ (a, c) # rn"
    and V1: "list_all2 (chan_view Au) (map snd kn) V1" by (auto simp: walking_def)
  from S list_all2_lengthD [OF V1] have cv: "chan_view Au c v"
    by (simp add: sv_rep_def list_all2_append)
  then obtain l where c: "ch_id c = fst v" "ch_users c = Some l" "Au l = Some (int (length (snd v)), snd v)"
    by (auto simp: chan_view_def)
  let ?k = "current_id s"
  show ?thesis
  proof (cases "fst v = 0")
    case True
    have "walking s e (V1 @ [v]) V2 r rn"
      by (rule walkingI [where kn = "kn @ [(a, c)]" and N = N and Au = Au and Ac = Ac])
        (use S N V1 cv r in \<open>auto intro: list_all2_appendI\<close>)
    with True c show ?thesis by (simp add: logout_round_def logout_channel_zero)
  next
    case False
    have R: "rep (sv_users s) Au" "room (sv_users s)" using S by (simp_all add: sv_rep_def)
    note del = user_delete_view [OF R(1) c(3) R(2), of ?k]
    show ?thesis
    proof (cases "view_delete ?k (snd v)")
      case (Inl err)
      with del False c show ?thesis by (simp add: logout_round_def logout_channel_def)
    next
      case (Inr bu)
      then obtain b us' where bu: "view_delete ?k (snd v) = Inr (b, us')" by (cases bu) auto
      with del obtain uh where uh: "user_delete (sv_users s) (Some l) ?k = Inr (if b then 1 else 0, uh)"
          "rep uh (Au(l \<mapsto> (int (length us'), us')))" "room uh" by auto
      from deref_list_rep [OF uh(2), of l] obtain L where
        L: "deref_list uh (Some l) = Inr L" "ll_length L = int (length us')" by auto
      define s1 Au1 where s1: "s1 = s\<lparr>sv_users := uh\<rparr>" and Au1: "Au1 = Au(l \<mapsto> (int (length us'), us'))"
      have S1: "sv_rep s1 (e + int (length (V1 @ v # V2)), V1 @ (fst v, us') # V2) Au1 Ac d
          (map snd kn @ c # map snd rn)"
        using sv_update_users [OF S c(2), of V1 "fst v" "snd v" V2 uh us'] V1 uh
        unfolding s1 Au1 by simp
      then have "list_all2 (chan_view Au1) (map snd kn) V1" "chan_view Au1 c (fst v, us')"
        using list_all2_lengthD [OF V1] by (simp_all add: sv_rep_def list_all2_append)
      then have V1': "list_all2 (chan_view Au1) (map snd (kn @ [(a, c)])) (V1 @ [(fst v, us')])"
        by (simp add: list_all2_appendI)
      show ?thesis
      proof (cases "us' = []")
        case us': False
        have "walking s1 e (V1 @ [(fst v, us')]) V2 r rn"
          by (rule walkingI [where kn = "kn @ [(a, c)]" and N = N and Au = Au1 and Ac = Ac])
            (use S1 N V1' r in \<open>simp_all add: s1\<close>)
        moreover have "logout_channel s c = Inr s1"
          using False us' c uh L by (simp add: logout_channel_def s1)
        ultimately show ?thesis using False us' bu by (simp add: logout_round_def s1)
      next
        case us': True
        obtain ch where ch: "channel_delete (sv_chans s1) (Some d) (uint (fst v)) = Inr (1, ch)"
            "walking (s1\<lparr>sv_chans := ch\<rparr>) e (del_first (\<lambda>w. fst w = fst v) (V1 @ [(fst v, us')])) V2 r rn"
          by (rule walking_remove [of s1 e V1 "fst v" us' V2 Au1 Ac d kn c rn N a r])
            (use S1 N V1' r False c(1) in \<open>simp_all add: s1\<close>)
        moreover have "dir s = Some d" using S by (simp add: sv_rep_def)
        ultimately have "logout_channel s c = Inr (s1\<lparr>sv_chans := ch\<rparr>)"
          using False us' c uh L by (simp add: logout_channel_def s1)
        with ch(2) show ?thesis using False us' bu by (simp add: logout_round_def s1)
      qed
    qed
  qed
qed

lemma logout_walk_view:
  "walking s e V1 V2 p rn \<Longrightarrow> length rn < m \<Longrightarrow>
   case fold_res (logout_round (current_id s)) V2 V1 of Inl err \<Rightarrow> logout_walk m s p = Inl err
   | Inr V' \<Rightarrow> \<exists>s'. logout_walk m s p = Inr s' \<and> same_session s s' \<and> walking s' e V' [] None []"
proof (induction rn arbitrary: s V1 V2 p m)
  case Nil
  from walking_length [OF Nil(1)] have "V2 = []" by simp
  moreover from Nil(1) have "p = None" by (auto simp: walking_def)
  ultimately show ?case using Nil by (cases m) auto
next
  case (Cons ac rn)
  obtain a c where ac: "ac = (a, c)" by (cases ac)
  from Cons.prems(2) obtain m' where m: "m = Suc m'" "length rn < m'" by (cases m) auto
  from walking_length [OF Cons.prems(1)] obtain v V3 where V2: "V2 = v # V3" by (cases V2) auto
  from walking_head [OF Cons.prems(1) [unfolded ac]] obtain r where
    r: "p = Some a" "nodes (sv_chans s) a = Some \<lparr>ndata = Some c, nxt = r\<rparr>"
      "seg (nodes (sv_chans s)) r rn None" by auto
  have step: "logout_walk m s p = rbind (logout_channel s c) (\<lambda>s'. logout_walk m' s' r)"
    using r m by (simp add: Let_def)
  note round = logout_channel_view [OF Cons.prems(1) [unfolded ac V2] r(3)]
  show ?case
  proof (cases "logout_round (current_id s) v V1")
    case (Inl err)
    with round V2 step show ?thesis by simp
  next
    case (Inr V1')
    with round obtain s' where s': "logout_channel s c = Inr s'" "same_session s s'"
      "walking s' e V1' V3 r rn" by auto
    from Cons.IH [OF s'(3) m(2)] s'(1,2) Inr V2 step show ?thesis
      by (auto simp: same_session_def split: sum.splits)
  qed
qed

lemma fold_round_distinct:
  "distinct (map fst (V1 @ V)) \<Longrightarrow>
   fold_res (logout_round k) V V1 = rbind (logout_entries k V) (\<lambda>V'. Inr (V1 @ V'))"
proof (induction V arbitrary: V1)
  case Nil
  then show ?case by simp
next
  case (Cons v V)
  obtain i us where v: "v = (i, us)" by (cases v)
  have IH: "fold_res (logout_round k) V (V1 @ [(i, us')]) =
      rbind (logout_entries k V) (\<lambda>V'. Inr ((V1 @ [(i, us')]) @ V'))" for us'
    by (rule Cons.IH) (use Cons.prems v in auto)
  have IH0: "fold_res (logout_round k) V V1 = rbind (logout_entries k V) (\<lambda>V'. Inr (V1 @ V'))"
    by (rule Cons.IH) (use Cons.prems v in auto)
  from Cons.prems v have df: "del_first (\<lambda>w. fst w = i) (V1 @ [(i, us')]) = V1" for us'
    using del_first_split [of i fst V1 "(i, us')" "[]"] by (simp add: image_iff)
  have step: "logout_round k v V1 = (if i = 0 then Inr (V1 @ [(i, us)])
      else rbind (view_delete k us) (\<lambda>(_, us'). Inr (if us' = [] then V1 else V1 @ [(i, us')])))"
    by (simp only: logout_round_def v fst_conv snd_conv df)
  show ?case
  proof (cases "i = 0")
    case True
    then show ?thesis using IH [of us] step by (simp add: v rbind_assoc)
  next
    case False
    then show ?thesis
      by (cases "view_delete k us") (auto simp: v step [unfolded v] IH IH0 rbind_assoc)
  qed
qed

section \<open>The whole operation\<close>

lemma walking_start:
  assumes S: "sv_rep s W Au Ac d cs"
  shows "\<exists>p a c r rn. get_head_channel (sv_chans s) (dir s) = Inr p \<and> p = Some a \<and>
    deref_node (sv_chans s) p = Inr \<lparr>ndata = Some c, nxt = r\<rparr> \<and> (r = None \<longleftrightarrow> rn = []) \<and>
    walking s (fst W - int (length (snd W))) [] (snd W) p ((a, c) # rn) \<and>
    length ((a, c) # rn) < fuel (sv_chans s)"
proof -
  from S obtain N where N: "repN (sv_chans s) N Ac" by (auto simp: sv_rep_def rep_def)
  from sv_rep_nodes [OF S N] obtain L where
    L: "lists (sv_chans s) d = Some L" "seg (nodes (sv_chans s)) (ll_head L) (N d) None"
      "map snd (N d) = cs" by auto
  from S have d: "dir s = Some d" "cs \<noteq> []" "Ac d = Some (fst W, cs)" by (simp_all add: sv_rep_def)
  from L d obtain a c rn where rn: "N d = (a, c) # rn" by (cases "N d") auto
  with L(2) obtain r where r: "ll_head L = Some a" "nodes (sv_chans s) a = Some \<lparr>ndata = Some c, nxt = r\<rparr>"
      "seg (nodes (sv_chans s)) r rn None" by auto
  from r(3) have "r = None \<longleftrightarrow> rn = []" by (cases rn) auto
  moreover have "walking s (fst W - int (length (snd W))) [] (snd W) (Some a) ((a, c) # rn)"
    by (rule walkingI [where kn = "[]" and N = N and Au = Au and Ac = Ac and n = "fst W"])
      (use S N L rn r(1) in simp_all)
  ultimately show ?thesis
    using L(1) d(1) r rep_list_fuel [OF N d(3)] rn
    by (auto simp: get_head_channel_def get_head_node_def)
qed

lemma walking_view:
  "walking s e V [] None [] \<Longrightarrow> \<exists>Au Ac d cs. sv_rep s (e + int (length V), V) Au Ac d cs"
  by (auto simp: walking_def)

lemma logout_channels_view:
  assumes S: "sv_rep s W Au Ac d cs"
  shows "\<exists>p nd. get_head_channel (sv_chans s) (dir s) = Inr p \<and> deref_node (sv_chans s) p = Inr nd \<and>
    (case fold_res (logout_round (current_id s)) (snd W) [] of
       Inl e \<Rightarrow> nxt nd \<noteq> None \<and> logout_walk (fuel (sv_chans s)) s p = Inl e
     | Inr V' \<Rightarrow> \<exists>s' Au' Ac' d' cs'.
         (if nxt nd = None then Inr s else logout_walk (fuel (sv_chans s)) s p) = Inr s' \<and>
         same_session s s' \<and>
         sv_rep s' (fst W - int (length (snd W)) + int (length V'), V') Au' Ac' d' cs')"
proof -
  from walking_start [OF S] obtain p a c r rn where
    p: "get_head_channel (sv_chans s) (dir s) = Inr p" "p = Some a"
      "deref_node (sv_chans s) p = Inr \<lparr>ndata = Some c, nxt = r\<rparr>" "r = None \<longleftrightarrow> rn = []"
    and w: "walking s (fst W - int (length (snd W))) [] (snd W) p ((a, c) # rn)"
      "length ((a, c) # rn) < fuel (sv_chans s)" by blast
  note walk = logout_walk_view [OF w]
  show ?thesis
  proof (cases r)
    case None
    with p(4) have "length (snd W) = 1" using walking_length [OF w(1)] by simp
    moreover have "fst (last (snd W)) = 0"
      using view_last(1) [OF S] by (metis fst_conv last_snoc)
    ultimately have "fold_res (logout_round (current_id s)) (snd W) [] = Inr (snd W)"
      by (cases "snd W") (auto simp: logout_round_def)
    moreover from S have "sv_rep s (fst W - int (length (snd W)) + int (length (snd W)), snd W) Au Ac d cs"
      by simp
    ultimately show ?thesis
      using None p same_session_refl [of s] by simp blast
  next
    case (Some b)
    with walk p walking_view show ?thesis
      by (fastforce split: sum.splits)
  qed
qed

lemma sv_rep_delete_global:
  assumes S: "sv_rep s (n, V) Au Ac d cs" and g: "gc s = Some g"
  shows "case view_delete (current_id s) (global (n, V)) of
      Inl e \<Rightarrow> user_delete (sv_users s) (ch_users g) (current_id s) = Inl e
    | Inr (b, us') \<Rightarrow> \<exists>uh. user_delete (sv_users s) (ch_users g) (current_id s) = Inr (if b then 1 else 0, uh) \<and>
        sv_view (s\<lparr>sv_users := uh\<rparr>) (n, butlast V @ [(0, us')])"
proof -
  from S have all: "rep (sv_users s) Au" "room (sv_users s)" by (simp_all add: sv_rep_def)
  from sv_gc [OF S] g obtain lg where
    lg: "ch_users g = Some lg" "ch_users (last cs) = Some lg"
      "Au lg = Some (int (length (global (n, V))), global (n, V))" by auto
  note del = user_delete_view [OF all(1) lg(3) all(2), of "current_id s"]
  show ?thesis
  proof (cases "view_delete (current_id s) (global (n, V))")
    case (Inl e)
    with del lg(1) show ?thesis by simp
  next
    case (Inr bu)
    obtain b us' where bu: "bu = (b, us')" by (cases bu)
    with del Inr obtain uh where
      "user_delete (sv_users s) (Some lg) (current_id s) = Inr (if b then 1 else 0, uh)"
      "rep uh (Au(lg \<mapsto> (int (length us'), us')))" "room uh" by auto
    with sv_update_global [OF S lg(2)] Inr bu lg(1) show ?thesis by simp
  qed
qed

text \<open>Logging out, in general: the fold of the rounds over the directory, then the global
  channel.\<close>

lemma logout_sim:
  assumes "sv_view s W"
  shows "refines s (cpt_logout_response s) (view_logout (current_id s) W)"
proof -
  from assms obtain Au Ac d cs where S: "sv_rep s W Au Ac d cs" by (auto simp: sv_view_def)
  from sv_gc [OF S] obtain g where g: "gc s = Some g" by auto
  let ?f = "fold_res (logout_round (current_id s)) (snd W) []"
  let ?n = "\<lambda>V'. fst W - int (length (snd W)) + int (length V')"
  from logout_channels_view [OF S] obtain p nd where
    p: "get_head_channel (sv_chans s) (dir s) = Inr p" "deref_node (sv_chans s) p = Inr nd"
    and cases: "case ?f of
       Inl e \<Rightarrow> nxt nd \<noteq> None \<and> logout_walk (fuel (sv_chans s)) s p = Inl e
     | Inr V' \<Rightarrow> \<exists>s' Au' Ac' d' cs'.
         (if nxt nd = None then Inr s else logout_walk (fuel (sv_chans s)) s p) = Inr s' \<and>
         same_session s s' \<and> sv_rep s' (?n V', V') Au' Ac' d' cs'"
    by blast
  show ?thesis
  proof (cases ?f)
    case (Inl e)
    with cases have "nxt nd \<noteq> None" "logout_walk (fuel (sv_chans s)) s p = Inl e" by simp_all
    with Inl p g show ?thesis
      by (auto simp: cpt_logout_response_def view_logout_def refines_def)
  next
    case (Inr V')
    from cases Inr obtain s' Au' Ac' d' cs' where
      s': "(if nxt nd = None then Inr s else logout_walk (fuel (sv_chans s)) s p) = Inr s'"
        "same_session s s'" "sv_rep s' (?n V', V') Au' Ac' d' cs'" by auto
    have V: "snd W \<noteq> []" "fst (last (snd W)) = 0"
      using view_last(1) [OF S] by (metis snoc_eq_iff_butlast, metis fst_conv last_snoc)
    from fold_round_last [OF Inr V] have gl: "global (?n V', V') = global W"
      by (simp add: global_def)
    from s'(2) g have g': "gc s' = Some g" "current_id s' = current_id s" by (simp_all add: same_session_def)
    have step: "cpt_logout_response s =
        rbind (user_delete (sv_users s') (ch_users g) (current_id s')) (\<lambda>(lo_res, uh).
          Inr (if lo_res \<noteq> 0 then SUCCESS else FAILURE, s'\<lparr>sv_users := uh\<rparr>))"
      unfolding cpt_logout_response_def by (simp only: g option.case p rbind_Inr s'(1))
    from sv_rep_delete_global [OF s'(3) g'(1)] s'(2) show ?thesis
      unfolding step gl g'(2)
      by (cases "view_delete (current_id s) (global W)")
        (auto simp: view_logout_def refines_def Inr same_session_def)
  qed
qed

end
