(* ===== verification/Events.thy ===== *)
theory Events
  imports Logout
begin

text \<open>
  The events of server_events.c: each runs a request handler and answers the client, or, for
  SEND, the other members of the channel. What is printed on the server's terminal is left out,
  and \<open>strdup\<close> is taken to succeed.
\<close>

section \<open>Answers\<close>

definition send_to :: "int \<Rightarrow> byte list \<Rightarrow> u32 \<Rightarrow> server \<Rightarrow> server res" where
  "send_to fd out n s = rbind (tcp_server_send fd out (uint n) (sv_os s)) (\<lambda>(_, w).
     Inr (s\<lparr>sv_os := w\<rparr>))"

definition respond :: "nat \<Rightarrow> cpt_response \<Rightarrow> server \<Rightarrow> server res" where
  "respond cap r s = rbind (cpt_serialize_response cap r) (\<lambda>(n, out).
     send_to (current_id s) out n s)"

text \<open>The two bytes of a \<open>uint16_t\<close> variable in memory, on a little-endian machine.\<close>

definition u16_bytes :: "u16 \<Rightarrow> byte list" where
  "u16_bytes w = [ucast w, ucast (drop_bit 8 w)]"

section \<open>The events\<close>

text \<open>A failed join frees its message before the response that points to it is serialized.\<close>

definition join_channel_event :: "server \<Rightarrow> u16 \<Rightarrow> server res" where
  "join_channel_event s cid =
     rbind (cpt_join_channel_response s cid) (\<lambda>(join_res, s1).
     (case alloc s1 of (ok, s2) \<Rightarrow>
     (case cpt_response_init ok of
        None \<Rightarrow> Inl NullDeref
      | Some r \<Rightarrow>
          if join_res = SUCCESS then
            respond MD_BUFF_SIZE (r\<lparr>code := JOIN_CHANNEL, data_size := 2, data := Some (u16_bytes cid)\<rparr>) s2
          else Inl Dangling)))"

definition leave_channel_event :: "server \<Rightarrow> u16 \<Rightarrow> server res" where
  "leave_channel_event s cid =
     rbind (cpt_leave_channel_response s cid) (\<lambda>(lc_res, s1).
     (case alloc s1 of (ok, s2) \<Rightarrow>
     (case cpt_response_init ok of
        None \<Rightarrow> Inl NullDeref
      | Some r \<Rightarrow>
          let m = (if lc_res = SUCCESS
                   then str ''Successfully left channel '' @ decimal (unat cid)
                   else str ''Failed to leave channel'');
              c = (if lc_res = SUCCESS then LEAVE_CHANNEL else of_int FAILURE) in
          respond MD_BUFF_SIZE
            (r\<lparr>code := c, data_size := of_nat (length m), data := Some (m @ [0])\<rparr>) s2)))"

definition logout_event :: "server \<Rightarrow> server res" where
  "logout_event s = rbind (cpt_logout_response s) (\<lambda>(_, s'). Inr s')"

definition create_channel_event :: "server \<Rightarrow> byte list option \<Rightarrow> server res" where
  "create_channel_event s id_list =
     rbind (cpt_create_channel_response s id_list) (\<lambda>(cc_res, s1).
     (case alloc s1 of (ok, s2) \<Rightarrow>
     rbind (deref_list (sv_chans s2) (dir s2)) (\<lambda>L.
     let ncid = word_of_int (ll_length L - 1) in
     (case cpt_response_init ok of
        None \<Rightarrow> Inl NullDeref
      | Some r \<Rightarrow>
          respond MD_BUFF_SIZE
            (if cc_res = SUCCESS
             then r\<lparr>data := Some (u16_bytes ncid), data_size := 2, code := CREATE_CHANNEL\<rparr>
             else r\<lparr>data := Some (str ''Failed to create channel...'' @ [0]), data_size := 8,
                    code := of_int FAILURE\<rparr>) s2))))"

definition res_of :: "cpt_response option \<Rightarrow> res_ptr" where
  "res_of r = (case r of None \<Rightarrow> ResNull | Some x \<Rightarrow> ResLive x)"

definition get_users_event :: "server \<Rightarrow> int \<Rightarrow> server res" where
  "get_users_event s chan_id =
     (case alloc s of (ok, s1) \<Rightarrow>
     rbind (cpt_get_users_response (s1\<lparr>info_res := res_of (cpt_response_init ok)\<rparr>)
         (word_of_int chan_id)) (\<lambda>(_, s2).
     rbind (deref_res s2) (\<lambda>r.
     rbind (respond LG_BUFF_SIZE r s2) info_res_destroy)))"

definition send_to_user :: "byte list \<Rightarrow> u32 \<Rightarrow> user option \<Rightarrow> server \<Rightarrow> server res" where
  "send_to_user out n u s = (case u of None \<Rightarrow> Inl NullDeref
     | Some v \<Rightarrow>
         if uid v \<noteq> 0 \<and> uint (uid v) \<noteq> current_id s then send_to (uint (uid v)) out n s
         else Inr s)"

definition send_event :: "server \<Rightarrow> byte list option \<Rightarrow> int \<Rightarrow> server res" where
  "send_event s m cid =
     rbind (find_channel (sv_chans s) (dir s) (word_of_int cid)) (\<lambda>channel.
     rbind (case channel of None \<Rightarrow> Inr s
       | Some c \<Rightarrow>
           rbind (get_head_user (sv_users s) (ch_users c)) (\<lambda>user_node.
           if user_node = None then Inr s
           else
             (case alloc s of (ok, s1) \<Rightarrow>
             let s2 = s1\<lparr>info_res := res_of (cpt_response_init ok)\<rparr> in
             rbind (deref_res s2) (\<lambda>r.
             rbind (case m of None \<Rightarrow> Inl NullDeref | Some a \<Rightarrow> cstring a) (\<lambda>t.
             let r' = r\<lparr>code := SEND, data_size := of_nat (length t), data := Some (t @ [0])\<rparr>;
                 s3 = s2\<lparr>info_res := ResLive r'\<rparr> in
             rbind (cpt_serialize_response LG_BUFF_SIZE r') (\<lambda>(n, out).
               iter_nodes (fuel (sv_users s3)) (sv_users s3) user_node (send_to_user out n) s3))))))
       info_res_destroy)"

definition handle_new_accept :: "int \<Rightarrow> os \<Rightarrow> (int \<times> os) res" where
  "handle_new_accept listen_fd w = tcp_server_accept listen_fd w"

text \<open>The size that \<open>recv\<close> reports becomes a \<open>size_t\<close>: the -1 of a failure is a block size that no
  allocator grants.\<close>

definition received_request :: "bool \<Rightarrow> bool \<Rightarrow> byte list \<Rightarrow> int \<Rightarrow> cpt_request res" where
  "received_request ok1 ok2 req_buf req_size =
     cpt_parse_request (ok1, ok2 \<and> 0 \<le> req_size) req_buf (nat (req_size mod 2 ^ 64))"

text \<open>The registration of the user of an accepted login.\<close>

definition login_step :: "server \<Rightarrow> int \<Rightarrow> byte list option \<Rightarrow> (int \<times> server) res" where
  "login_step s3 new_fd m =
     rbind (gc_users s3) (\<lambda>gu.
       if gu = None then Inr (0, s3)
       else (case alloc s3 of (uok, s4) \<Rightarrow>
         rbind (user_init uok new_fd new_fd m) (\<lambda>user.
         (case (user, gc s4) of
            (Some u, Some g) \<Rightarrow>
              rbind (push_channel_user (sv_users s4) g (Some u)) (\<lambda>(push_res, uh).
                Inr (push_res, s4\<lparr>sv_users := uh\<rparr>))
          | _ \<Rightarrow> Inr (0, s4)))))"

definition login_event :: "server \<Rightarrow> int \<Rightarrow> (int \<times> server) res" where
  "login_event s listen_fd =
     rbind (handle_new_accept listen_fd (sv_os s)) (\<lambda>(new_fd, w1).
     if new_fd = SYS_CALL_FAIL then Inr (FAILURE, s\<lparr>sv_os := w1\<rparr>)
     else
       (case alloc s of (ok, s0) \<Rightarrow> (case alloc s0 of (ok1, s1) \<Rightarrow> (case alloc s1 of (ok2, s2) \<Rightarrow>
       rbind (tcp_server_recv new_fd (replicate MD_BUFF_SIZE 0) w1) (\<lambda>(req_size, req_buf, w2).
       let s3 = s2\<lparr>current_id := new_fd, sv_os := w2\<rparr> in
       rbind (received_request ok1 ok2 req_buf req_size) (\<lambda>req.
       rbind (cpt_login_response s3 (msg req)) (\<lambda>login_res.
       rbind (if login_res = SUCCESS then login_step s3 new_fd (msg req)
              else Inr (0, s3)) (\<lambda>(push_res, s5).
       (case cpt_response_init ok of
          None \<Rightarrow> Inl NullDeref
        | Some r \<Rightarrow>
            let m = (if push_res \<noteq> 0 then str ''Success!'' else str ''Failure'');
                c = (if push_res \<noteq> 0 then LOGIN else of_int FAILURE) in
            rbind (respond MD_BUFF_SIZE (r\<lparr>code := c, data := Some (m @ [0])\<rparr>) s5) (\<lambda>s6.
              Inr (SUCCESS, s6)))))))))))"

text \<open>
  \<open>handle_event\<close> compares \<open>req->command\<close> with one command after the other and frees the request in
  every branch it takes: the later comparisons read freed memory. \<open>stale\<close> is what they find there
  as the command. A later branch that is taken on it runs on a freed request.
\<close>

definition event_step ::
  "byte \<Rightarrow> byte \<Rightarrow> (server \<Rightarrow> server res) \<Rightarrow> bool \<times> byte \<times> server \<Rightarrow> (bool \<times> byte \<times> server) res" where
  "event_step stale cmd handler = (\<lambda>(freed, c, s).
     if c = cmd then
       if freed then Inl Dangling
       else rbind (handler s) (\<lambda>s'. Inr (True, stale, s'))
     else Inr (freed, c, s))"

definition handle_event :: "byte \<Rightarrow> server \<Rightarrow> cpt_request \<Rightarrow> server res" where
  "handle_event stale s req =
     rbind (event_step stale SEND (\<lambda>s. send_event s (msg req) (uint (channel_id req)))
       (False, command req, s)) (\<lambda>p1.
     rbind (event_step stale GET_USERS (\<lambda>s. get_users_event s (uint (channel_id req))) p1) (\<lambda>p2.
     rbind (event_step stale CREATE_CHANNEL (\<lambda>s. create_channel_event s (msg req)) p2) (\<lambda>p3.
     rbind (event_step stale LEAVE_CHANNEL (\<lambda>s. leave_channel_event s (channel_id req)) p3) (\<lambda>p4.
     rbind (event_step stale JOIN_CHANNEL (\<lambda>s. join_channel_event s (channel_id req)) p4) (\<lambda>(_, _, s').
       Inr s')))))"

end
