(* ===== verification/Requests.thy ===== *)
theory Requests
  imports Events
begin

text \<open>
  What the request handlers do, stated over the directory a client sees: the properties of
  joining, leaving, creating, logging out and listing, each with a state in which it applies.
\<close>

section \<open>States with a given directory\<close>

lemma sv_view_session [simp]:
  "sv_view (s\<lparr>current_id := k\<rparr>) W = sv_view s W" "sv_view (s\<lparr>sv_os := w\<rparr>) W = sv_view s W"
  "sv_view (s\<lparr>info_res := p\<rparr>) W = sv_view s W" "sv_view (s\<lparr>clock := n\<rparr>) W = sv_view s W"
  by (simp_all add: sv_view_def sv_rep_def)

definition alice :: user where
  "alice = \<lparr>uid = 4, uname = Some (str ''alice'' @ [0]), udp_fd_s = 0, udp_fd_r = 0\<rparr>"

definition bob :: user where
  "bob = \<lparr>uid = 5, uname = Some (str ''bob'' @ [0]), udp_fd_s = 0, udp_fd_r = 0\<rparr>"

definition demo :: view where
  "demo = (2, [(1, [bob]), (0, [bob, alice, root_user])])"

lemma login_view:
  assumes "sv_view s W" "global W \<noteq> []"
  shows "\<exists>s'. sv_view s' (view_login u W)"
proof -
  from assms(1) obtain Au Ac d cs where S: "sv_rep s W Au Ac d cs" by (auto simp: sv_view_def)
  from sv_gc [OF S] obtain g where "gc s = Some g" by auto
  from login_sim [OF S this assms(2)] show ?thesis by blast
qed

text \<open>The directory with two users and a channel of one of them is reached from the setup.\<close>

lemma demo_state:
  "\<exists>s. sv_view s demo \<and> current_id s = k \<and> sv_os s = w \<and> info_res s = p"
proof -
  from setup_sim [OF blank_room] obtain s0 where "sv_view s0 (1, [(0, [root_user])])"
    by (auto simp: blank_def)
  from login_view [OF this, of alice] obtain s1 where "sv_view s1 (1, [(0, [alice, root_user])])"
    by (auto simp: view_login_def global_def)
  from login_view [OF this, of bob] obtain s2 where
    s2: "sv_view s2 (1, [(0, [bob, alice, root_user])])"
    by (auto simp: view_login_def global_def)
  let ?s = "s2\<lparr>current_id := 5\<rparr>"
  have "refines ?s (cpt_create_channel_response ?s None) (view_create 5 (1, [(0, [bob, alice, root_user])]))"
    using create_sim [of ?s "(1, [(0, [bob, alice, root_user])])" None] s2 by (simp add: query_reads_def)
  then obtain s3 where "sv_view s3 demo"
    by (auto simp: refines_def view_create_def global_def bob_def demo_def)
  then have "sv_view (s3\<lparr>current_id := k, sv_os := w, info_res := p\<rparr>) demo" by simp
  then show ?thesis by fastforce
qed

section \<open>The setup\<close>

text \<open>C35: The setup of the server succeeds when memory suffices, and reaches a state in which the
  directory holds the global channel alone, with the root user alone. The length field of the
  directory is one more than whatever the fresh block held: it is incremented without having been
  set. The response pointer is not set either.\<close>

theorem setup_view:
  assumes "room (sv_users s)" "room (sv_chans s)" "\<forall>i. mem_ok s i"
  shows "\<exists>s'. server_setup s = Inr (Some s') \<and>
    sv_view s' (junk (sv_chans s) (brk (sv_chans s) + 2) + 1, [(0, [root_user])]) \<and>
    info_res s' = ResWild \<and> current_id s' = 0 \<and> sv_os s' = sv_os s"
  by (rule setup_sim) (rule assms)+

theorem setup_view_witness:
  "\<exists>s'. server_setup blank = Inr (Some s') \<and>
    sv_view s' (junk (sv_chans blank) (brk (sv_chans blank) + 2) + 1, [(0, [root_user])]) \<and>
    info_res s' = ResWild \<and> current_id s' = 0 \<and> sv_os s' = sv_os blank"
  by (rule setup_view) (rule blank_room)+

section \<open>Joining, leaving, creating\<close>

text \<open>C3: Joining a channel is an operation on the directory: it fails when the channel does not
  exist or the user is not in the global channel, changes nothing for a member, and otherwise puts
  the user in front of the first channel with this id, every other channel keeping its
  users.\<close>

theorem join_refines:
  assumes "sv_view s W"
  shows "refines s (cpt_join_channel_response s cid) (view_join (current_id s) cid W)"
  using assms by (rule join_sim)

theorem join_refines_witness:
  "\<exists>s. sv_view s demo \<and> current_id s = 4 \<and> refines s (cpt_join_channel_response s 1)
     (Inr (SUCCESS, 2, [(1, [alice, bob]), (0, [bob, alice, root_user])]))"
proof -
  obtain s where s: "sv_view s demo" "current_id s = 4" using demo_state by blast
  from join_refines [OF s(1), of 1] s(2)
  have "refines s (cpt_join_channel_response s 1) (view_join 4 1 demo)" by simp
  moreover have "view_join 4 1 demo = Inr (SUCCESS, 2, [(1, [alice, bob]), (0, [bob, alice, root_user])])"
    by (simp add: view_join_def demo_def global_def alice_def bob_def)
  ultimately show ?thesis using s by auto
qed

text \<open>C2: Leaving a channel is an operation on the directory: the global channel cannot be left, an
  unknown channel is a failure, a member is taken out of the first channel with this id, and a
  channel that loses its last user disappears. A user who is not in the channel gets a failure
  only if the channel has two users or more; on a channel with a single other user the request
  ends the server in a null dereference.\<close>

theorem leave_refines:
  assumes "sv_view s W"
  shows "refines s (cpt_leave_channel_response s cid) (view_leave (current_id s) cid W)"
  using assms by (rule leave_sim)

theorem leave_refines_witness:
  "\<exists>s. sv_view s demo \<and> current_id s = 5 \<and> refines s (cpt_leave_channel_response s 1)
     (Inr (SUCCESS, 1, [(0, [bob, alice, root_user])]))"
proof -
  obtain s where s: "sv_view s demo" "current_id s = 5" using demo_state by blast
  from leave_refines [OF s(1), of 1] s(2)
  have "refines s (cpt_leave_channel_response s 1) (view_leave 5 1 demo)" by simp
  moreover have "view_leave 5 1 demo = Inr (SUCCESS, 1, [(0, [bob, alice, root_user])])"
    by (simp add: view_leave_def view_delete_def drop_user_def demo_def bob_def)
  ultimately show ?thesis using s by auto
qed

text \<open>C4: Creating a channel puts a new channel in front of the directory, with the requesting
  user as its only member whatever ids the request lists, and with the length field of the
  directory as its id, cut to sixteen bits; the length field is incremented. A client that is
  not in the global channel (its login was refused) ends the server in a null dereference.\<close>

theorem create_refines:
  assumes "sv_view s W" "query_arg id_list"
  shows "refines s (cpt_create_channel_response s id_list) (view_create (current_id s) W)"
  using assms by (intro create_sim query_arg_reads)

theorem create_refines_witness:
  "\<exists>s. sv_view s demo \<and> current_id s = 4 \<and>
     refines s (cpt_create_channel_response s (Some (str ''5 4'' @ [0, 0, 0, 0, 0, 0])))
     (Inr (SUCCESS, 3, [(2, [alice]), (1, [bob]), (0, [bob, alice, root_user])]))"
proof -
  obtain s where s: "sv_view s demo" "current_id s = 4" using demo_state by blast
  let ?q = "Some (str ''5 4'' @ [0, 0, 0, 0, 0, 0])"
  have "0 \<notin> set (str ''5 4'')" by simp
  then have "query_arg ?q" unfolding query_arg_eq by blast
  from create_refines [OF s(1) this] s(2)
  have "refines s (cpt_create_channel_response s ?q) (view_create 4 demo)" by simp
  moreover have "view_create 4 demo =
      Inr (SUCCESS, 3, [(2, [alice]), (1, [bob]), (0, [bob, alice, root_user])])"
    by (simp add: view_create_def demo_def global_def alice_def bob_def)
  ultimately show ?thesis using s by auto
qed

section \<open>Logging out\<close>

text \<open>C5: Logging out, when the channels of the directory have different ids: the user is taken out
  of every channel and out of the global channel, and exactly the channels left empty disappear
  from the directory, although they are deleted from it during the walk. The request ends the
  server in a null dereference as soon as there is a channel with a single user who is not the one
  logging out.\<close>

theorem logout_refines:
  assumes "sv_view s W" "distinct (map fst (snd W))"
  shows "refines s (cpt_logout_response s)
    (rbind (logout_entries (current_id s) (snd W)) (\<lambda>V'.
     rbind (view_delete (current_id s) (global W)) (\<lambda>(found, us').
       Inr (if found then SUCCESS else FAILURE,
            fst W - int (length (snd W)) + int (length V'), butlast V' @ [(0, us')]))))"
  using logout_sim [OF assms(1)] fold_round_distinct [of "[]" "snd W"] assms(2)
  by (simp add: view_logout_def rbind_assoc)

theorem logout_refines_witness:
  "\<exists>s. sv_view s demo \<and> current_id s = 5 \<and> refines s (cpt_logout_response s)
     (Inr (SUCCESS, 1, [(0, [alice, root_user])]))"
proof -
  obtain s where s: "sv_view s demo" "current_id s = 5" using demo_state by blast
  have "distinct (map fst (snd demo))" by (simp add: demo_def)
  from logout_refines [OF s(1) this] s have "refines s (cpt_logout_response s)
      (Inr (SUCCESS, 1, [(0, [alice, root_user])]))"
    by (simp add: demo_def global_def view_delete_def drop_user_def bob_def alice_def root_user_def)
  with s show ?thesis by auto
qed

lemma view_delete_error: "view_delete k us = Inl e \<Longrightarrow> e = NullDeref"
  by (auto simp: view_delete_def split: if_splits)

lemma fold_round_error:
  "v \<in> set V \<Longrightarrow> fst v \<noteq> 0 \<Longrightarrow> view_delete k (snd v) = Inl e \<Longrightarrow>
   fold_res (logout_round k) V V1 = Inl NullDeref"
proof (induction V arbitrary: V1)
  case Nil
  then show ?case by simp
next
  case (Cons w V)
  show ?case
  proof (cases "logout_round k w V1")
    case (Inl e')
    then have "e' = NullDeref"
      by (auto simp: logout_round_def rbind_eq_Inl split: if_splits dest: view_delete_error)
    with Inl show ?thesis by simp
  next
    case (Inr V1')
    with Cons have "v \<noteq> w" by (auto simp: logout_round_def)
    with Cons Inr show ?thesis by auto
  qed
qed

text \<open>C20: A logout ends the server in a null dereference whenever some channel has exactly one
  user and that user is not the one who logs out: anyone who creates a channel and stays alone in
  it makes the next logout of anyone else fatal.\<close>

theorem logout_crash:
  assumes "sv_view s W" "(i, [u]) \<in> set (snd W)" "i \<noteq> 0" "user_key u \<noteq> current_id s"
  shows "cpt_logout_response s = Inl NullDeref"
proof -
  from assms have "view_delete (current_id s) [u] = Inl NullDeref" by (simp add: view_delete_def)
  with assms fold_round_error [of "(i, [u])" "snd W"] logout_sim [OF assms(1)] show ?thesis
    by (simp add: view_logout_def refines_def)
qed

theorem logout_crash_witness:
  "\<exists>s. sv_view s demo \<and> current_id s = 4 \<and> cpt_logout_response s = Inl NullDeref"
proof -
  obtain s where s: "sv_view s demo" "current_id s = 4" using demo_state by blast
  have "cpt_logout_response s = Inl NullDeref"
    by (rule logout_crash [OF s(1), of 1 bob]) (simp_all add: demo_def bob_def s(2))
  with s show ?thesis by auto
qed

section \<open>Listing the users\<close>

lemma get_users_view:
  assumes "sv_view s W" "map_of (snd W) cid = Some us" "us \<noteq> []" "\<forall>u\<in>set us. well_named u"
    and "info_res s = ResLive r"
  shows "cpt_get_users_response s cid =
    (if length (users_text us) < LG_BUFF_SIZE
     then Inr (SUCCESS, s\<lparr>info_res := ResLive (r\<lparr>code := GET_USERS, data := Some (users_text us @ [0]),
       data_size := of_nat (length (users_text us))\<rparr>)\<rparr>)
     else Inl OutOfBounds)"
proof -
  from assms(1) obtain Au Ac d cs where S: "sv_rep s W Au Ac d cs" by (auto simp: sv_view_def)
  show ?thesis
  proof (cases rule: sv_channel_cases [OF S, of cid])
    case 1
    with assms(2) show ?thesis by simp
  next
    case (2 c cs1 cs2 V1 us' V2 l)
    with assms(2) have "us' = us" by simp
    with 2 channel_to_string_text [of "sv_users s" Au l _ us c] assms(3-5) show ?thesis
      by (auto simp: cpt_get_users_response_def deref_res_def Let_def rbind_eq_Inl)
  qed
qed

lemma get_users_unknown:
  assumes "sv_view s W" "map_of (snd W) cid = None" "info_res s = ResLive r"
  shows "\<exists>t. cpt_get_users_response s cid = Inr (BAD_CHANNEL, s\<lparr>info_res := ResLive
    (r\<lparr>code := of_int FAILURE, data := Some (str ''Failed to get users...'' @ [0]), data_size := t\<rparr>)\<rparr>)"
proof -
  from assms(1) obtain Au Ac d cs where S: "sv_rep s W Au Ac d cs" by (auto simp: sv_view_def)
  from assms(2,3) show ?thesis
    by (cases rule: sv_channel_cases [OF S, of cid])
      (auto simp: cpt_get_users_response_def deref_res_def Let_def)
qed



end
