(* ===== verification/Sessions.thy ===== *)
theory Sessions
  imports Requests
begin

text \<open>
  Sequences of events: the abstract chat, and that every state the server reaches by accepting clients and
  serving their requests is a state of it.
\<close>

section \<open>What an answer changes\<close>

text \<open>Sending, allocating a response and destroying it leave the directory and the users as they
  are.\<close>

definition quiet :: "server \<Rightarrow> server \<Rightarrow> bool" where
  "quiet s s' \<longleftrightarrow> sv_users s' = sv_users s \<and> sv_chans s' = sv_chans s \<and> gc s' = gc s \<and> dir s' = dir s \<and>
     current_id s' = current_id s \<and> mem_ok s' = mem_ok s"

lemma quiet_refl [simp]: "quiet s s"
  by (simp add: quiet_def)

lemma quiet_trans: "quiet s s' \<Longrightarrow> quiet s' s'' \<Longrightarrow> quiet s s''"
  by (simp add: quiet_def)

lemma quiet_updates [simp]:
  "quiet s (s'\<lparr>sv_os := w\<rparr>) = quiet s s'" "quiet s (s'\<lparr>clock := n\<rparr>) = quiet s s'"
  "quiet s (s'\<lparr>info_res := p\<rparr>) = quiet s s'"
  by (simp_all add: quiet_def)

lemma quiet_view: "quiet s s' \<Longrightarrow> sv_view s' W = sv_view s W"
  by (simp add: quiet_def sv_view_def sv_rep_def)

lemma send_to_quiet: "send_to fd out n s = Inr s' \<Longrightarrow> quiet s s' \<and> info_res s' = info_res s"
  by (auto simp: send_to_def)

lemma respond_quiet: "respond cap r s = Inr s' \<Longrightarrow> quiet s s' \<and> info_res s' = info_res s"
  by (auto simp: respond_def dest: send_to_quiet)

lemma answer_quiet:
  "respond cap r (s\<lparr>clock := n\<rparr>) = Inr s' \<Longrightarrow> quiet s s' \<and> info_res s' = info_res s"
  by (auto simp: quiet_def dest: respond_quiet)

lemma send_to_user_quiet: "send_to_user out n u s = Inr s' \<Longrightarrow> quiet s s' \<and> info_res s' = info_res s"
  by (auto simp: send_to_user_def split: option.splits if_splits dest: send_to_quiet)

section \<open>The invariant of the directory\<close>

text \<open>No user is twice in a channel other than the global one, every user has a name of at most
  twelve characters, and the length field of the directory is off by a constant \<open>J\<close>.\<close>

definition entry_ok :: "u16 \<times> user list \<Rightarrow> bool" where
  "entry_ok v \<longleftrightarrow> distinct (map user_key (snd v)) \<and> (\<forall>u\<in>set (snd v). well_named u)"

definition view_ok :: "int \<Rightarrow> view \<Rightarrow> bool" where
  "view_ok J W \<longleftrightarrow> fst W = J + int (length (snd W)) \<and>
     (\<exists>V0 us. snd W = V0 @ [(0, us)] \<and> (\<forall>v\<in>set V0. entry_ok v) \<and> (\<forall>u\<in>set us. well_named u))"

lemma entry_ok_delete:
  "entry_ok (i, us) \<Longrightarrow> view_delete k us = Inr (b, us') \<Longrightarrow> entry_ok (j, us')"
  using set_del_first_subset [of "\<lambda>u. user_key u = k" us]
  by (auto simp: entry_ok_def view_delete_def drop_user_def distinct_del_first split: if_splits)

lemma map_of_snoc:
  "map_of (V0 @ [(0, us)]) cid = Some x \<Longrightarrow> (cid, x) \<in> set V0 \<or> (cid = 0 \<and> x = us \<and> cid \<notin> fst ` set V0)"
  by (induction V0) (auto split: if_splits)

lemma upd_first_append:
  "cid \<in> fst ` set V0 \<Longrightarrow> upd_first cid f (V0 @ V1) = upd_first cid f V0 @ V1"
  by (induction V0) auto

lemma upd_first_ok:
  "\<forall>v\<in>set V. entry_ok v \<Longrightarrow> map_of V cid = Some us \<Longrightarrow> entry_ok (cid, f us) \<Longrightarrow>
   \<forall>v\<in>set (upd_first cid f V). entry_ok v"
  by (induction V) (auto split: if_splits)

lemma length_upd_first [simp]: "length (upd_first k f V) = length V"
  by (induction V) auto

lemma view_ok_global: "view_ok J W \<Longrightarrow> u \<in> set (global W) \<Longrightarrow> well_named u"
  by (auto simp: view_ok_def global_def)

lemma view_ok_join:
  assumes "view_ok J W" "view_join k cid W = Inr (r, W')"
  shows "view_ok J W'"
proof -
  from assms(1) obtain V0 gus where W: "snd W = V0 @ [(0, gus)]" "\<forall>v\<in>set V0. entry_ok v"
    "\<forall>u\<in>set gus. well_named u" "fst W = J + int (length (snd W))" by (auto simp: view_ok_def)
  have gl: "global W = gus" using W(1) by (simp add: global_def)
  show ?thesis
  proof (cases "W' = W")
    case True
    with assms show ?thesis by simp
  next
    case False
    with assms(2) obtain us u where us: "map_of (snd W) cid = Some us" "k \<notin> ids us"
        "List.find (\<lambda>u. user_key u = k) gus = Some u" "W' = (fst W, upd_first cid ((#) u) (snd W))"
      unfolding view_join_def gl by (auto split: option.splits if_splits)
    from us(3) have u: "u \<in> set gus" "user_key u = k" by (auto simp: find_Some_iff)
    with us(1,2) W(1) map_of_snoc [of V0 gus cid us] have "(cid, us) \<in> set V0" by auto
    then have cid: "cid \<in> fst ` set V0" by (metis fst_conv image_eqI)
    with us(1) W(1) have m: "map_of V0 cid = Some us"
      by (auto simp: map_add_def map_of_eq_None_iff split: option.splits)
    then have "(cid, us) \<in> set V0" by (rule map_of_SomeD)
    with W(2,3) u us(2) have "entry_ok (cid, u # us)" by (auto simp: entry_ok_def)
    with upd_first_ok [OF W(2) m] have "\<forall>v\<in>set (upd_first cid ((#) u) V0). entry_ok v" by simp
    with us(4) W upd_first_append [OF cid] show ?thesis by (auto simp: view_ok_def)
  qed
qed

lemma view_ok_leave:
  assumes "view_ok J W" "view_leave k cid W = Inr (r, W')"
  shows "view_ok J W'"
proof -
  from assms(1) obtain V0 gus where W: "snd W = V0 @ [(0, gus)]" "\<forall>v\<in>set V0. entry_ok v"
    "\<forall>u\<in>set gus. well_named u" "fst W = J + int (length (snd W))" by (auto simp: view_ok_def)
  show ?thesis
  proof (cases "W' = W")
    case True
    with assms show ?thesis by simp
  next
    case False
    with assms(2) obtain us us' b where us: "cid \<noteq> 0" "map_of (snd W) cid = Some us"
        "view_delete k us = Inr (b, us')"
        "W' = (if us' = [] then (fst W - 1, del_first (\<lambda>v. fst v = cid) (snd W))
               else (fst W, upd_first cid (\<lambda>_. us') (snd W)))"
      unfolding view_leave_def by (auto split: option.splits if_splits)
    with W(1) map_of_snoc [of V0 gus cid us] have m0: "(cid, us) \<in> set V0" by auto
    then have cid: "cid \<in> fst ` set V0" by (metis fst_conv image_eqI)
    with us(2) W(1) have m: "map_of V0 cid = Some us"
      by (auto simp: map_add_def map_of_eq_None_iff split: option.splits)
    from m0 W(2) entry_ok_delete [OF _ us(3)] have "entry_ok (cid, us')" by blast
    with upd_first_ok [OF W(2) m] have "\<forall>v\<in>set (upd_first cid (\<lambda>_. us') V0). entry_ok v" by simp
    moreover have hit: "\<exists>v\<in>set V0. fst v = cid" using cid by auto
    moreover have "\<forall>v\<in>set (del_first (\<lambda>v. fst v = cid) V0). entry_ok v"
      using W(2) set_del_first_subset by fast
    moreover have "int (length (del_first (\<lambda>v. fst v = cid) V0)) = int (length V0) - 1"
    proof -
      have "0 < length V0" using hit by auto
      with hit show ?thesis by (simp add: length_del_first of_nat_diff Suc_leI)
    qed
    ultimately show ?thesis
      using us(4) W upd_first_append [OF cid] del_first_append_hit [OF hit]
      by (auto simp: view_ok_def)
  qed
qed

lemma view_ok_create: "view_ok J W \<Longrightarrow> view_create k W = Inr (r, W') \<Longrightarrow> view_ok J W'"
proof -
  assume W: "view_ok J W" and c: "view_create k W = Inr (r, W')"
  from c obtain u where u: "List.find (\<lambda>u. user_key u = k) (global W) = Some u"
      "W' = (fst W + 1, (word_of_int (fst W), [u]) # snd W)"
    by (auto simp: view_create_def split: option.splits)
  from u(1) have "u \<in> set (global W)" by (auto simp: find_Some_iff)
  with view_ok_global [OF W] have "well_named u" by blast
  moreover from W obtain V0 gus where "snd W = V0 @ [(0, gus)]" "\<forall>v\<in>set V0. entry_ok v"
    "\<forall>u\<in>set gus. well_named u" "fst W = J + int (length (snd W))" by (auto simp: view_ok_def)
  ultimately show ?thesis
    using u(2) by (auto simp: view_ok_def entry_ok_def intro!: exI [of _ "(word_of_int (fst W), [u]) # V0"])
qed

lemma view_ok_login: "view_ok J W \<Longrightarrow> well_named u \<Longrightarrow> view_ok J (view_login u W)"
  by (auto simp: view_ok_def view_login_def global_def)

lemma logout_round_ok:
  assumes "logout_round k v V1 = Inr V'" "entry_ok v" "\<forall>v\<in>set V1. entry_ok v"
  shows "\<forall>v\<in>set V'. entry_ok v"
proof (cases "fst v = 0")
  case True
  with assms show ?thesis by (auto simp: logout_round_def)
next
  case False
  with assms(1) obtain b us' where v: "view_delete k (snd v) = Inr (b, us')"
    "V' = (if us' = [] then del_first (\<lambda>w. fst w = fst v) (V1 @ [(fst v, us')]) else V1 @ [(fst v, us')])"
    by (auto simp: logout_round_def split: if_splits)
  from assms(2) entry_ok_delete [OF _ v(1), of "fst v"] have "entry_ok (fst v, us')" by simp
  with assms(3) have "\<forall>v\<in>set (V1 @ [(fst v, us')]). entry_ok v" by auto
  with v(2) set_del_first_subset [of "\<lambda>w. fst w = fst v" "V1 @ [(fst v, us')]"] show ?thesis
    by (cases "us' = []") auto
qed

lemma fold_round_ok:
  "fold_res (logout_round k) V V1 = Inr V' \<Longrightarrow> \<forall>v\<in>set V. entry_ok v \<Longrightarrow> \<forall>v\<in>set V1. entry_ok v \<Longrightarrow>
   \<forall>v\<in>set V'. entry_ok v"
proof (induction V arbitrary: V1)
  case Nil
  then show ?case by simp
next
  case (Cons v V)
  from Cons.prems(1) obtain V2 where V2: "logout_round k v V1 = Inr V2"
    "fold_res (logout_round k) V V2 = Inr V'" by auto
  with Cons.prems logout_round_ok [OF V2(1)] have "\<forall>v\<in>set V2. entry_ok v" by simp
  with Cons.IH [OF V2(2)] Cons.prems(2) show ?case by simp
qed

lemma view_ok_logout:
  assumes "view_ok J W" "view_logout k W = Inr (r, W')"
  shows "view_ok J W'"
proof -
  from assms(1) obtain V0 gus where W: "snd W = V0 @ [(0, gus)]" "\<forall>v\<in>set V0. entry_ok v"
    "\<forall>u\<in>set gus. well_named u" "fst W = J + int (length (snd W))" by (auto simp: view_ok_def)
  have gl: "global W = gus" using W(1) by (simp add: global_def)
  from assms(2) obtain V1 us' b where f: "fold_res (logout_round k) V0 [] = Inr V1"
    "view_delete k gus = Inr (b, us')"
    "W' = (fst W - int (length (snd W)) + int (length (V1 @ [(0, gus)])), V1 @ [(0, us')])"
    unfolding view_logout_def gl W(1) fold_res_append
    by (auto simp: logout_round_def)
  from fold_round_ok [OF f(1) W(2)] have "\<forall>v\<in>set V1. entry_ok v" by simp
  moreover from f(2) W(3) set_del_first_subset [of "\<lambda>u. user_key u = k" gus]
  have "\<forall>u\<in>set us'. well_named u"
    by (auto simp: view_delete_def drop_user_def split: if_splits)
  ultimately show ?thesis using f(3) W(4) by (auto simp: view_ok_def)
qed

section \<open>The abstract chat\<close>

text \<open>What the events may do to the directory: the operations of the specification, with any user and
  any channel. \<open>chat W W'\<close>: the chat gets from \<open>W\<close> to \<open>W'\<close>.\<close>

inductive chat_step :: "view \<Rightarrow> view \<Rightarrow> bool" where
  login: "well_named u \<Longrightarrow> user_key u < 256 \<Longrightarrow> global W \<noteq> [] \<Longrightarrow> chat_step W (view_login u W)"
| join: "view_join k cid W = Inr (r, W') \<Longrightarrow> chat_step W W'"
| leave: "view_leave k cid W = Inr (r, W') \<Longrightarrow> chat_step W W'"
| create: "view_create k W = Inr (r, W') \<Longrightarrow> chat_step W W'"
| logout: "view_logout k W = Inr (r, W') \<Longrightarrow> chat_step W W'"

inductive_cases chat_step_cases: "chat_step W W'"

abbreviation chat :: "view \<Rightarrow> view \<Rightarrow> bool" where
  "chat \<equiv> rtranclp chat_step"

lemma chat_login:
  "chat W0 W \<Longrightarrow> well_named u \<Longrightarrow> user_key u < 256 \<Longrightarrow> global W \<noteq> [] \<Longrightarrow> chat W0 (view_login u W)"
  by (blast intro: rtranclp.rtrancl_into_rtrancl chat_step.login)

lemma chat_join: "chat W0 W \<Longrightarrow> view_join k cid W = Inr (r, W') \<Longrightarrow> chat W0 W'"
  by (blast intro: rtranclp.rtrancl_into_rtrancl chat_step.join)

lemma chat_leave: "chat W0 W \<Longrightarrow> view_leave k cid W = Inr (r, W') \<Longrightarrow> chat W0 W'"
  by (blast intro: rtranclp.rtrancl_into_rtrancl chat_step.leave)

lemma chat_create: "chat W0 W \<Longrightarrow> view_create k W = Inr (r, W') \<Longrightarrow> chat W0 W'"
  by (blast intro: rtranclp.rtrancl_into_rtrancl chat_step.create)

lemma chat_logout: "chat W0 W \<Longrightarrow> view_logout k W = Inr (r, W') \<Longrightarrow> chat W0 W'"
  by (blast intro: rtranclp.rtrancl_into_rtrancl chat_step.logout)

text \<open>The directory of a new server, and the invariant of what the chat makes of it.\<close>

definition start_view :: "int \<Rightarrow> view" where
  "start_view J = (J + 1, [(0, [root_user])])"

lemma start_view_ok: "view_ok J (start_view J)"
  by (simp add: view_ok_def start_view_def well_named_def root_user_def Let_def MAX_NAME_SIZE_def)

lemma chat_step_view_ok: "chat_step W W' \<Longrightarrow> view_ok J W \<Longrightarrow> view_ok J W'"
  by (elim chat_step_cases) (auto intro: view_ok_login view_ok_join view_ok_leave view_ok_create view_ok_logout)

lemma chat_view_ok: "chat (start_view J) W \<Longrightarrow> view_ok J W"
  by (induction rule: rtranclp_induct) (auto intro: start_view_ok chat_step_view_ok)

section \<open>Events keep the invariant\<close>

definition session_ok :: "view \<Rightarrow> server \<Rightarrow> bool" where
  "session_ok W0 s \<longleftrightarrow> (\<exists>W. sv_view s W \<and> chat W0 W) \<and> info_res s \<in> {ResWild, ResFreed}"

lemma session_okI:
  "sv_view s W \<Longrightarrow> chat W0 W \<Longrightarrow> quiet s s' \<Longrightarrow> info_res s' \<in> {ResWild, ResFreed} \<Longrightarrow>
   session_ok W0 s'"
  unfolding session_ok_def using quiet_view by blast

lemma refinesD:
  "refines s m spec \<Longrightarrow> m = Inr (r, s') \<Longrightarrow>
   \<exists>W. spec = Inr (r, W) \<and> sv_view s' W \<and> same_session s s'"
  by (cases spec) (auto simp: refines_def)

lemma same_session_res: "same_session s s' \<Longrightarrow> info_res s' = info_res s"
  by (simp add: same_session_def)

text \<open>The events that answer with a response of their own: a refinement step, then an
  answer.\<close>

lemma handler_answer_ok:
  assumes W: "sv_view s W" "chat W0 W" "info_res s \<in> {ResWild, ResFreed}"
    and ref: "refines s m spec" "\<And>r W'. spec = Inr (r, W') \<Longrightarrow> chat W0 W'"
    and m: "m = Inr (r, s1)" and q: "quiet s1 s'" "info_res s' = info_res s1"
  shows "session_ok W0 s'"
proof -
  from refinesD [OF ref(1) m] obtain W' where W': "spec = Inr (r, W')" "sv_view s1 W'"
    "same_session s s1" by auto
  from session_okI [OF W'(2) ref(2) [OF W'(1)] q(1)] W(3) q(2) same_session_res [OF W'(3)]
  show ?thesis by simp
qed

text \<open>A handler of its own, then an answer.\<close>

lemma join_event_cases:
  assumes "join_channel_event s cid = Inr s'"
  obtains r s1 cap x where "cpt_join_channel_response s cid = Inr (r, s1)"
    "respond cap x (s1\<lparr>clock := Suc (clock s1)\<rparr>) = Inr s'"
  using assms unfolding join_channel_event_def
  by (auto simp: alloc_def Let_def split_beta split: option.split_asm if_split_asm)

lemma leave_event_cases:
  assumes "leave_channel_event s cid = Inr s'"
  obtains r s1 cap x where "cpt_leave_channel_response s cid = Inr (r, s1)"
    "respond cap x (s1\<lparr>clock := Suc (clock s1)\<rparr>) = Inr s'"
  using assms unfolding leave_channel_event_def
  by (auto simp: alloc_def Let_def split_beta split: option.split_asm if_split_asm)

lemma create_event_cases:
  assumes "create_channel_event s q = Inr s'"
  obtains r s1 cap x where "cpt_create_channel_response s q = Inr (r, s1)"
    "respond cap x (s1\<lparr>clock := Suc (clock s1)\<rparr>) = Inr s'"
  using assms unfolding create_channel_event_def
  by (auto simp: alloc_def Let_def split_beta split: option.split_asm if_split_asm)

lemma handle_event_cases:
  assumes "handle_event stale s req = Inr s'"
  obtains p1 p2 p3 p4 f c where
    "event_step stale SEND (\<lambda>s. send_event s (msg req) (uint (channel_id req))) (False, command req, s) = Inr p1"
    "event_step stale GET_USERS (\<lambda>s. get_users_event s (uint (channel_id req))) p1 = Inr p2"
    "event_step stale CREATE_CHANNEL (\<lambda>s. create_channel_event s (msg req)) p2 = Inr p3"
    "event_step stale LEAVE_CHANNEL (\<lambda>s. leave_channel_event s (channel_id req)) p3 = Inr p4"
    "event_step stale JOIN_CHANNEL (\<lambda>s. join_channel_event s (channel_id req)) p4 = Inr (f, c, s')"
  using assms by (auto simp: handle_event_def)

lemma join_event_ok:
  assumes "session_ok W0 s" "join_channel_event s cid = Inr s'"
  shows "session_ok W0 s'"
proof -
  from assms(1) obtain W where W: "sv_view s W" "chat W0 W" "info_res s \<in> {ResWild, ResFreed}"
    by (auto simp: session_ok_def)
  from assms(2) obtain r s1 cap x where m: "cpt_join_channel_response s cid = Inr (r, s1)"
    "respond cap x (s1\<lparr>clock := Suc (clock s1)\<rparr>) = Inr s'" by (rule join_event_cases)
  from answer_quiet [OF m(2)] have "quiet s1 s'" "info_res s' = info_res s1" by simp_all
  with handler_answer_ok [OF W join_sim [OF W(1), of cid] _ m(1)] chat_join [OF W(2)] show ?thesis
    by blast
qed

lemma leave_event_ok:
  assumes "session_ok W0 s" "leave_channel_event s cid = Inr s'"
  shows "session_ok W0 s'"
proof -
  from assms(1) obtain W where W: "sv_view s W" "chat W0 W" "info_res s \<in> {ResWild, ResFreed}"
    by (auto simp: session_ok_def)
  from assms(2) obtain r s1 cap x where m: "cpt_leave_channel_response s cid = Inr (r, s1)"
    "respond cap x (s1\<lparr>clock := Suc (clock s1)\<rparr>) = Inr s'" by (rule leave_event_cases)
  from answer_quiet [OF m(2)] have "quiet s1 s'" "info_res s' = info_res s1" by simp_all
  with handler_answer_ok [OF W leave_sim [OF W(1), of cid] _ m(1)] chat_leave [OF W(2)] show ?thesis
    by blast
qed

lemma create_reads:
  assumes "cpt_create_channel_response s id_list = Inr r" "gc s = Some g"
  shows "query_reads s id_list"
proof (cases id_list)
  case None
  then show ?thesis by (simp add: query_reads_def)
next
  case (Some a)
  with assms obtain x where
    "filter_channel_users (mem_ok s (clock s)) (sv_users s) (Some g) (id_buf s) (Some a) = Inr x"
    by (auto simp: cpt_create_channel_response_def new_channel_users_def alloc_def id_buf_def)
  with Some show ?thesis by (auto simp: query_reads_def dest: filter_channel_users_reads)
qed

lemma view_gc: "sv_view s W \<Longrightarrow> \<exists>g. gc s = Some g"
  by (auto simp: sv_view_def sv_rep_def)

lemma create_event_ok:
  assumes "session_ok W0 s" "create_channel_event s id_list = Inr s'"
  shows "session_ok W0 s'"
proof -
  from assms(1) obtain W where W: "sv_view s W" "chat W0 W" "info_res s \<in> {ResWild, ResFreed}"
    by (auto simp: session_ok_def)
  from assms(2) obtain r s1 cap x where m: "cpt_create_channel_response s id_list = Inr (r, s1)"
    "respond cap x (s1\<lparr>clock := Suc (clock s1)\<rparr>) = Inr s'" by (rule create_event_cases)
  from view_gc [OF W(1)] create_reads [OF m(1)] have "query_reads s id_list" by auto
  with handler_answer_ok [OF W create_sim [OF W(1)] _ m(1)] chat_create [OF W(2)] answer_quiet [OF m(2)]
  show ?thesis by blast
qed

lemma logout_event_ok:
  assumes "session_ok W0 s" "logout_event s = Inr s'"
  shows "session_ok W0 s'"
proof -
  from assms(1) obtain W where W: "sv_view s W" "chat W0 W" "info_res s \<in> {ResWild, ResFreed}"
    by (auto simp: session_ok_def)
  from assms(2) obtain r where m: "cpt_logout_response s = Inr (r, s')"
    by (auto simp: logout_event_def)
  from handler_answer_ok [OF W logout_sim [OF W(1)] _ m quiet_refl] chat_logout [OF W(2)] show ?thesis
    by blast
qed

lemma info_res_destroy_quiet:
  "info_res_destroy s = Inr s' \<Longrightarrow> quiet s s' \<and> (info_res s' = ResFreed \<or> info_res s' = ResNull \<and> info_res s = ResNull)"
  by (auto simp: info_res_destroy_def split: res_ptr.splits)

lemma get_users_response_quiet:
  "cpt_get_users_response s cid = Inr (r, s') \<Longrightarrow> quiet s s' \<and> (\<exists>x. info_res s' = ResLive x)"
  by (auto simp: cpt_get_users_response_def Let_def split_beta split: option.split_asm)

lemma get_users_event_ok:
  assumes "session_ok W0 s" "get_users_event s cid = Inr s'"
  shows "session_ok W0 s'"
proof -
  from assms(1) obtain W where W: "sv_view s W" "chat W0 W" by (auto simp: session_ok_def)
  let ?s1 = "\<lambda>n p. s\<lparr>clock := n, info_res := p\<rparr>"
  from assms(2) obtain n p r s2 cap x s3 where
    e: "cpt_get_users_response (?s1 n p) (word_of_int cid) = Inr (r, s2)"
      "respond cap x s2 = Inr s3" "info_res_destroy s3 = Inr s'"
    by (auto simp: get_users_event_def alloc_def)
  from get_users_response_quiet [OF e(1)] respond_quiet [OF e(2)] info_res_destroy_quiet [OF e(3)]
  have "quiet s s'" "info_res s' = ResFreed" by (auto simp: quiet_def)
  with session_okI [OF W] show ?thesis by simp
qed

lemma send_event_quiet:
  assumes "send_event s m cid = Inr s'" "info_res s \<in> {ResWild, ResFreed}"
  shows "quiet s s' \<and> info_res s' = ResFreed"
proof -
  let ?P = "\<lambda>x s'. quiet s s' \<and> info_res s' = ResLive x"
  from assms(1) obtain s1 where s1: "info_res_destroy s1 = Inr s'"
    "s1 = s \<or> (\<exists>x out n p h k. iter_nodes k h p (send_to_user out n)
        (s\<lparr>clock := Suc (clock s), info_res := ResLive x\<rparr>) = Inr s1)"
    by (auto simp: send_event_def alloc_def Let_def split_beta split: option.split_asm if_split_asm)
      blast
  have step: "?P x s'" if "?P x t" "send_to_user out n u t = Inr s'" for x out n u t s'
    using send_to_user_quiet [OF that(2)] that(1) quiet_trans by auto
  from s1(2) have "s1 = s \<or> (\<exists>x. ?P x s1)"
  proof
    assume "\<exists>x out n p h k. iter_nodes k h p (send_to_user out n)
        (s\<lparr>clock := Suc (clock s), info_res := ResLive x\<rparr>) = Inr s1"
    then obtain x out n p h k where it: "iter_nodes k h p (send_to_user out n)
        (s\<lparr>clock := Suc (clock s), info_res := ResLive x\<rparr>) = Inr s1" by blast
    have "?P x s1"
      by (rule iter_nodes_invariant [where P = "?P x", OF step _ it]) simp_all
    then show ?thesis by blast
  qed simp
  with s1(1) assms(2) show ?thesis
    by (auto simp: info_res_destroy_def split: res_ptr.splits)
qed

lemma send_event_ok: "session_ok W0 s \<Longrightarrow> send_event s m cid = Inr s' \<Longrightarrow> session_ok W0 s'"
  using send_event_quiet session_okI unfolding session_ok_def by blast

lemma gc_users_view:
  assumes "sv_rep s W Au Ac d cs"
  shows "\<exists>g lg. gc s = Some g \<and> gc_users s = Inr (Some lg) \<and> ch_users g = Some lg"
  using sv_gc [OF assms] by (auto simp: gc_users_def)

lemma push_login_view:
  assumes "sv_view s W" "gc s = Some g" "push_channel_user (sv_users s) g (Some u) = Inr (r, uh)"
  shows "sv_view (s\<lparr>sv_users := uh\<rparr>) (if global W = [] then W else view_login u W)"
proof -
  from assms(1) obtain Au Ac d cs where S: "sv_rep s W Au Ac d cs" by (auto simp: sv_view_def)
  show ?thesis
  proof (cases "global W = []")
    case False
    with login_sim [OF S assms(2) False, of u] assms(3) show ?thesis by auto
  next
    case True
    from sv_gc [OF S] assms(2) obtain lg where lg: "ch_users g = Some lg"
        "Au lg = Some (int (length (global W)), global W)" by auto
    from S have R: "rep (sv_users s) Au" "room (sv_users s)" by (simp_all add: sv_rep_def)
    from push_new_empty_store [OF R(1) _ R(2), of lg 0 u] lg True
    obtain h' where "push_new (sv_users s) (Some lg) (Some u) = Inr (0, h')" "rep h' Au" "room h'" by auto
    with assms(3) lg(1) S have "sv_rep (s\<lparr>sv_users := uh\<rparr>) W Au Ac d cs"
      by (simp add: push_channel_user_push_new sv_rep_def)
    with True show ?thesis by (auto intro: sv_viewI)
  qed
qed

lemma login_step_cases:
  assumes "login_step s k m = Inr (r, s')"
  shows "quiet s s' \<and> info_res s' = info_res s \<and> sv_os s' = sv_os s \<or>
    (\<exists>u g uh. user_init (mem_ok s (clock s)) k k m = Inr (Some u) \<and> gc s = Some g \<and>
        push_channel_user (sv_users s) g (Some u) = Inr (r, uh) \<and> s' = s\<lparr>clock := Suc (clock s), sv_users := uh\<rparr>)"
proof -
  let ?t = "s\<lparr>clock := Suc (clock s)\<rparr>"
  show ?thesis
  proof (cases "gc s")
    case None
    with assms show ?thesis by (simp add: login_step_def gc_users_def)
  next
    case (Some g)
    show ?thesis
    proof (cases "ch_users g")
      case None
      with assms Some show ?thesis by (simp add: login_step_def gc_users_def)
    next
      case (Some gu)
      with assms \<open>gc s = Some g\<close> obtain u where
        u: "user_init (mem_ok s (clock s)) k k m = Inr u"
          "(case u of Some u \<Rightarrow> rbind (push_channel_user (sv_users s) g (Some u)) (\<lambda>(push_res, uh).
                Inr (push_res, ?t\<lparr>sv_users := uh\<rparr>)) | None \<Rightarrow> Inr (0, ?t)) = Inr (r, s')"
        by (auto simp: login_step_def gc_users_def alloc_def)
      then show ?thesis using \<open>gc s = Some g\<close>
        by (cases u) (auto simp: quiet_def)
    qed
  qed
qed

lemma login_event_cases:
  assumes "login_event s listen_fd = Inr (r, s')"
  shows "(\<exists>w. s' = s\<lparr>sv_os := w\<rparr>) \<or> (\<exists>k w t s5 x y cap s3.
      s3 = s\<lparr>clock := Suc (Suc (Suc (clock s))), current_id := k, sv_os := w\<rparr> \<and>
      (s5 = s3 \<or> login_step s3 k t = Inr (x, s5)) \<and> respond cap y s5 = Inr s')"
proof -
  have al: "(case alloc s of (ok, s0) \<Rightarrow> (case alloc s0 of (ok1, s1) \<Rightarrow> (case alloc s1 of (ok2, s2) \<Rightarrow> f ok ok1 ok2 s2)))
    = f (mem_ok s (clock s)) (mem_ok s (Suc (clock s))) (mem_ok s (Suc (Suc (clock s))))
        (s\<lparr>clock := Suc (Suc (Suc (clock s)))\<rparr>)" for f
    by (simp add: alloc_def)
  from assms obtain fd w1 where
    a: "handle_new_accept listen_fd (sv_os s) = Inr (fd, w1)" by (auto simp: login_event_def)
  show ?thesis
  proof (cases "fd = SYS_CALL_FAIL")
    case True
    with assms a show ?thesis by (auto simp: login_event_def)
  next
    case False
    with assms a obtain w2 t lr pr s5 where
      p: "(if lr = SUCCESS then login_step (s\<lparr>clock := Suc (Suc (Suc (clock s))), current_id := fd, sv_os := w2\<rparr>) fd t
        else Inr (0, s\<lparr>clock := Suc (Suc (Suc (clock s))), current_id := fd, sv_os := w2\<rparr>)) = Inr (pr, s5)"
      "\<exists>cap y. respond cap y s5 = Inr s'"
      unfolding login_event_def al Let_def
      by (clarsimp split: option.split_asm) blast
    from p(1) have "s5 = s\<lparr>clock := Suc (Suc (Suc (clock s))), current_id := fd, sv_os := w2\<rparr> \<or>
        login_step (s\<lparr>clock := Suc (Suc (Suc (clock s))), current_id := fd, sv_os := w2\<rparr>) fd t = Inr (pr, s5)"
      by (cases "lr = SUCCESS") simp_all
    with p(2) show ?thesis by blast
  qed
qed

lemma user_init_key: "user_init ok k fd m = Inr (Some u) \<Longrightarrow> user_key u < 256"
  using user_init_id [of ok k fd m u] by simp

lemma login_step_ok:
  assumes W: "sv_view s W" "chat W0 W" and st: "login_step s k m = Inr (r, s')"
  shows "\<exists>W'. sv_view s' W' \<and> chat W0 W'" "info_res s' = info_res s"
proof -
  let ?s = "s\<lparr>clock := Suc (clock s)\<rparr>"
  from login_step_cases [OF st] consider "quiet s s'" "info_res s' = info_res s"
    | u g uh where "user_init (mem_ok s (clock s)) k k m = Inr (Some u)" "gc s = Some g"
        "push_channel_user (sv_users s) g (Some u) = Inr (r, uh)" "s' = ?s\<lparr>sv_users := uh\<rparr>"
    by auto
  then show "\<exists>W'. sv_view s' W' \<and> chat W0 W'" "info_res s' = info_res s"
  proof (atomize (full), cases)
    case 1
    then show "(\<exists>W'. sv_view s' W' \<and> chat W0 W') \<and> info_res s' = info_res s"
      using W quiet_view by blast
  next
    case (2 u g uh)
    let ?W = "if global W = [] then W else view_login u W"
    have "sv_view ?s W" using W(1) by simp
    from push_login_view [OF this, of g u r uh] 2 have "sv_view s' ?W" by simp
    moreover have "chat W0 ?W" using W(2) chat_login [OF W(2) user_init_well_named [OF 2(1)] user_init_key [OF 2(1)]] by simp
    moreover have "info_res s' = info_res s" using 2(4) by simp
    ultimately show "(\<exists>W'. sv_view s' W' \<and> chat W0 W') \<and> info_res s' = info_res s" by blast
  qed
qed

lemma login_event_ok:
  assumes "session_ok W0 s" "login_event s listen_fd = Inr (r, s')"
  shows "session_ok W0 s'"
proof -
  from assms(1) obtain W where W: "sv_view s W" "chat W0 W" "info_res s \<in> {ResWild, ResFreed}"
    by (auto simp: session_ok_def)
  from login_event_cases [OF assms(2)] show ?thesis
  proof
    assume "\<exists>w. s' = s\<lparr>sv_os := w\<rparr>"
    with W session_okI [OF W(1,2), of s'] show ?thesis by auto
  next
    assume "\<exists>k w t s5 x y cap s3.
      s3 = s\<lparr>clock := Suc (Suc (Suc (clock s))), current_id := k, sv_os := w\<rparr> \<and>
      (s5 = s3 \<or> login_step s3 k t = Inr (x, s5)) \<and> respond cap y s5 = Inr s'"
    then obtain k w t s5 x y cap s3 where
      s3: "s3 = s\<lparr>clock := Suc (Suc (Suc (clock s))), current_id := k, sv_os := w\<rparr>"
      and s5: "s5 = s3 \<or> login_step s3 k t = Inr (x, s5)" "respond cap y s5 = Inr s'" by blast
    have "sv_view s3 W" "info_res s3 = info_res s" using W(1) s3 by simp_all
    with login_step_ok [OF _ W(2)] s5(1) W(2)
    obtain W' where W': "sv_view s5 W'" "chat W0 W'" "info_res s5 = info_res s" by metis
    from respond_quiet [OF s5(2)] session_okI [OF W'(1,2)] W'(3) W(3) show ?thesis by simp
  qed
qed

lemma event_step_ok:
  assumes "event_step stale cmd handler p = Inr p'" "session_ok W0 (snd (snd p))"
    "\<And>s s'. session_ok W0 s \<Longrightarrow> handler s = Inr s' \<Longrightarrow> session_ok W0 s'"
  shows "session_ok W0 (snd (snd p'))"
  using assms by (auto simp: event_step_def split: prod.splits if_splits)

lemma handle_event_ok:
  assumes "session_ok W0 s" "handle_event stale s req = Inr s'"
  shows "session_ok W0 s'"
proof -
  from assms(2) obtain p1 p2 p3 p4 f c where
    p: "event_step stale SEND (\<lambda>s. send_event s (msg req) (uint (channel_id req))) (False, command req, s) = Inr p1"
      "event_step stale GET_USERS (\<lambda>s. get_users_event s (uint (channel_id req))) p1 = Inr p2"
      "event_step stale CREATE_CHANNEL (\<lambda>s. create_channel_event s (msg req)) p2 = Inr p3"
      "event_step stale LEAVE_CHANNEL (\<lambda>s. leave_channel_event s (channel_id req)) p3 = Inr p4"
      "event_step stale JOIN_CHANNEL (\<lambda>s. join_channel_event s (channel_id req)) p4 = Inr (f, c, s')"
    by (rule handle_event_cases)
  have "session_ok W0 (snd (snd p1))" by (rule event_step_ok [OF p(1)]) (use assms(1) send_event_ok in auto)
  then have "session_ok W0 (snd (snd p2))" by (rule event_step_ok [OF p(2)]) (rule get_users_event_ok)
  then have "session_ok W0 (snd (snd p3))" by (rule event_step_ok [OF p(3)]) (rule create_event_ok)
  then have "session_ok W0 (snd (snd p4))" by (rule event_step_ok [OF p(4)]) (rule leave_event_ok)
  then have "session_ok W0 (snd (snd (f, c, s')))" by (rule event_step_ok [OF p(5)]) (rule join_event_ok)
  then show ?thesis by simp
qed

section \<open>Reachable states\<close>

text \<open>What happens to the server: a descriptor becomes readable, and the server accepts a client,
  serves a request or logs the client out, as the loop of \<open>run\<close> does; between two events the
  operating system does what it likes. A state is reachable if a sequence of events leads to it
  without a fault.\<close>

datatype event = Accept int | Request byte int cpt_request | Logout int

definition serve :: "event \<Rightarrow> server \<Rightarrow> server res" where
  "serve e s = (case e of
     Accept listen_fd \<Rightarrow> rbind (login_event s listen_fd) (\<lambda>(_, s'). Inr s')
   | Request stale fd req \<Rightarrow> handle_event stale (s\<lparr>current_id := fd\<rparr>) req
   | Logout fd \<Rightarrow> logout_event (s\<lparr>current_id := fd\<rparr>))"

inductive reachable :: "server \<Rightarrow> server \<Rightarrow> bool" for s0 where
  start: "server_setup s0 = Inr (Some s) \<Longrightarrow> reachable s0 s"
| serve: "reachable s0 s \<Longrightarrow> serve e (s\<lparr>sv_os := w\<rparr>) = Inr s' \<Longrightarrow> reachable s0 s'"

inductive_cases serve_cases: "reachable s0 s"

lemma session_ok_updates [simp]:
  "session_ok W0 (s\<lparr>sv_os := w\<rparr>) = session_ok W0 s" "session_ok W0 (s\<lparr>current_id := k\<rparr>) = session_ok W0 s"
  by (simp_all add: session_ok_def)

lemma serve_ok:
  assumes "session_ok W0 s" "serve e s = Inr s'"
  shows "session_ok W0 s'"
proof (cases e)
  case (Accept fd)
  with assms show ?thesis by (auto simp: serve_def intro: login_event_ok)
next
  case (Request stale fd req)
  with assms(2) have "handle_event stale (s\<lparr>current_id := fd\<rparr>) req = Inr s'" by (simp add: serve_def)
  then show ?thesis by (rule handle_event_ok [rotated]) (simp add: assms(1))
next
  case (Logout fd)
  with assms(2) have "logout_event (s\<lparr>current_id := fd\<rparr>) = Inr s'" by (simp add: serve_def)
  then show ?thesis by (rule logout_event_ok [rotated]) (simp add: assms(1))
qed

definition fresh_server :: "server \<Rightarrow> bool" where
  "fresh_server s \<longleftrightarrow> room (sv_users s) \<and> room (sv_chans s) \<and> (\<forall>i. mem_ok s i)"

definition length_slack :: "server \<Rightarrow> int" where
  "length_slack s0 = junk (sv_chans s0) (brk (sv_chans s0) + 2)"

lemma reachable_ok:
  assumes "fresh_server s0" "reachable s0 s"
  shows "session_ok (start_view (length_slack s0)) s"
  using assms(2)
proof induction
  case (start s)
  from setup_sim [of s0] assms(1) start have
    s: "sv_view s (length_slack s0 + 1, [(0, [root_user])])" "info_res s = ResWild"
    by (auto simp: fresh_server_def length_slack_def)
  then show ?case unfolding session_ok_def start_view_def by blast
next
  case (serve s e w s')
  then show ?case using serve_ok [of "start_view (length_slack s0)" "s\<lparr>sv_os := w\<rparr>" e s'] by simp
qed

lemma reachable_chat:
  assumes "fresh_server s0" "reachable s0 s"
  obtains W where "sv_view s W" "chat (start_view (length_slack s0)) W" "view_ok (length_slack s0) W"
  using reachable_ok [OF assms] chat_view_ok by (auto simp: session_ok_def)

end
