(* ===== verification/Wire.thy ===== *)
theory Wire
  imports Sessions
begin

text \<open>
  What the clients see on the wire: the answers to logins, messages sent to a channel and answers to
  requests, byte for byte, when \<open>send\<close> and \<open>recv\<close> behave well.
\<close>

section \<open>Answers on the wire\<close>

definition reply :: "byte \<Rightarrow> byte list \<Rightarrow> byte list" where
  "reply c t = c # packi16 (of_nat (length t)) @ t"

lemma length_reply [simp]: "length (reply c t) = length t + 3"
  by (simp add: reply_def)

lemma uint_u32_len: "n < 4294967296 \<Longrightarrow> uint (of_nat n :: u32) = int n"
  by (simp add: unsigned_of_nat take_bit_nat_eq_self)

lemma serialize_reply:
  "data r = Some (t @ 0 # t') \<Longrightarrow> 0 \<notin> set t \<Longrightarrow> length t + 3 \<le> cap \<Longrightarrow>
   cpt_serialize_response cap r = Inr (of_nat (length t + 3), reply (code r) t)"
  by (simp add: serialize_response_bytes reply_def)

lemma respond_full:
  assumes "data r = Some (t @ 0 # t')" "0 \<notin> set t" "length t + 3 \<le> cap" "cap < 4294967296"
    and "script (sv_os s) = a # rest" "sret a = int (length t + 3)"
  shows "respond cap r s = Inr (s\<lparr>sv_os := (sv_os s)\<lparr>script := rest,
    calls := calls (sv_os s) @ [(SSend (current_id s) (reply (code r) t), sret a)]\<rparr>\<rparr>)"
proof -
  have len: "uint (of_nat (length t + 3) :: u32) = int (length (reply (code r) t))"
    using uint_u32_len [of "length t + 3"] assms(3,4) by (simp del: of_nat_add)
  have "reply (code r) t \<noteq> []" by (simp add: reply_def)
  with tcp_server_send_full [of "sv_os s" a rest "reply (code r) t" "current_id s"] assms(5,6)
  have "tcp_server_send (current_id s) (reply (code r) t) (int (length (reply (code r) t))) (sv_os s) =
      Inr (0, (sv_os s)\<lparr>script := rest, calls := calls (sv_os s) @
        [(SSend (current_id s) (reply (code r) t), sret a)]\<rparr>)" by simp
  then show ?thesis
    unfolding respond_def serialize_reply [OF assms(1-3)] rbind_Inr prod.case send_to_def len by simp
qed

section \<open>Logging in\<close>

definition request_bytes :: "byte \<Rightarrow> byte \<Rightarrow> u16 \<Rightarrow> byte list \<Rightarrow> byte list" where
  "request_bytes v c ch t = v # c # packi16 (ucast ch) @ packi16 (of_nat (length t)) @ t"

lemma length_request_bytes [simp]: "length (request_bytes v c ch t) = length t + 6"
  by (simp add: request_bytes_def)

lemma received_request_bytes:
  assumes "0 \<notin> set t" "length t + 6 < 512"
  shows "received_request True True (request_bytes v c ch t @ rest) (int (length t + 6)) =
    Inr \<lparr>version = v, command = c, channel_id = ch, msg_len = 0, msg = Some (t @ replicate 6 0)\<rparr>"
proof -
  have "nat (int (length t + 6) mod 2 ^ 64) = length t + 6"
    using assms(2) by (simp add: nat_mod_distrib nat_add_distrib)
  then show ?thesis
    using parse_request_bytes [OF assms(1), of 6 v c ch rest] assms(2)
    by (simp add: received_request_def request_bytes_def)
qed

lemma cstring_six: "0 \<notin> set t \<Longrightarrow> cstring (t @ replicate 6 0) = Inr t"
  using cstring_append_zero [of t "replicate 5 0"] by (simp add: numeral_eq_Suc)

definition login_user :: "int \<Rightarrow> byte list \<Rightarrow> user" where
  "login_user fd t = \<lparr>uid = ucast (word_of_int fd :: byte), uname = Some (t @ [0]), udp_fd_s = 0, udp_fd_r = 0\<rparr>"

lemma login_start:
  assumes "sv_view s W" "fd \<ge> 0" "0 \<notin> set t" "length t + 6 < 512"
    and "sv_os s = \<lparr>script = answer fd [] # answer (int (length t + 6)) (request_bytes v c ch t) # rest, calls = cs\<rparr>"
  shows "\<exists>s3. sv_view s3 W \<and> current_id s3 = fd \<and>
    sv_os s3 = \<lparr>script = rest, calls = cs @ [(SAccept lfd, fd), (SRecv fd LG_BUFF_SIZE, int (length t + 6))]\<rparr> \<and>
    login_event s lfd = rbind (if length t \<le> MAX_NAME_SIZE then login_step s3 fd (Some (t @ replicate 6 0))
        else Inr (0, s3)) (\<lambda>(push_res, s5).
      rbind (respond MD_BUFF_SIZE \<lparr>code = (if push_res \<noteq> 0 then LOGIN else of_int FAILURE), data_size = 0,
          data = Some ((if push_res \<noteq> 0 then str ''Success!'' else str ''Failure'') @ [0])\<rparr> s5)
        (\<lambda>s6. Inr (SUCCESS, s6)))"
proof -
  let ?w = "\<lparr>script = rest, calls = cs @ [(SAccept lfd, fd), (SRecv fd LG_BUFF_SIZE, int (length t + 6))]\<rparr>"
  let ?s3 = "s\<lparr>clock := Suc (Suc (Suc (clock s))), current_id := fd, sv_os := ?w\<rparr>"
  let ?b = "request_bytes v c ch t"
  let ?buf = "?b @ replicate (512 - (length t + 6)) 0"
  from assms(1) obtain g where g: "gc s = Some g" "ch_id g = 0" and mem: "\<forall>i. mem_ok s i"
    by (auto simp: sv_view_def sv_rep_def)
  have acc: "handle_new_accept lfd (sv_os s) = Inr (fd,
      \<lparr>script = answer (int (length t + 6)) ?b # rest, calls = cs @ [(SAccept lfd, fd)]\<rparr>)"
    using assms(2,5) by (simp add: handle_new_accept_def tcp_server_accept_def)
  have recv: "tcp_server_recv fd (replicate MD_BUFF_SIZE 0)
      \<lparr>script = answer (int (length t + 6)) ?b # rest, calls = cs @ [(SAccept lfd, fd)]\<rparr> =
      Inr (int (length t + 6), ?buf, ?w)"
    using assms(4) by (simp add: tcp_server_recv_def recv_into_def MD_BUFF_SIZE_def LG_BUFF_SIZE_def)
  have login: "cpt_login_response ?s3 (Some (t @ replicate 6 0)) =
      Inr (if length t > MAX_NAME_SIZE then NAME_TOO_LONG else SUCCESS)"
    using g cstring_six [OF assms(3)] by (simp add: cpt_login_response_def)
  have "login_event s lfd = rbind (if length t \<le> MAX_NAME_SIZE then login_step ?s3 fd (Some (t @ replicate 6 0))
        else Inr (0, ?s3)) (\<lambda>(push_res, s5).
      rbind (respond MD_BUFF_SIZE \<lparr>code = (if push_res \<noteq> 0 then LOGIN else of_int FAILURE), data_size = 0,
          data = Some ((if push_res \<noteq> 0 then str ''Success!'' else str ''Failure'') @ [0])\<rparr> s5)
        (\<lambda>s6. Inr (SUCCESS, s6)))"
  proof -
    have fd: "fd \<noteq> SYS_CALL_FAIL" using assms(2) by (simp add: SYS_CALL_FAIL_def)
    have "SUCCESS \<noteq> NAME_TOO_LONG" by (simp add: code_defs)
    with fd mem show ?thesis
      unfolding login_event_def acc rbind_Inr prod.case if_not_P [OF fd]
      by (simp add: alloc_def recv received_request_bytes [OF assms(3,4)] login cpt_response_init_def
          Let_def not_less del: rbind_eq_Inr of_nat_add)
  qed
  then show ?thesis using assms(1) by (intro exI [of _ ?s3]) simp
qed

lemma str_answers: "0 \<notin> set (str ''Success!'')" "0 \<notin> set (str ''Failure'')"
  "length (str ''Success!'') = 8" "length (str ''Failure'') = 7"
  by simp_all

lemma delivered_reply: "delivered fd (cs @ [(SAccept lfd, x), (SRecv fd n, y), (SSend fd d, int (length d))]) =
    delivered fd cs @ d"
  by simp

text \<open>A login with a name of at most twelve characters puts a new user in front of the global
  channel, answers \<open>Success!\<close> to the new connection and makes the caller register its descriptor. The
  id of the user is the descriptor modulo 256.\<close>

lemma login_registers:
  assumes "sv_view s W" "global W \<noteq> []" "fd \<ge> 0" "0 \<notin> set t" "length t \<le> MAX_NAME_SIZE"
    and "sv_os s = \<lparr>script = answer fd [] # answer (int (length t + 6)) (request_bytes v c ch t) #
      answer 11 [] # rest, calls = cs\<rparr>"
  shows "\<exists>s'. login_event s lfd = Inr (SUCCESS, s') \<and> sv_view s' (view_login (login_user fd t) W) \<and>
    user_key (login_user fd t) = fd mod 256 \<and> current_id s' = fd \<and> script (sv_os s') = rest \<and>
    delivered fd (calls (sv_os s')) = delivered fd cs @ reply LOGIN (str ''Success!'')"
proof -
  from assms(5) have "length t + 6 < 512" by (simp add: MAX_NAME_SIZE_def)
  from login_start [OF assms(1,3,4) this assms(6), of lfd] assms(5) obtain s3 where
    s3: "sv_view s3 W" "current_id s3 = fd" "sv_os s3 = \<lparr>script = answer 11 [] # rest,
        calls = cs @ [(SAccept lfd, fd), (SRecv fd LG_BUFF_SIZE, int (length t + 6))]\<rparr>"
    and ev: "login_event s lfd = rbind (login_step s3 fd (Some (t @ replicate 6 0))) (\<lambda>(push_res, s5).
      rbind (respond MD_BUFF_SIZE \<lparr>code = (if push_res \<noteq> 0 then LOGIN else of_int FAILURE), data_size = 0,
          data = Some ((if push_res \<noteq> 0 then str ''Success!'' else str ''Failure'') @ [0])\<rparr> s5)
        (\<lambda>s6. Inr (SUCCESS, s6)))"
    by auto
  from s3(1) obtain Au Ac d cs where S: "sv_rep s3 W Au Ac d cs" by (auto simp: sv_view_def)
  from sv_gc [OF S] obtain g lg where g: "gc s3 = Some g" "ch_users g = Some lg" by auto
  have mem: "mem_ok s3 n" for n using S by (simp add: sv_rep_def)
  have init: "user_init True fd fd (Some (t @ replicate 6 0)) = Inr (Some (login_user fd t))"
    using cstring_six [OF assms(4)] assms(5) by (simp add: user_init_def login_user_def)
  from login_sim [OF S g(1) assms(2), of "login_user fd t"] obtain uh where
    uh: "push_channel_user (sv_users s3) g (Some (login_user fd t)) = Inr (1, uh)"
      "sv_view (s3\<lparr>sv_users := uh\<rparr>) (view_login (login_user fd t) W)" by auto
  let ?s5 = "s3\<lparr>clock := Suc (clock s3), sv_users := uh\<rparr>"
  have step: "login_step s3 fd (Some (t @ replicate 6 0)) = Inr (1, ?s5)"
    using g init uh(1) mem by (simp add: login_step_def gc_users_def alloc_def)
  have view: "sv_view ?s5 (view_login (login_user fd t) W)"
    using uh(2) by (simp add: sv_view_def sv_rep_def)
  have "respond MD_BUFF_SIZE \<lparr>code = LOGIN, data_size = 0, data = Some (str ''Success!'' @ [0])\<rparr> ?s5 =
      Inr (?s5\<lparr>sv_os := (sv_os ?s5)\<lparr>script := rest,
        calls := calls (sv_os ?s5) @ [(SSend fd (reply LOGIN (str ''Success!'')), 11)]\<rparr>\<rparr>)"
    using respond_full [of _ "str ''Success!''" "[]" MD_BUFF_SIZE ?s5 "answer 11 []" rest] s3(2,3) str_answers
    by (simp add: MD_BUFF_SIZE_def del: str_simps)
  with ev step have "login_event s lfd = Inr (SUCCESS, ?s5\<lparr>sv_os := (sv_os ?s5)\<lparr>script := rest,
        calls := calls (sv_os ?s5) @ [(SSend fd (reply LOGIN (str ''Success!'')), 11)]\<rparr>\<rparr>)"
    by (simp del: str_simps)
  moreover have "user_key (login_user fd t) = fd mod 256" using user_init_id [OF init] .
  ultimately show ?thesis
    using view s3(2,3) by (simp del: str_simps add: str_answers)
qed

lemma login_registers_example:
  "\<exists>s s'. sv_view s demo \<and> login_event s 3 = Inr (SUCCESS, s') \<and>
     sv_view s' (2, [(1, [bob]), (0, [login_user 6 (str ''eve''), bob, alice, root_user])]) \<and>
     user_key (login_user 6 (str ''eve'')) = 6 \<and>
     delivered 6 (calls (sv_os s')) = reply LOGIN (str ''Success!'')"
proof -
  obtain s where s: "sv_view s demo" "sv_os s = \<lparr>script = answer 6 [] #
      answer (int (length (str ''eve'') + 6)) (request_bytes 32 LOGIN 0 (str ''eve'')) # answer 11 [] # [],
      calls = []\<rparr>" using demo_state by blast
  have "global demo \<noteq> []" "0 \<notin> set (str ''eve'')" "length (str ''eve'') \<le> MAX_NAME_SIZE"
    by (simp_all add: demo_def global_def MAX_NAME_SIZE_def)
  from login_registers [OF s(1) this(1) _ this(2,3) s(2), of 3] s(1) show ?thesis
    by (auto simp: view_login_def global_def demo_def simp del: str_simps)
qed

lemma login_refused_sim:
  assumes "sv_view s W" "fd \<ge> 0" "0 \<notin> set t" "MAX_NAME_SIZE < length t" "length t + 6 < 512"
    and "sv_os s = \<lparr>script = answer fd [] # answer (int (length t + 6)) (request_bytes v c ch t) #
      answer 10 [] # rest, calls = cs\<rparr>"
  shows "\<exists>s'. login_event s lfd = Inr (SUCCESS, s') \<and> sv_view s' W \<and> current_id s' = fd \<and> script (sv_os s') = rest \<and>
    delivered fd (calls (sv_os s')) = delivered fd cs @ reply (of_int FAILURE) (str ''Failure'')"
proof -
  from login_start [OF assms(1-3,5,6), of lfd] assms(4) obtain s3 where
    s3: "sv_view s3 W" "current_id s3 = fd" "sv_os s3 = \<lparr>script = answer 10 [] # rest,
        calls = cs @ [(SAccept lfd, fd), (SRecv fd LG_BUFF_SIZE, int (length t + 6))]\<rparr>"
    and ev: "login_event s lfd = rbind (respond MD_BUFF_SIZE \<lparr>code = of_int FAILURE, data_size = 0,
          data = Some (str ''Failure'' @ [0])\<rparr> s3) (\<lambda>s6. Inr (SUCCESS, s6))"
    by (auto simp del: str_simps)
  let ?s' = "s3\<lparr>sv_os := (sv_os s3)\<lparr>script := rest,
        calls := calls (sv_os s3) @ [(SSend fd (reply (of_int FAILURE) (str ''Failure'')), 10)]\<rparr>\<rparr>"
  have "respond MD_BUFF_SIZE \<lparr>code = of_int FAILURE, data_size = 0, data = Some (str ''Failure'' @ [0])\<rparr> s3 =
      Inr ?s'"
    using respond_full [of _ "str ''Failure''" "[]" MD_BUFF_SIZE s3 "answer 10 []" rest] s3(2,3) str_answers
    by (simp add: MD_BUFF_SIZE_def del: str_simps)
  with ev have "login_event s lfd = Inr (SUCCESS, ?s')" by (simp del: str_simps)
  moreover have "sv_view ?s' W" using s3(1) by simp
  ultimately show ?thesis
    using s3(2,3) by (simp del: str_simps add: str_answers)
qed

text \<open>C17: A login with a longer name (up to 505 characters) leaves the directory alone and answers
  \<open>Failure\<close>, but it is reported to the caller as a success, which registers the descriptor; if that
  client, who is in no channel, then asks for a new channel, the server dereferences a null
  pointer.\<close>

theorem login_refused:
  assumes "sv_view s W" "fd \<ge> 0" "0 \<notin> set t" "MAX_NAME_SIZE < length t" "length t + 6 < 512"
    and "sv_os s = \<lparr>script = answer fd [] # answer (int (length t + 6)) (request_bytes v c ch t) #
      answer 10 [] # rest, calls = cs\<rparr>"
    and "fd \<notin> ids (global W)" "query_arg q"
  shows "\<exists>s'. login_event s lfd = Inr (SUCCESS, s') \<and> sv_view s' W \<and> current_id s' = fd \<and>
    delivered fd (calls (sv_os s')) = delivered fd cs @ reply (of_int FAILURE) (str ''Failure'') \<and>
    cpt_create_channel_response s' q = Inl NullDeref"
proof -
  from login_refused_sim [OF assms(1-6), of lfd] obtain s' where
    s': "login_event s lfd = Inr (SUCCESS, s')" "sv_view s' W" "current_id s' = fd"
      "delivered fd (calls (sv_os s')) = delivered fd cs @ reply (of_int FAILURE) (str ''Failure'')" by blast
  moreover have "cpt_create_channel_response s' q = Inl NullDeref"
    using create_sim [OF s'(2)] query_arg_reads [OF assms(8)] assms(7) find_user_ids [of fd "global W"] s'(3)
    by (simp add: view_create_def refines_def del: str_simps)
  ultimately show ?thesis by blast
qed

theorem login_refused_witness:
  "\<exists>s s'. sv_view s demo \<and> login_event s 3 = Inr (SUCCESS, s') \<and> sv_view s' demo \<and>
     delivered 6 (calls (sv_os s')) = reply (of_int FAILURE) (str ''Failure'') \<and>
     cpt_create_channel_response s' None = Inl NullDeref"
proof -
  obtain s where s: "sv_view s demo" "sv_os s = \<lparr>script = answer 6 [] #
      answer (int (length (str ''Bartholomew X.'') + 6)) (request_bytes 32 LOGIN 0 (str ''Bartholomew X.'')) #
      answer 10 [] # [], calls = []\<rparr>" using demo_state by blast
  have h: "0 \<notin> set (str ''Bartholomew X.'')" "MAX_NAME_SIZE < length (str ''Bartholomew X.'')"
    "length (str ''Bartholomew X.'') + 6 < 512" "6 \<notin> ids (global demo)"
    by (simp_all add: demo_def global_def MAX_NAME_SIZE_def bob_def alice_def root_user_def)
  have "query_arg None" by (simp add: query_arg_def)
  from login_refused [OF s(1) _ h(1-3) s(2) h(4) this, of 3] s(1) show ?thesis
    by (auto simp del: str_simps)
qed

section \<open>Sending to a channel\<close>

definition receivers :: "int \<Rightarrow> user list \<Rightarrow> user list" where
  "receivers k us = filter (\<lambda>u. uid u \<noteq> 0 \<and> user_key u \<noteq> k) us"

definition sent_to :: "byte list \<Rightarrow> user list \<Rightarrow> (syscall \<times> int) list" where
  "sent_to d us = map (\<lambda>u. (SSend (user_key u) d, int (length d))) us"

lemma send_to_full:
  assumes "script (sv_os s) = a # rest" "sret a = int (length d)" "d \<noteq> []" "uint n = int (length d)"
  shows "send_to fd d n s = Inr (s\<lparr>sv_os := (sv_os s)\<lparr>script := rest,
    calls := calls (sv_os s) @ [(SSend fd d, int (length d))]\<rparr>\<rparr>)"
  using tcp_server_send_full [OF assms(1-3), of fd] assms(2,4) by (simp add: send_to_def)

lemma send_fold:
  assumes "d \<noteq> []" "uint n = int (length d)"
  shows "current_id s = k \<Longrightarrow>
    script (sv_os s) = replicate (length (receivers k us)) (answer (int (length d)) []) @ rest \<Longrightarrow>
    fold_res (\<lambda>u. send_to_user d n (Some u)) us s = Inr (s\<lparr>sv_os := (sv_os s)\<lparr>script := rest,
      calls := calls (sv_os s) @ sent_to d (receivers k us)\<rparr>\<rparr>)"
proof (induction us arbitrary: s)
  case Nil
  then show ?case by (simp add: receivers_def sent_to_def)
next
  case (Cons u us)
  show ?case
  proof (cases "uid u \<noteq> 0 \<and> user_key u \<noteq> k")
    case True
    then have "send_to_user d n (Some u) s = send_to (user_key u) d n s"
      using Cons.prems(1) by (simp add: send_to_user_def)
    with send_to_full [of s _ _ d n "user_key u"] assms Cons True show ?thesis
      by (simp add: receivers_def sent_to_def)
  next
    case False
    then have "send_to_user d n (Some u) s = Inr s"
      using Cons.prems(1) by (auto simp: send_to_user_def)
    with Cons False show ?thesis by (auto simp: receivers_def)
  qed
qed

text \<open>The part of \<open>send_event\<close> before the loop, for a channel with users.\<close>

lemma send_event_start:
  assumes "sv_view s W" "map_of (snd W) cid = Some us" "us \<noteq> []" "0 \<notin> set t" "length t + 3 \<le> 1024"
  shows "\<exists>s3 r. sv_view s3 W \<and> quiet s s3 \<and> sv_os s3 = sv_os s \<and> info_res s3 = ResLive r \<and>
    send_event s (Some (t @ 0 # z)) (uint cid) =
      rbind (fold_res (\<lambda>u. send_to_user (reply SEND t) (of_nat (length t + 3)) (Some u)) us s3)
        info_res_destroy"
proof -
  from assms(1) obtain Au Ac d cs where S: "sv_rep s W Au Ac d cs" by (auto simp: sv_view_def)
  from assms(2) obtain c l where
    c: "find_channel (sv_chans s) (dir s) cid = Inr (Some c)" "ch_users c = Some l"
      "Au l = Some (int (length us), us)" "rep (sv_users s) Au"
    by (cases rule: sv_channel_cases [OF S, of cid]) auto
  from c(3,4) assms(3) obtain L a where L: "deref_list (sv_users s) (Some l) = Inr L" "ll_head L = Some a"
  proof -
    from c(4) obtain N where N: "repN (sv_users s) N Au" by (auto simp: rep_def)
    from list_head [OF repN_list [OF N c(3)]] assms(3) that show ?thesis by (cases "N l") auto
  qed
  let ?r = "\<lparr>code = SEND, data_size = of_nat (length t), data = Some (t @ [0])\<rparr>"
  let ?s3 = "s\<lparr>clock := Suc (clock s), info_res := ResLive ?r\<rparr>"
  have ser: "cpt_serialize_response LG_BUFF_SIZE ?r = Inr (of_nat (length t + 3), reply SEND t)"
    using serialize_reply [of ?r t "[]" LG_BUFF_SIZE] assms(4,5) by (simp add: LG_BUFF_SIZE_def)
  have walk: "iter_nodes (fuel (sv_users s)) (sv_users s) (Some a) body s0 =
      fold_res (\<lambda>u. body (Some u)) us s0" for body and s0 :: server
    using iter_list_store [OF c(4,3), of body s0] L by (simp add: iter_list_def get_head_node_def)
  have dr: "deref_res (s\<lparr>clock := n, info_res := ResLive x\<rparr>) = Inr x" for n x
    by (simp add: deref_res_def)
  have upd: "s\<lparr>clock := n, info_res := p, info_res := q\<rparr> = s\<lparr>clock := n, info_res := q\<rparr>"
      "\<lparr>code = 0, data_size = 0, data = None\<rparr>\<lparr>code := a1, data_size := a2, data := a3\<rparr> =
        \<lparr>code = a1, data_size = a2, data = a3\<rparr>"
      "sv_users (s\<lparr>clock := n, info_res := p\<rparr>) = sv_users s" for n p q a1 a2 a3
    by simp_all
  have "mem_ok s (clock s)" using S by (simp add: sv_rep_def)
  then have "send_event s (Some (t @ 0 # z)) (uint cid) =
      rbind (fold_res (\<lambda>u. send_to_user (reply SEND t) (of_nat (length t + 3)) (Some u)) us ?s3)
        info_res_destroy"
    using c(1,2) L assms(4)
    unfolding send_event_def word_of_int_uint c(1) rbind_Inr option.case get_head_user_def get_head_node_def
      c(2) L
    by (simp only: alloc_def prod.case Let_def option.simps if_False rbind_Inr not_False_eq_True
        cpt_response_init_def res_of_def if_True option.case dr cstring_append_zero [OF assms(4)]
        upd ser walk)
  moreover have "sv_view ?s3 W" "quiet s ?s3" "sv_os ?s3 = sv_os s" "info_res ?s3 = ResLive ?r"
    using assms(1) by (simp_all add: quiet_def)
  ultimately show ?thesis by blast
qed

text \<open>A SEND to a channel delivers the message once to every user of the channel but the sender
  and the root user, in the order of the list and as one packet each, as long as every \<open>send\<close> takes
  the whole packet. The directory does not change.\<close>

lemma send_broadcasts:
  assumes "sv_view s W" "map_of (snd W) cid = Some us" "us \<noteq> []" "0 \<notin> set t" "length t + 3 \<le> 1024"
    and "script (sv_os s) = replicate (length (receivers (current_id s) us)) (answer (int (length t + 3)) []) @ rest"
  shows "\<exists>s'. send_event s (Some (t @ 0 # z)) (uint cid) = Inr s' \<and> sv_view s' W \<and>
    sv_os s' = \<lparr>script = rest, calls = calls (sv_os s) @ sent_to (reply SEND t) (receivers (current_id s) us)\<rparr>"
proof -
  from send_event_start [OF assms(1-5), of z] obtain s3 r where
    s3: "sv_view s3 W" "quiet s s3" "sv_os s3 = sv_os s" "info_res s3 = ResLive r"
    and ev: "send_event s (Some (t @ 0 # z)) (uint cid) =
      rbind (fold_res (\<lambda>u. send_to_user (reply SEND t) (of_nat (length t + 3)) (Some u)) us s3)
        info_res_destroy" by blast
  from s3(2) have k: "current_id s3 = current_id s" by (simp add: quiet_def)
  have n: "reply SEND t \<noteq> []" "uint (of_nat (length t + 3) :: u32) = int (length (reply SEND t))"
    using uint_u32_len [of "length t + 3"] assms(5) by (simp_all add: reply_def del: of_nat_add)
  let ?w = "(sv_os s)\<lparr>script := rest, calls := calls (sv_os s) @ sent_to (reply SEND t) (receivers (current_id s) us)\<rparr>"
  have "fold_res (\<lambda>u. send_to_user (reply SEND t) (of_nat (length t + 3)) (Some u)) us s3 =
      Inr (s3\<lparr>sv_os := ?w\<rparr>)"
    using send_fold [OF n, of s3 "current_id s" us rest] k s3(3) assms(6) by simp
  with ev s3(4) have "send_event s (Some (t @ 0 # z)) (uint cid) = Inr (s3\<lparr>sv_os := ?w, info_res := ResFreed\<rparr>)"
    by (simp add: info_res_destroy_def)
  then show ?thesis using s3(1) by (cases "sv_os s") simp
qed

lemma send_broadcasts_example:
  "\<exists>s s'. sv_view s demo \<and> current_id s = 4 \<and> send_event s (Some (str ''hi'' @ [0])) 0 = Inr s' \<and>
     calls (sv_os s') = [(SSend 5 (reply SEND (str ''hi'')), 5)]"
proof -
  obtain s where s: "sv_view s demo" "current_id s = 4"
    "sv_os s = \<lparr>script = [answer 5 []], calls = []\<rparr>" using demo_state by blast
  have r: "receivers 4 [bob, alice, root_user] = [bob]"
    by (simp add: receivers_def bob_def alice_def root_user_def)
  have "map_of (snd demo) 0 = Some [bob, alice, root_user]" by (simp add: demo_def)
  from send_broadcasts [OF s(1) this, of "str ''hi''" "[]" "[]"] s r show ?thesis
    by (auto simp: sent_to_def bob_def)
qed

text \<open>A SEND to a channel that does not exist ends every reachable server: the response pointer
  of the server is freed although no response was made for it, and in every reachable state it has
  never been set or has been freed before.\<close>

lemma send_unknown_crash:
  assumes "fresh_server s0" "reachable s0 s" "sv_view s W" "map_of (snd W) cid = None"
  shows "serve (Request stale fd \<lparr>version = v, command = SEND, channel_id = cid, msg_len = n, msg = m\<rparr>) s =
    Inl BadFree"
proof -
  from assms(3) have "sv_view (s\<lparr>current_id := fd\<rparr>) W" by simp
  then obtain Au Ac d cs where S: "sv_rep (s\<lparr>current_id := fd\<rparr>) W Au Ac d cs" by (auto simp: sv_view_def)
  from assms(4) have "find_channel (sv_chans s) (dir s) cid = Inr None"
    by (cases rule: sv_channel_cases [OF S, of cid]) auto
  moreover from reachable_ok [OF assms(1,2)] have "info_res s \<in> {ResWild, ResFreed}"
    by (simp add: session_ok_def)
  ultimately have "send_event (s\<lparr>current_id := fd\<rparr>) m (uint cid) = Inl BadFree"
    by (auto simp: send_event_def info_res_destroy_def)
  then show ?thesis by (simp add: serve_def handle_event_def event_step_def)
qed

lemma send_unknown_crash_example:
  "\<exists>s. reachable blank s \<and>
     serve (Request 0 5 \<lparr>version = 32, command = SEND, channel_id = 9, msg_len = 0, msg = None\<rparr>) s = Inl BadFree"
proof -
  have f: "fresh_server blank" using blank_room by (simp add: fresh_server_def)
  from setup_sim [OF blank_room] obtain s W where s: "server_setup blank = Inr (Some s)"
    "sv_view s (junk (sv_chans blank) (brk (sv_chans blank) + 2) + 1, [(0, [root_user])])" by auto
  from send_unknown_crash [OF f reachable.start [OF s(1)] s(2), of 9 0 5 32 0 None] reachable.start [OF s(1)]
  show ?thesis by auto
qed

section \<open>Joining, on the wire\<close>

text \<open>The answer to a successful JOIN carries the two bytes of the channel id as if they were a
  string.\<close>

lemma unat_high: "unat (drop_bit 8 w) = unat w div 256" for w :: u16
proof -
  have "unat w < 2 ^ 16" using unsigned_less [of w] by simp
  then have "take_bit 16 (unat w) = unat w" by (rule take_bit_nat_eq_self)
  then show ?thesis by (simp only: unsigned_drop_bit_eq) (simp add: drop_bit_eq_div)
qed

lemma u16_bytes_small: "unat w < 256 \<Longrightarrow> u16_bytes w = [ucast w, 0]" for w :: u16
proof -
  assume "unat w < 256"
  then have "unat (drop_bit 8 w) = 0" by (simp only: unat_high)
  then have "drop_bit 8 w = 0" by (simp only: unat_eq_0)
  then show "u16_bytes w = [ucast w, 0]" by (simp only: u16_bytes_def) (simp only: unsigned_0)
qed

lemma u16_high_nonzero: "256 \<le> unat w \<Longrightarrow> (ucast (drop_bit 8 w) :: byte) \<noteq> 0" for w :: u16
proof
  assume w: "256 \<le> unat w" and z: "(ucast (drop_bit 8 w) :: byte) = 0"
  have "unat w < 65536" using unsigned_less [of w] by simp
  then have "unat (drop_bit 8 w) < 256" by (simp only: unat_high)
  then have "unat (ucast (drop_bit 8 w) :: byte) = unat (drop_bit 8 w)"
    by (simp only: unsigned_ucast_eq) (simp add: take_bit_nat_eq_self del: unsigned_drop_bit_eq)
  with z have "unat (drop_bit 8 w) = 0" by (metis unsigned_0)
  with w show False by (simp only: unat_high)
qed

lemma ucast_small_nonzero: "0 < unat w \<Longrightarrow> unat w < 256 \<Longrightarrow> (ucast w :: byte) \<noteq> 0" for w :: u16
  by (auto simp: word_unat_eq_iff unsigned_ucast_eq take_bit_nat_eq_self)

lemma serialize_overrun:
  assumes "data r = Some a" "0 \<notin> set a"
  shows "cpt_serialize_response cap r = Inl OutOfBounds"
proof -
  have "cstring a = Inl OutOfBounds"
    using assms(2) by (simp add: cstring_def rbind_eq_Inl cstrlen_eq_Inl)
  with assms(1) show ?thesis
    by (auto simp: cpt_serialize_response_def rbind_eq_Inl Let_def)
qed

lemma join_event_success:
  assumes "cpt_join_channel_response s cid = Inr (SUCCESS, s1)" "mem_ok s1 (clock s1)"
  shows "join_channel_event s cid = respond MD_BUFF_SIZE
    \<lparr>code = JOIN_CHANNEL, data_size = 2, data = Some (u16_bytes cid)\<rparr> (s1\<lparr>clock := Suc (clock s1)\<rparr>)"
  using assms by (simp add: join_channel_event_def alloc_def cpt_response_init_def)

lemma join_event_outcome_sim:
  assumes "sv_view s W" "script (sv_os s) = answer 4 [] # rest"
    and "view_join (current_id s) cid W = Inr (r, W')"
  shows "(r = SUCCESS \<and> 0 < unat cid \<and> unat cid < 256 \<longrightarrow>
      (\<exists>s'. join_channel_event s cid = Inr s' \<and> sv_view s' W' \<and>
        calls (sv_os s') = calls (sv_os s) @ [(SSend (current_id s) (reply JOIN_CHANNEL [ucast cid]), 4)])) \<and>
    (r = SUCCESS \<and> 256 \<le> unat cid \<and> (ucast cid :: byte) \<noteq> 0 \<longrightarrow> join_channel_event s cid = Inl OutOfBounds) \<and>
    (r \<noteq> SUCCESS \<longrightarrow> join_channel_event s cid = Inl Dangling)"
proof -
  from join_sim [OF assms(1), of cid] assms(3) obtain s1 where
    s1: "cpt_join_channel_response s cid = Inr (r, s1)" "sv_view s1 W'" "same_session s s1"
    by (auto simp: refines_def)
  from s1(2) have mem: "mem_ok s1 (clock s1)" by (auto simp: sv_view_def sv_rep_def)
  let ?s1 = "s1\<lparr>clock := Suc (clock s1)\<rparr>"
  have os: "sv_os ?s1 = sv_os s" "current_id ?s1 = current_id s" "sv_view ?s1 W'"
    using s1(2,3) by (simp_all add: same_session_def)
  show ?thesis
  proof (intro conjI impI)
    assume r: "r = SUCCESS \<and> 0 < unat cid \<and> unat cid < 256"
    have "join_channel_event s cid = Inr (?s1\<lparr>sv_os := (sv_os s)\<lparr>script := rest,
        calls := calls (sv_os s) @ [(SSend (current_id s) (reply JOIN_CHANNEL [ucast cid]), 4)]\<rparr>\<rparr>)"
      using join_event_success [OF s1(1) [unfolded conjunct1 [OF r]] mem] u16_bytes_small [of cid] r os(1,2)
        respond_full [of "\<lparr>code = JOIN_CHANNEL, data_size = 2, data = Some [ucast cid, 0]\<rparr>" "[ucast cid]" "[]"
          MD_BUFF_SIZE ?s1 "answer 4 []" rest] ucast_small_nonzero [of cid] assms(2)
      by (simp add: MD_BUFF_SIZE_def)
    then show "\<exists>s'. join_channel_event s cid = Inr s' \<and> sv_view s' W' \<and>
        calls (sv_os s') = calls (sv_os s) @ [(SSend (current_id s) (reply JOIN_CHANNEL [ucast cid]), 4)]"
      using os(3) by simp
  next
    assume r: "r = SUCCESS \<and> 256 \<le> unat cid \<and> (ucast cid :: byte) \<noteq> 0"
    then have "(ucast (drop_bit 8 cid) :: byte) \<noteq> 0" using u16_high_nonzero [of cid] by blast
    with r serialize_overrun [of "\<lparr>code = JOIN_CHANNEL, data_size = 2, data = Some (u16_bytes cid)\<rparr>"]
    show "join_channel_event s cid = Inl OutOfBounds"
      using join_event_success [OF s1(1) [unfolded conjunct1 [OF r]] mem]
      by (simp add: respond_def u16_bytes_def)
  next
    assume "r \<noteq> SUCCESS"
    with s1(1) mem show "join_channel_event s cid = Inl Dangling"
      by (simp add: join_channel_event_def alloc_def cpt_response_init_def)
  qed
qed

text \<open>C19: A JOIN request is answered correctly for the channels 1 to 255 only. The answer to a
  successful join is the id byte there; the ids that are neither below 256 nor have a zero low byte
  are read past their end; and a join that fails (no such channel, or the client is not logged in)
  always reads the freed failure message.\<close>

theorem join_event_outcome:
  assumes "sv_view s W" "script (sv_os s) = answer 4 [] # rest"
    and "view_join (current_id s) cid W = Inr (r, W')"
  shows "(r = SUCCESS \<and> 0 < unat cid \<and> unat cid < 256 \<longrightarrow>
      (\<exists>s'. join_channel_event s cid = Inr s' \<and> sv_view s' W' \<and>
        calls (sv_os s') = calls (sv_os s) @ [(SSend (current_id s) (reply JOIN_CHANNEL [ucast cid]), 4)])) \<and>
    (r = SUCCESS \<and> 256 \<le> unat cid \<and> (ucast cid :: byte) \<noteq> 0 \<longrightarrow> join_channel_event s cid = Inl OutOfBounds) \<and>
    (r \<noteq> SUCCESS \<longrightarrow> join_channel_event s cid = Inl Dangling)"
  by (rule join_event_outcome_sim [OF assms])

theorem join_event_outcome_witness:
  "\<exists>s s'. sv_view s demo \<and> current_id s = 4 \<and> join_channel_event s 1 = Inr s' \<and>
     sv_view s' (2, [(1, [alice, bob]), (0, [bob, alice, root_user])]) \<and>
     calls (sv_os s') = [(SSend 4 (reply JOIN_CHANNEL [1]), 4)]"
proof -
  obtain s where s: "sv_view s demo" "current_id s = 4"
    "sv_os s = \<lparr>script = [answer 4 []], calls = []\<rparr>" using demo_state by blast
  have "view_join 4 1 demo = Inr (SUCCESS, 2, [(1, [alice, bob]), (0, [bob, alice, root_user])])"
    by (simp add: view_join_def demo_def global_def alice_def bob_def)
  with join_event_outcome [OF s(1), of "[]" 1] s show ?thesis by auto
qed

section \<open>The reachable directories\<close>

text \<open>In every state the server reaches from its setup by accepting clients, serving requests and
  logging clients out, whatever the requests and the operating system are: the last channel of the
  directory is the global channel, no user is twice in another channel, every user has a name
  of at most twelve characters, and the length field of the directory, from which the ids of new
  channels are taken, exceeds the number of channels by what the fresh block held before it
  was incremented.\<close>

lemma reachable_directory:
  assumes "fresh_server s0" "reachable s0 s"
  shows "\<exists>V us. sv_view s (length_slack s0 + int (length V + 1), V @ [(0, us)]) \<and>
    list_all (\<lambda>v. distinct (map user_key (snd v))) V \<and>
    list_all (\<lambda>v. list_all well_named (snd v)) (V @ [(0, us)])"
proof -
  from reachable_chat [OF assms] obtain W where W: "sv_view s W" "view_ok (length_slack s0) W" by blast
  then obtain V us where V: "W = (length_slack s0 + int (length V + 1), V @ [(0, us)])"
    "\<forall>v\<in>set V. entry_ok v" "\<forall>u\<in>set us. well_named u"
    by (cases W) (auto simp: view_ok_def)
  with W(1) show ?thesis by (auto simp: entry_ok_def list_all_iff)
qed

lemma reachable_directory_example:
  "\<exists>s. reachable blank s \<and> (\<exists>V us. sv_view s (length_slack blank + int (length V + 1), V @ [(0, us)]) \<and>
    list_all (\<lambda>v. distinct (map user_key (snd v))) V \<and>
    list_all (\<lambda>v. list_all well_named (snd v)) (V @ [(0, us)]))"
proof -
  from setup_sim [OF blank_room] obtain s where "server_setup blank = Inr (Some s)" by blast
  then have "reachable blank s" by (rule reachable.start)
  moreover have "fresh_server blank" using blank_room by (simp add: fresh_server_def)
  ultimately show ?thesis using reachable_directory [of blank s] by blast
qed

end
