(* ===== verification/Chat_Server.thy ===== *)
theory Chat_Server
  imports Wire
begin

text \<open>
  The main loop of cpt_chat_server.c: the table of polled descriptors, accepting clients, serving
  one request of each ready client, closing connections and compressing the table.

  The array \<open>poll_fds\<close> is a function from indices; every access is checked against its size
  \<open>MAX_SERVER_FDS\<close>. The k-th byte of the answer to \<open>poll\<close> is the \<open>revents\<close> of the k-th entry.
\<close>

unbundle bit_operations_syntax

section \<open>State\<close>

definition MAX_SERVER_FDS :: nat where "MAX_SERVER_FDS = 2048"
definition SERV_FATAL :: int where "SERV_FATAL = 666"
definition POLLIN :: byte where "POLLIN = 1"
definition POLLHUP :: byte where "POLLHUP = 16"
definition ENOMEM :: int where "ENOMEM = 12"

record pollfd =
  p_fd :: int
  p_events :: byte
  p_revents :: byte

text \<open>The static variables of the file, with the server they work on. \<open>stale\<close> is what a freed
  request holds where its command was, at a given count of allocations.\<close>

record loop =
  srv :: server
  poll_fds :: "nat \<Rightarrow> pollfd"
  nfds :: nat
  gcfd :: int
  close_conn :: bool
  compress_array :: bool
  is_fatal_error :: bool
  stale :: "nat \<Rightarrow> byte"

definition no_fd :: pollfd where
  "no_fd = \<lparr>p_fd = 0, p_events = 0, p_revents = 0\<rparr>"

definition slot :: "nat \<Rightarrow> unit res" where
  "slot i = guard_res OutOfBounds (i < MAX_SERVER_FDS)"

section \<open>The functions of cpt_chat_server.c\<close>

definition is_revent_POLLIN :: "pollfd \<Rightarrow> bool" where
  "is_revent_POLLIN p \<longleftrightarrow> p_revents p AND POLLIN \<noteq> 0"

definition listen_socket_init :: "loop \<Rightarrow> loop res" where
  "listen_socket_init l =
     rbind (tcp_server_init (Some IP_LOCAL_LB) (Some PORT_8080) (sv_os (srv l))) (\<lambda>(fd, w).
       if fd \<noteq> SYS_CALL_FAIL then
         (case gc (srv l) of None \<Rightarrow> Inl NullDeref
          | Some g \<Rightarrow> Inr (l\<lparr>
              srv := (srv l)\<lparr>sv_os := w, gc := Some (g\<lparr>ch_fd := fd\<rparr>)\<rparr>, gcfd := fd,
              poll_fds := (\<lambda>_. no_fd)(0 := \<lparr>p_fd = fd, p_events = POLLIN, p_revents = 0\<rparr>)\<rparr>))
       else Inl (ExitProcess SERV_FATAL))"

definition should_end_event_loop :: "int \<Rightarrow> bool" where
  "should_end_event_loop poll_result \<longleftrightarrow> poll_result < 0 \<or> poll_result = 0"

definition close_connections :: "nat \<Rightarrow> loop \<Rightarrow> loop" where
  "close_connections i l = l\<lparr>
     srv := (srv l)\<lparr>sv_os := log_call (SClose (p_fd (poll_fds l i))) (sv_os (srv l))\<rparr>,
     poll_fds := (poll_fds l)(i := (poll_fds l i)\<lparr>p_fd := -1\<rparr>), compress_array := True\<rparr>"

text \<open>The two loops of \<open>compress_fds\<close>: the inner one moves descriptors down by one from \<open>j\<close> on, and
  the outer one then looks at the same index again.\<close>

function shift_fds :: "nat \<Rightarrow> nat \<Rightarrow> (nat \<Rightarrow> pollfd) \<Rightarrow> (nat \<Rightarrow> pollfd) res" where
  "shift_fds j n fds =
     (if j < n then
        rbind (slot (j + 1)) (\<lambda>_. shift_fds (j + 1) n (fds(j := (fds j)\<lparr>p_fd := p_fd (fds (j + 1))\<rparr>)))
      else Inr fds)"
  by pat_completeness auto
termination by (relation "measure (\<lambda>(j, n, fds). n - j)") auto

function compress_loop :: "nat \<Rightarrow> nat \<Rightarrow> (nat \<Rightarrow> pollfd) \<Rightarrow> (nat \<times> (nat \<Rightarrow> pollfd)) res" where
  "compress_loop i n fds =
     (if i < n then
        if p_fd (fds i) = -1 then rbind (shift_fds i n fds) (compress_loop i (n - 1))
        else compress_loop (i + 1) n fds
      else Inr (n, fds))"
  by pat_completeness auto
termination by (relation "measure (\<lambda>(i, n, fds). n - i)") auto

declare shift_fds.simps [simp del] compress_loop.simps [simp del]

definition compress_fds :: "loop \<Rightarrow> loop res" where
  "compress_fds l = rbind (compress_loop 0 (nfds l) (poll_fds l)) (\<lambda>(n, fds).
     Inr (l\<lparr>compress_array := False, nfds := n, poll_fds := fds\<rparr>))"

section \<open>What the loop consumes\<close>

text \<open>Every operation consumes answers of the operating system, none adds any: the loops of \<open>run\<close>
  end because each round waits for one.\<close>

abbreviation answers_left :: "server \<Rightarrow> nat" where
  "answers_left s \<equiv> length (script (sv_os s))"

lemma tcp_server_send_left:
  assumes "tcp_server_send fd out n w = Inr (r, w')"
  shows "length (script w') \<le> length (script w)"
proof -
  from assms obtain x w1 where x: "send_loop fd out n n None w = Inr (x, w1)"
    "(case x of None \<Rightarrow> Inl Uninit | Some y \<Rightarrow> if sret y < 0 \<and> serr y \<noteq> 0 then Inl (ExitProcess 1)
       else Inr (if sret y \<noteq> 0 then 0 else -1, w1)) = Inr (r, w')"
    unfolding tcp_server_send_def rbind_eq_Inr by auto
  from x(2) have "w' = w1" by (cases x) (simp_all split: if_splits)
  with send_loop_left [OF x(1)] show ?thesis by simp
qed

lemma send_to_left: "send_to fd out n s = Inr s' \<Longrightarrow> answers_left s' \<le> answers_left s"
  by (auto simp: send_to_def dest: tcp_server_send_left)

lemma respond_left: "respond cap r s = Inr s' \<Longrightarrow> answers_left s' \<le> answers_left s"
  by (auto simp: respond_def dest: send_to_left)

lemma recv_left: "tcp_server_recv fd buf w = Inr (n, got, w') \<Longrightarrow> length (script w') < length (script w)"
  by (auto simp: tcp_server_recv_def recv_into_def Let_def dest: sys_length)

text \<open>The request handlers do not talk to the operating system.\<close>

lemma join_response_os: "cpt_join_channel_response s cid = Inr (r, s') \<Longrightarrow> sv_os s' = sv_os s"
  by (auto simp: cpt_join_channel_response_def split: option.splits if_splits)

lemma leave_response_os: "cpt_leave_channel_response s cid = Inr (r, s') \<Longrightarrow> sv_os s' = sv_os s"
  by (auto simp: cpt_leave_channel_response_def split: option.splits if_splits)

lemma new_channel_users_os:
  assumes "new_channel_users s g q = Inr (us, s')"
  shows "sv_os s' = sv_os s"
  using assms unfolding new_channel_users_def
proof (rule rbind_pairE)
  fix us1 s2
  assume m: "(if q = None then Inr (None, s)
         else (case alloc s of (ok, s1) \<Rightarrow>
           rbind (filter_channel_users ok (sv_users s1) (Some g)
               (word_of_int (current_id s1) # replicate (SM_BUFF_SIZE - 1) 0) q)
             (\<lambda>(users, uh). Inr (users, s1\<lparr>sv_users := uh\<rparr>)))) = Inr (us1, s2)"
    and f: "(if us1 \<noteq> None then Inr (us1, s2)
         else rbind (find_user (sv_users s2) (ch_users g) (current_id s2)) (\<lambda>user.
           rbind (create_user_node (sv_users s2) user) (\<lambda>(user_node, uh1).
           rbind (users_init uh1 user_node) (\<lambda>(users, uh2).
             Inr (users, s2\<lparr>sv_users := uh2\<rparr>))))) = Inr (us, s')"
  have "sv_os s2 = sv_os s"
  proof (cases q)
    case None
    with m show ?thesis by simp
  next
    case (Some a)
    with m obtain us2 uh where "Inr (us2, s\<lparr>clock := Suc (clock s), sv_users := uh\<rparr>) = (Inr (us1, s2) :: _ res)"
      by (simp only: alloc_def prod.case option.simps if_False) (erule rbind_pairE)
    then show ?thesis by auto
  qed
  moreover from f have "sv_os s' = sv_os s2" by (cases us1) auto
  ultimately show ?thesis by simp
qed

lemma create_response_os:
  assumes "cpt_create_channel_response s q = Inr (r, s')"
  shows "sv_os s' = sv_os s"
proof (cases "gc s")
  case None
  with assms show ?thesis by (simp add: cpt_create_channel_response_def)
next
  case (Some g)
  with assms have "rbind (new_channel_users s g q) (\<lambda>(us, s1).
      rbind (deref_list (sv_chans s1) (dir s1)) (\<lambda>L.
      case channel_init (mem_ok s1 (clock s1)) (word_of_int (ll_length L)) us of
        None \<Rightarrow> Inr (SUCCESS, s1\<lparr>clock := Suc (clock s1)\<rparr>)
      | Some c \<Rightarrow> rbind (push_channel (sv_chans s1) (dir s1) (Some c)) (\<lambda>(push_res, ch).
          Inr (if push_res \<noteq> 0 then SUCCESS else FAILURE,
               s1\<lparr>clock := Suc (clock s1), sv_chans := ch\<rparr>)))) = Inr (r, s')"
    by (simp add: cpt_create_channel_response_def alloc_def del: rbind_eq_Inr cong: option.case_cong)
  then show ?thesis
  proof (rule rbind_pairE)
    fix us s1
    assume m: "new_channel_users s g q = Inr (us, s1)"
      and "rbind (deref_list (sv_chans s1) (dir s1)) (\<lambda>L.
      case channel_init (mem_ok s1 (clock s1)) (word_of_int (ll_length L)) us of
        None \<Rightarrow> Inr (SUCCESS, s1\<lparr>clock := Suc (clock s1)\<rparr>)
      | Some c \<Rightarrow> rbind (push_channel (sv_chans s1) (dir s1) (Some c)) (\<lambda>(push_res, ch).
          Inr (if push_res \<noteq> 0 then SUCCESS else FAILURE,
               s1\<lparr>clock := Suc (clock s1), sv_chans := ch\<rparr>))) = Inr (r, s')"
    then have "sv_os s' = sv_os s1" by (auto split: option.splits)
    with new_channel_users_os [OF m] show ?thesis by simp
  qed
qed

lemma get_users_response_os: "cpt_get_users_response s cid = Inr (r, s') \<Longrightarrow> sv_os s' = sv_os s"
  by (auto simp: cpt_get_users_response_def Let_def split_beta split: option.splits)

lemma logout_channel_os: "logout_channel s c = Inr s' \<Longrightarrow> sv_os s' = sv_os s"
  by (auto simp: logout_channel_def split: if_splits)

lemma logout_walk_os: "logout_walk n s p = Inr s' \<Longrightarrow> sv_os s' = sv_os s"
proof (induction n arbitrary: s p)
  case 0
  then show ?case by simp
next
  case (Suc n)
  then show ?case by (fastforce simp: Let_def split: if_splits option.splits dest: logout_channel_os)
qed

lemma logout_response_os: "cpt_logout_response s = Inr (r, s') \<Longrightarrow> sv_os s' = sv_os s"
  by (auto simp: cpt_logout_response_def split: option.splits if_splits dest: logout_walk_os)

lemma join_event_left: "join_channel_event s cid = Inr s' \<Longrightarrow> answers_left s' \<le> answers_left s"
  by (erule join_event_cases) (drule respond_left join_response_os, simp)+

lemma leave_event_left: "leave_channel_event s cid = Inr s' \<Longrightarrow> answers_left s' \<le> answers_left s"
  by (erule leave_event_cases) (drule respond_left leave_response_os, simp)+

lemma create_event_left: "create_channel_event s q = Inr s' \<Longrightarrow> answers_left s' \<le> answers_left s"
  by (erule create_event_cases) (drule respond_left create_response_os, simp)+

lemma logout_event_left: "logout_event s = Inr s' \<Longrightarrow> answers_left s' \<le> answers_left s"
  by (auto simp: logout_event_def dest: logout_response_os)

lemma info_res_destroy_os: "info_res_destroy s = Inr s' \<Longrightarrow> sv_os s' = sv_os s"
  by (auto simp: info_res_destroy_def split: res_ptr.splits)

lemma get_users_event_left:
  assumes "get_users_event s cid = Inr s'"
  shows "answers_left s' \<le> answers_left s"
proof -
  from assms obtain r s2 x s3 where
    "cpt_get_users_response (s\<lparr>clock := Suc (clock s), info_res := res_of (cpt_response_init (mem_ok s (clock s)))\<rparr>)
       (word_of_int cid) = Inr (r, s2)" "respond LG_BUFF_SIZE x s2 = Inr s3" "info_res_destroy s3 = Inr s'"
    by (auto simp: get_users_event_def alloc_def)
  from get_users_response_os [OF this(1)] respond_left [OF this(2)] info_res_destroy_os [OF this(3)]
  show ?thesis by simp
qed

lemma send_to_user_left: "send_to_user out n u s = Inr s' \<Longrightarrow> answers_left s' \<le> answers_left s"
  by (auto simp: send_to_user_def split: option.splits if_splits dest: send_to_left)

lemma send_walk_left:
  "iter_nodes k h p (send_to_user out n) s = Inr s' \<Longrightarrow> answers_left s' \<le> answers_left s"
  using iter_nodes_invariant [of "\<lambda>t. answers_left t \<le> answers_left s" "send_to_user out n" s k h p s']
  by (meson le_trans order_refl send_to_user_left)

lemma send_event_left:
  assumes "send_event s m cid = Inr s'"
  shows "answers_left s' \<le> answers_left s"
proof -
  from assms obtain s1 where s1: "info_res_destroy s1 = Inr s'"
    "s1 = s \<or> (\<exists>x out n p h k. iter_nodes k h p (send_to_user out n)
        (s\<lparr>clock := Suc (clock s), info_res := x\<rparr>) = Inr s1)"
    by (auto simp: send_event_def alloc_def Let_def split_beta split: option.split_asm if_split_asm) blast+
  from s1(2) have "answers_left s1 \<le> answers_left s"
    using send_walk_left by fastforce
  with info_res_destroy_os [OF s1(1)] show ?thesis by simp
qed

lemma event_step_left:
  assumes "event_step stl cmd handler p = Inr p'"
    "\<And>t t'. handler t = Inr t' \<Longrightarrow> answers_left t' \<le> answers_left t"
  shows "answers_left (snd (snd p')) \<le> answers_left (snd (snd p))"
  using assms by (auto simp: event_step_def split: prod.splits if_splits)

lemma handle_event_left:
  assumes "handle_event stl s req = Inr s'"
  shows "answers_left s' \<le> answers_left s"
proof -
  from assms obtain p1 p2 p3 p4 f c where
    p: "event_step stl SEND (\<lambda>s. send_event s (msg req) (uint (channel_id req))) (False, command req, s) = Inr p1"
      "event_step stl GET_USERS (\<lambda>s. get_users_event s (uint (channel_id req))) p1 = Inr p2"
      "event_step stl CREATE_CHANNEL (\<lambda>s. create_channel_event s (msg req)) p2 = Inr p3"
      "event_step stl LEAVE_CHANNEL (\<lambda>s. leave_channel_event s (channel_id req)) p3 = Inr p4"
      "event_step stl JOIN_CHANNEL (\<lambda>s. join_channel_event s (channel_id req)) p4 = Inr (f, c, s')"
    by (rule handle_event_cases)
  note left = event_step_left
  have "answers_left s' \<le> answers_left (snd (snd p4))" using left [OF p(5)] join_event_left by fastforce
  also have "\<dots> \<le> answers_left (snd (snd p3))" by (rule left [OF p(4)]) (rule leave_event_left)
  also have "\<dots> \<le> answers_left (snd (snd p2))" by (rule left [OF p(3)]) (rule create_event_left)
  also have "\<dots> \<le> answers_left (snd (snd p1))" by (rule left [OF p(2)]) (rule get_users_event_left)
  also have "\<dots> \<le> answers_left s" using left [OF p(1)] send_event_left by simp
  finally show ?thesis .
qed

lemma login_step_os: "login_step s k m = Inr (r, s') \<Longrightarrow> sv_os s' = sv_os s"
  by (drule login_step_cases) auto

text \<open>A login consumes an answer; a successful one leaves the accepted descriptor in
  \<open>current_id\<close>.\<close>

lemma login_event_accepts:
  assumes "login_event s listen_fd = Inr (r, s')"
  shows "answers_left s' < answers_left s \<and> (r = FAILURE \<or> r = SUCCESS \<and> 0 \<le> current_id s')"
proof -
  have al: "(case alloc s of (ok, s0) \<Rightarrow> (case alloc s0 of (ok1, s1) \<Rightarrow> (case alloc s1 of (ok2, s2) \<Rightarrow> f ok ok1 ok2 s2)))
    = f (mem_ok s (clock s)) (mem_ok s (Suc (clock s))) (mem_ok s (Suc (Suc (clock s))))
        (s\<lparr>clock := Suc (Suc (Suc (clock s)))\<rparr>)" for f
    by (simp add: alloc_def)
  from assms obtain fd w1 where
    a: "handle_new_accept listen_fd (sv_os s) = Inr (fd, w1)" by (auto simp: login_event_def)
  then have w1: "length (script w1) < answers_left s" "fd = SYS_CALL_FAIL \<or> 0 \<le> fd"
    by (auto simp: handle_new_accept_def tcp_server_accept_def SYS_CALL_FAIL_def
        split: if_splits dest: sys_length)
  show ?thesis
  proof (cases "fd = SYS_CALL_FAIL")
    case True
    with assms a w1 show ?thesis by (auto simp: login_event_def)
  next
    case False
    with assms a obtain n got w2 t lr pr s5 where
      p: "tcp_server_recv fd (replicate MD_BUFF_SIZE 0) w1 = Inr (n, got, w2)"
      "(if lr = SUCCESS then login_step (s\<lparr>clock := Suc (Suc (Suc (clock s))), current_id := fd, sv_os := w2\<rparr>) fd t
        else Inr (0, s\<lparr>clock := Suc (Suc (Suc (clock s))), current_id := fd, sv_os := w2\<rparr>)) = Inr (pr, s5)"
      "r = SUCCESS \<and> (\<exists>cap y. respond cap y s5 = Inr s')"
      unfolding login_event_def al Let_def
      by (clarsimp split: option.split_asm) blast
    from p(2) have "sv_os s5 = w2" by (cases "lr = SUCCESS") (auto dest: login_step_os)
    moreover from p(2) have "current_id s5 = fd"
      by (cases "lr = SUCCESS") (auto simp: quiet_def dest: login_step_cases)
    moreover from p(3) have "current_id s' = current_id s5" by (auto simp: quiet_def dest: respond_quiet)
    ultimately show ?thesis using p(3) recv_left [OF p(1)] w1 False by (auto dest: respond_left)
  qed
qed

section \<open>The loop\<close>

text \<open>The accept loop: clients are taken from the backlog until there is none left.\<close>

definition add_fd :: "int \<Rightarrow> loop \<Rightarrow> loop res" where
  "add_fd fd l = rbind (slot (nfds l)) (\<lambda>_. Inr (l\<lparr>
     poll_fds := (poll_fds l)(nfds l := (poll_fds l (nfds l))\<lparr>p_fd := fd, p_events := POLLIN OR POLLHUP\<rparr>),
     nfds := nfds l + 1\<rparr>))"

lemma add_fd_srv: "add_fd fd l = Inr l' \<Longrightarrow> srv l' = srv l \<and> gcfd l' = gcfd l"
  by (auto simp: add_fd_def)

function accept_clients :: "loop \<Rightarrow> loop res" where
  "accept_clients l =
     rbind (login_event (srv l) (p_fd (poll_fds l 0))) (\<lambda>(r, s).
     let l1 = l\<lparr>srv := s\<rparr> in
     if r = SUCCESS then rbind (add_fd (current_id s) l1) accept_clients
     else if r \<noteq> FAILURE then accept_clients l1
     else Inr l1)"
  by pat_completeness auto
termination
  by (relation "measure (\<lambda>l. answers_left (srv l))") (auto dest!: login_event_accepts add_fd_srv)

declare accept_clients.simps [simp del]

text \<open>One request of a client. If \<open>recv\<close> fails, the request block of \<open>(size_t) -1\<close> bytes cannot be
  allocated either, and it is this failure that \<open>errno\<close> reports when the loop looks at it.\<close>

definition receive_request :: "server \<Rightarrow> (int \<times> cpt_request \<times> server) res" where
  "receive_request s =
     rbind (tcp_server_recv (current_id s) (replicate LG_BUFF_SIZE 0) (sv_os s)) (\<lambda>(req_size, req_buf, w).
     (case alloc (s\<lparr>sv_os := w\<rparr>) of (ok1, s1) \<Rightarrow> (case alloc s1 of (ok2, s2) \<Rightarrow>
     rbind (received_request ok1 ok2 req_buf req_size) (\<lambda>req. Inr (req_size, req, s2)))))"

definition dispatch :: "byte \<Rightarrow> int \<Rightarrow> cpt_request \<Rightarrow> server \<Rightarrow> (bool \<times> server) res" where
  "dispatch stl req_size req s =
     (if command req = LOGOUT then rbind (logout_event s) (\<lambda>s'. Inr (True, s'))
      else rbind (handle_event stl s req) (\<lambda>s'.
        Inr (if req_size < 0 then ENOMEM \<noteq> EWOULDBLOCK else req_size = 0, s')))"

definition serve_client :: "nat \<Rightarrow> loop \<Rightarrow> loop res" where
  "serve_client i l =
     rbind (receive_request ((srv l)\<lparr>current_id := p_fd (poll_fds l i)\<rparr>)) (\<lambda>(req_size, req, s).
     rbind (dispatch (stale l (clock s)) req_size req s) (\<lambda>(cl, s').
       let l1 = l\<lparr>srv := s', close_conn := cl\<rparr> in
       Inr (if cl then close_connections i l1 else l1)))"

text \<open>The \<open>for\<close> loop over the entries that were polled; an event other than \<open>POLLIN\<close> leaves it with
  \<open>is_fatal_error\<close> set.\<close>

fun scan :: "nat list \<Rightarrow> loop \<Rightarrow> loop res" where
  "scan [] l = Inr l"
| "scan (i # is) l =
     rbind (slot i) (\<lambda>_.
     let p = poll_fds l i; l1 = l\<lparr>srv := (srv l)\<lparr>current_id := p_fd p\<rparr>\<rparr> in
     if p_revents p = 0 then scan is l1
     else if \<not> is_revent_POLLIN p then Inr (l1\<lparr>is_fatal_error := True\<rparr>)
     else rbind (if p_fd p = gcfd l1 then accept_clients l1 else serve_client i l1) (scan is))"

definition poll_all :: "loop \<Rightarrow> (int \<times> loop) res" where
  "poll_all l = rbind (sys (SPoll (nfds l)) (sv_os (srv l))) (\<lambda>(r, w).
     Inr (sret r, l\<lparr>srv := (srv l)\<lparr>sv_os := w\<rparr>,
       poll_fds := (\<lambda>k. if k < nfds l
         then (poll_fds l k)\<lparr>p_revents := if k < length (sbytes r) then sbytes r ! k else 0\<rparr>
         else poll_fds l k)\<rparr>))"

text \<open>One round: whether the loop is left, and the state.\<close>

definition run_round :: "loop \<Rightarrow> (bool \<times> loop) res" where
  "run_round l =
     rbind (poll_all l) (\<lambda>(r, l1).
     if should_end_event_loop r then Inr (True, l1)
     else
       rbind (scan [0..<nfds l1] l1) (\<lambda>l2.
       rbind (if compress_array l2 then compress_fds l2 else Inr l2) (\<lambda>l3.
         Inr (is_fatal_error l3, l3))))"

section \<open>Invariants of the loop\<close>

text \<open>What an invariant of the loop has to be kept by; the accept loop and the loop over the entries
  then keep it.\<close>

locale loop_invariant =
  fixes P :: "loop \<Rightarrow> bool"
  assumes login: "P l \<Longrightarrow> login_event (srv l) (p_fd (poll_fds l 0)) = Inr (r, s) \<Longrightarrow> P (l\<lparr>srv := s\<rparr>)"
    and add: "P l \<Longrightarrow> 0 \<le> current_id (srv l) \<Longrightarrow> add_fd (current_id (srv l)) l = Inr l' \<Longrightarrow> P l'"
    and current: "P l \<Longrightarrow> P (l\<lparr>srv := (srv l)\<lparr>current_id := k\<rparr>\<rparr>)"
    and fatal: "P l \<Longrightarrow> P (l\<lparr>is_fatal_error := True\<rparr>)"
    and request: "P l \<Longrightarrow> p_fd (poll_fds l i) \<noteq> gcfd l \<Longrightarrow> serve_client i l = Inr l' \<Longrightarrow> P l'"
begin

lemma accept: "P l \<Longrightarrow> accept_clients l = Inr l' \<Longrightarrow> P l'"
proof (induction l rule: accept_clients.induct)
  case (1 l)
  from "1.prems"(2) obtain r s where e: "login_event (srv l) (p_fd (poll_fds l 0)) = Inr (r, s)"
    "(if r = SUCCESS then rbind (add_fd (current_id s) (l\<lparr>srv := s\<rparr>)) accept_clients
      else if r \<noteq> FAILURE then accept_clients (l\<lparr>srv := s\<rparr>) else Inr (l\<lparr>srv := s\<rparr>)) = Inr l'"
    by (subst (asm) accept_clients.simps) (auto simp: Let_def)
  note P = login [OF "1.prems"(1) e(1)]
  from login_event_accepts [OF e(1)] consider "r = FAILURE" | "r = SUCCESS" "0 \<le> current_id s" by auto
  then show ?case
  proof cases
    case 1
    moreover have "FAILURE \<noteq> SUCCESS" by (simp add: FAILURE_def SUCCESS_def)
    ultimately show ?thesis using e(2) P by simp
  next
    case 2
    with e(2) obtain l2 where l2: "add_fd (current_id s) (l\<lparr>srv := s\<rparr>) = Inr l2" "accept_clients l2 = Inr l'"
      by auto
    from add [of "l\<lparr>srv := s\<rparr>" l2] P 2(2) l2(1) have "P l2" by simp
    then show ?thesis using "1.IH"(1) [OF e(1) refl refl 2(1) l2(1)] l2(2) by simp
  qed
qed

lemma scanned: "P l \<Longrightarrow> scan is l = Inr l' \<Longrightarrow> P l'"
proof (induction "is" arbitrary: l)
  case Nil
  then show ?case by simp
next
  case (Cons i "is")
  let ?l = "l\<lparr>srv := (srv l)\<lparr>current_id := p_fd (poll_fds l i)\<rparr>\<rparr>"
  have P: "P ?l" by (rule current) (rule Cons.prems(1))
  consider "p_revents (poll_fds l i) = 0" "scan is ?l = Inr l'"
    | "l' = ?l\<lparr>is_fatal_error := True\<rparr>"
    | l2 where "p_fd (poll_fds l i) = gcfd l" "accept_clients ?l = Inr l2" "scan is l2 = Inr l'"
    | l2 where "p_fd (poll_fds l i) \<noteq> gcfd l" "serve_client i ?l = Inr l2" "scan is l2 = Inr l'"
    using Cons.prems(2)
    by (cases "p_revents (poll_fds l i) = 0"; cases "is_revent_POLLIN (poll_fds l i)";
        cases "p_fd (poll_fds l i) = gcfd l") (auto simp: Let_def)
  then show ?case
  proof cases
    case 1
    with Cons.IH P show ?thesis by blast
  next
    case 2
    with fatal [OF P] show ?thesis by simp
  next
    case (3 l2)
    from accept [OF P 3(2)] Cons.IH 3(3) show ?thesis by blast
  next
    case (4 l2)
    from request [OF P _ 4(2)] 4(1) Cons.IH [OF _ 4(3)] show ?thesis by simp
  qed
qed

end

text \<open>The first invariant: answers are only consumed.\<close>

lemma receive_request_cases:
  assumes "receive_request s = Inr (n, req, s')"
  obtains w where "s' = s\<lparr>sv_os := w, clock := Suc (Suc (clock s))\<rparr>" "length (script w) < answers_left s"
  using assms unfolding receive_request_def
proof (rule rbind_tripleE)
  fix m buf w
  assume r: "tcp_server_recv (current_id s) (replicate LG_BUFF_SIZE 0) (sv_os s) = Inr (m, buf, w)"
    and "(case alloc (s\<lparr>sv_os := w\<rparr>) of (ok1, s1) \<Rightarrow> (case alloc s1 of (ok2, s2) \<Rightarrow>
      rbind (received_request ok1 ok2 buf m) (\<lambda>req. Inr (m, req, s2)))) = Inr (n, req, s')"
  then have "s' = s\<lparr>sv_os := w, clock := Suc (Suc (clock s))\<rparr>" by (auto simp: alloc_def)
  with recv_left [OF r] that show ?thesis by blast
qed

lemma dispatch_left: "dispatch stl n req s = Inr (cl, s') \<Longrightarrow> answers_left s' \<le> answers_left s"
  by (auto simp: dispatch_def split: if_splits dest: logout_event_left handle_event_left)

lemma serve_client_cases:
  assumes "serve_client i l = Inr l'"
  obtains n req s cl s' where
    "receive_request ((srv l)\<lparr>current_id := p_fd (poll_fds l i)\<rparr>) = Inr (n, req, s)"
    "dispatch (stale l (clock s)) n req s = Inr (cl, s')"
    "l' = (if cl then close_connections i (l\<lparr>srv := s', close_conn := cl\<rparr>) else l\<lparr>srv := s', close_conn := cl\<rparr>)"
  using assms by (auto simp: serve_client_def Let_def)

lemma serve_client_left: "serve_client i l = Inr l' \<Longrightarrow> answers_left (srv l') \<le> answers_left (srv l)"
  by (elim serve_client_cases receive_request_cases)
    (auto simp: close_connections_def log_call_def dest!: dispatch_left)

interpretation left: loop_invariant "\<lambda>l. answers_left (srv l) \<le> n" for n
proof
  fix l r s
  assume "answers_left (srv l) \<le> n" "login_event (srv l) (p_fd (poll_fds l 0)) = Inr (r, s)"
  then show "answers_left (srv (l\<lparr>srv := s\<rparr>)) \<le> n" by (auto dest: login_event_accepts)
next
  fix l i l'
  assume "answers_left (srv l) \<le> n" "serve_client i l = Inr l'"
  then show "answers_left (srv l') \<le> n" by (auto dest: serve_client_left)
qed (auto dest: add_fd_srv)

lemma run_round_left:
  assumes "run_round l = Inr (stop, l')"
  shows "answers_left (srv l') < answers_left (srv l)"
proof -
  from assms obtain r l1 where l1: "poll_all l = Inr (r, l1)"
    "(if should_end_event_loop r then Inr (True, l1)
      else rbind (scan [0..<nfds l1] l1) (\<lambda>l2.
        rbind (if compress_array l2 then compress_fds l2 else Inr l2) (\<lambda>l3.
          Inr (is_fatal_error l3, l3)))) = Inr (stop, l')"
    by (auto simp: run_round_def)
  from l1(1) have lt: "answers_left (srv l1) < answers_left (srv l)"
    by (auto simp: poll_all_def dest: sys_length)
  show ?thesis
  proof (cases "should_end_event_loop r")
    case True
    with l1 lt show ?thesis by simp
  next
    case False
    with l1 obtain l2 where l2: "scan [0..<nfds l1] l1 = Inr l2"
      "(if compress_array l2 then compress_fds l2 else Inr l2) = Inr l'" by auto
    from l2(2) have "srv l' = srv l2" by (auto simp: compress_fds_def split: if_splits)
    with left.scanned [OF order_refl l2(1)] lt show ?thesis by simp
  qed
qed

text \<open>The loop: rounds until one ends it, then the destruction of the server's structures.\<close>

function run_loop :: "loop \<Rightarrow> loop res" where
  "run_loop l =
     rbind (run_round l) (\<lambda>(stop, l').
       if stop then rbind (cpt_server_info_destroy (srv l')) (\<lambda>s. Inr (l'\<lparr>srv := s\<rparr>))
       else run_loop l')"
  by pat_completeness auto
termination
  by (relation "measure (\<lambda>l. answers_left (srv l))") (auto dest: run_round_left)

declare run_loop.simps [simp del]

text \<open>\<open>run\<close>: if the structure \<open>ServerInfo\<close> itself cannot be allocated, the null pointer is followed
  in the first round.\<close>

definition first_loop :: "(nat \<Rightarrow> byte) \<Rightarrow> server \<Rightarrow> loop" where
  "first_loop stl s = \<lparr>srv = s, poll_fds = (\<lambda>_. no_fd), nfds = 1, gcfd = 0, close_conn = False,
     compress_array = False, is_fatal_error = False, stale = stl\<rparr>"

definition run :: "(nat \<Rightarrow> byte) \<Rightarrow> server \<Rightarrow> loop res" where
  "run stl s =
     rbind (server_setup s) (\<lambda>info.
     (case info of None \<Rightarrow> Inl NullDeref
      | Some s1 \<Rightarrow> rbind (listen_socket_init (first_loop stl s1)) run_loop))"

section \<open>Compressing the table\<close>

definition descriptors :: "nat \<Rightarrow> (nat \<Rightarrow> pollfd) \<Rightarrow> int list" where
  "descriptors n fds = map (\<lambda>k. p_fd (fds k)) [0..<n]"

lemma shift_fds_cases:
  "shift_fds j n fds = (if j < n \<and> MAX_SERVER_FDS \<le> n then Inl OutOfBounds
     else Inr (\<lambda>k. if j \<le> k \<and> k < n then (fds k)\<lparr>p_fd := p_fd (fds (k + 1))\<rparr> else fds k))"
  if "j \<le> n"
  using that
proof (induction j n fds rule: shift_fds.induct)
  case (1 j n fds)
  show ?case
  proof (cases "j < n")
    case False
    with "1.prems" show ?thesis by (subst shift_fds.simps) auto
  next
    case True
    show ?thesis
    proof (cases "j + 1 < MAX_SERVER_FDS")
      case False
      with True have "MAX_SERVER_FDS \<le> n" by simp
      with True False show ?thesis by (subst shift_fds.simps) (simp add: slot_def)
    next
      case small: True
      let ?g = "fds(j := (fds j)\<lparr>p_fd := p_fd (fds (j + 1))\<rparr>)"
      have step: "shift_fds j n fds = shift_fds (j + 1) n ?g"
        using small True by (subst shift_fds.simps) (simp add: slot_def)
      have IH: "shift_fds (j + 1) n ?g = (if j + 1 < n \<and> MAX_SERVER_FDS \<le> n then Inl OutOfBounds
        else Inr (\<lambda>k. if j + 1 \<le> k \<and> k < n then (?g k)\<lparr>p_fd := p_fd (?g (k + 1))\<rparr> else ?g k))"
        by (rule "1.IH" [of "()"]) (use True small in \<open>simp_all add: slot_def\<close>)
      have "(\<lambda>k. if j + 1 \<le> k \<and> k < n then (?g k)\<lparr>p_fd := p_fd (?g (k + 1))\<rparr> else ?g k)
        = (\<lambda>k. if j \<le> k \<and> k < n then (fds k)\<lparr>p_fd := p_fd (fds (k + 1))\<rparr> else fds k)"
        using True by (auto simp: fun_eq_iff)
      with step IH True small show ?thesis by (cases "MAX_SERVER_FDS \<le> n") auto
    qed
  qed
qed

lemma compress_loop_cases:
  "compress_loop i n fds = Inr (n', fds') \<Longrightarrow> i \<le> n \<Longrightarrow>
   descriptors n' fds' = descriptors i fds @ filter (\<lambda>x. x \<noteq> -1) (map (\<lambda>k. p_fd (fds k)) [i..<n])"
proof (induction i n fds rule: compress_loop.induct)
  case (1 i n fds)
  show ?case
  proof (cases "i < n")
    case False
    with "1.prems" show ?thesis by (subst (asm) compress_loop.simps) (simp add: descriptors_def)
  next
    case True
    then have up: "[i..<n] = i # [i + 1..<n]" by (simp add: upt_rec)
    show ?thesis
    proof (cases "p_fd (fds i) = -1")
      case False
      with True "1.prems" have "compress_loop (i + 1) n fds = Inr (n', fds')"
        by (subst (asm) compress_loop.simps) simp
      from "1.IH"(2) [OF True False this] True False show ?thesis
        unfolding up by (simp add: descriptors_def)
    next
      case hole: True
      let ?f = "\<lambda>k. if i \<le> k \<and> k < n then (fds k)\<lparr>p_fd := p_fd (fds (k + 1))\<rparr> else fds k"
      from True hole "1.prems"(1) have e: "rbind (shift_fds i n fds) (compress_loop i (n - 1)) = Inr (n', fds')"
        by (subst (asm) compress_loop.simps) simp
      then have c1: "shift_fds i n fds = Inr ?f" using True by (auto simp: shift_fds_cases split: if_splits)
      with e have c2: "compress_loop i (n - 1) ?f = Inr (n', fds')" by simp
      note c = c1 c2
      have "map (\<lambda>k. p_fd (?f k)) [i..<n - 1] = map (\<lambda>k. p_fd (fds k)) [i + 1..<n]"
        by (rule nth_equalityI) auto
      moreover have "descriptors i ?f = descriptors i fds" by (simp add: descriptors_def)
      ultimately show ?thesis
        using "1.IH"(1) [OF True hole c] True hole unfolding up by simp
    qed
  qed
qed

lemma compress_loop_total: "n < MAX_SERVER_FDS \<Longrightarrow> \<exists>r. compress_loop i n fds = Inr r"
proof (induction i n fds rule: compress_loop.induct)
  case (1 i n fds)
  show ?case
  proof (cases "i < n \<and> p_fd (fds i) = -1")
    case True
    with "1.prems" have "shift_fds i n fds = Inr (\<lambda>k. if i \<le> k \<and> k < n
        then (fds k)\<lparr>p_fd := p_fd (fds (k + 1))\<rparr> else fds k)" by (simp add: shift_fds_cases)
    with "1.IH"(1) True "1.prems" show ?thesis by (subst compress_loop.simps) simp
  next
    case False
    with 1 show ?thesis by (subst compress_loop.simps) auto
  qed
qed

lemma compress_loop_no_hole:
  "\<forall>k<n. p_fd (fds k) \<noteq> -1 \<Longrightarrow> compress_loop i n fds = Inr (n, fds)"
proof (induction i n fds rule: compress_loop.induct)
  case (1 i n fds)
  then show ?case by (subst compress_loop.simps) auto
qed

lemma compress_loop_full:
  "compress_loop i n fds = Inl OutOfBounds"
  if "MAX_SERVER_FDS \<le> n" "\<exists>k. i \<le> k \<and> k < n \<and> p_fd (fds k) = -1"
  using that
proof (induction i n fds rule: compress_loop.induct)
  case (1 i n fds)
  then have lt: "i < n" by auto
  show ?case
  proof (cases "p_fd (fds i) = -1")
    case True
    with lt "1.prems"(1) show ?thesis by (subst compress_loop.simps) (simp add: shift_fds_cases)
  next
    case False
    with "1.prems"(2) have "\<exists>k. i + 1 \<le> k \<and> k < n \<and> p_fd (fds k) = -1"
      by (metis Suc_eq_plus1 Suc_leI le_neq_implies_less)
    with "1.IH"(2) [OF lt False "1.prems"(1)] lt False show ?thesis by (subst compress_loop.simps) simp
  qed
qed

lemma set_descriptors: "x \<in> set (descriptors n fds) \<longleftrightarrow> (\<exists>k<n. p_fd (fds k) = x)"
  by (auto simp: descriptors_def image_iff)

lemma compress_fds_full:
  "MAX_SERVER_FDS \<le> nfds l \<and> -1 \<in> set (descriptors (nfds l) (poll_fds l)) \<Longrightarrow>
   compress_fds l = Inl OutOfBounds"
  using compress_loop_full [of "nfds l" 0 "poll_fds l"] by (auto simp: compress_fds_def set_descriptors)

lemma compress_fds_ok:
  assumes "\<not> (MAX_SERVER_FDS \<le> nfds l \<and> -1 \<in> set (descriptors (nfds l) (poll_fds l)))"
  shows "\<exists>l'. compress_fds l = Inr l' \<and> compress_array l' = False \<and> srv l' = srv l \<and> gcfd l' = gcfd l \<and>
     descriptors (nfds l') (poll_fds l') = filter (\<lambda>x. x \<noteq> -1) (descriptors (nfds l) (poll_fds l)) \<and>
     nfds l' = length (filter (\<lambda>x. x \<noteq> -1) (descriptors (nfds l) (poll_fds l)))"
proof -
  from assms have "nfds l < MAX_SERVER_FDS \<or> (\<forall>k<nfds l. p_fd (poll_fds l k) \<noteq> -1)"
    by (auto simp: set_descriptors)
  then obtain n fds where c: "compress_loop 0 (nfds l) (poll_fds l) = Inr (n, fds)"
    using compress_loop_total [of "nfds l" 0 "poll_fds l"] compress_loop_no_hole [of "nfds l" "poll_fds l" 0]
    by auto
  from compress_loop_cases [OF c] have "descriptors n fds =
      filter (\<lambda>x. x \<noteq> -1) (descriptors (nfds l) (poll_fds l))" by (simp add: descriptors_def)
  moreover from this have "n = length (filter (\<lambda>x. x \<noteq> -1) (descriptors (nfds l) (poll_fds l)))"
    by (metis descriptors_def diff_zero length_map length_upt)
  ultimately show ?thesis using c by (simp add: compress_fds_def)
qed

text \<open>C32: Compressing the table removes exactly the closed entries (descriptor -1) and keeps the
  order of the others, and the count of entries becomes the count of the remaining ones. A
  completely full table of 2048 entries with a closed one among them is read past its end
  instead.\<close>

theorem compress_fds_filter:
  "if MAX_SERVER_FDS \<le> nfds l \<and> -1 \<in> set (descriptors (nfds l) (poll_fds l))
   then compress_fds l = Inl OutOfBounds
   else \<exists>l'. compress_fds l = Inr l' \<and> compress_array l' = False \<and> srv l' = srv l \<and> gcfd l' = gcfd l \<and>
     descriptors (nfds l') (poll_fds l') = filter (\<lambda>x. x \<noteq> -1) (descriptors (nfds l) (poll_fds l)) \<and>
     nfds l' = length (filter (\<lambda>x. x \<noteq> -1) (descriptors (nfds l) (poll_fds l)))"
  using compress_fds_full compress_fds_ok by simp

end
