(* ===== verification/List_Walks.thy ===== *)
theory List_Walks
  imports Channels
begin

text \<open>
  The walks of linked_list.c that are not part of the store interface: \<open>for_each\<close> and
  \<open>destroy_list\<close>, and what the users and channels modules get from the store.
\<close>

section \<open>A heap with one list of two elements\<close>

definition pair_heap :: "nat lheap" where
  "pair_heap = \<lparr>nodes = [0 \<mapsto> \<lparr>ndata = Some 10, nxt = Some 1\<rparr>, 1 \<mapsto> \<lparr>ndata = Some 20, nxt = None\<rparr>],
     lists = [2 \<mapsto> \<lparr>ll_length = 2, ll_head = Some 0, ll_tail = Some 1\<rparr>], brk = 3,
     malloc_ok = (\<lambda>_. True), junk = (\<lambda>_. 0)\<rparr>"

lemma pair_heap_rep:
  "repN pair_heap (\<lambda>l. if l = 2 then [(0, 10), (1, 20)] else []) [2 \<mapsto> (2, [10, 20])]"
  by (auto simp: repN_def list_at_def pair_heap_def)

section \<open>for_each\<close>

lemma for_each_walk_seg:
  "seg (nodes h) p (ns @ [z]) None \<Longrightarrow> length ns < n \<Longrightarrow>
   for_each_walk n h p consumer s = fold_res (\<lambda>x. consumer (Some x)) (map snd ns) s"
proof (induction ns arbitrary: p n s)
  case Nil
  then show ?case by (cases n) auto
next
  case (Cons y ns)
  from Cons.prems(2) obtain m where n: "n = Suc m" "length ns < m" by (cases n) auto
  from Cons.prems(1) obtain r where
    r: "p = Some (fst y)" "nodes h (fst y) = Some \<lparr>ndata = Some (snd y), nxt = r\<rparr>"
      "seg (nodes h) r (ns @ [z]) None" by auto
  from r(3) obtain b where b: "r = Some b" by (cases ns) auto
  have "for_each_walk m h r consumer = fold_res (\<lambda>x. consumer (Some x)) (map snd ns)"
    by (rule ext) (rule Cons.IH [OF r(3) n(2)])
  with r n(1) b show ?case by simp
qed

lemma for_each_skips_last:
  assumes "rep h A" "A l = Some (n, xs)"
  shows "for_each h (Some l) consumer s = (case xs of [] \<Rightarrow> Inl NullDeref | [x] \<Rightarrow> consumer (Some x) s
    | _ \<Rightarrow> fold_res (\<lambda>x. consumer (Some x)) (butlast xs) s)"
proof -
  from assms(1) obtain N where N: "repN h N A" by (auto simp: rep_def)
  from list_head [OF repN_list [OF N assms(2)]] obtain L where
    L: "lists h l = Some L" "seg (nodes h) (ll_head L) (N l) None" "map snd (N l) = xs" by auto
  show ?thesis
  proof (cases "N l" rule: rev_cases)
    case Nil
    with L show ?thesis by (simp add: for_each_def get_head_node_def)
  next
    case (snoc ns z)
    with rep_list_fuel [OF N assms(2)] have "length ns < fuel h" by simp
    from for_each_walk_seg [OF L(2) [unfolded snoc] this] have
      walk: "for_each_walk (fuel h) h (ll_head L) consumer s = fold_res (\<lambda>x. consumer (Some x)) (map snd ns) s" .
    show ?thesis
    proof (cases ns)
      case Nil
      with snoc L show ?thesis by (auto simp: for_each_def get_head_node_def)
    next
      case (Cons y ns')
      with snoc L(2) obtain r where "ll_head L = Some (fst y)"
        "nodes h (fst y) = Some \<lparr>ndata = Some (snd y), nxt = r\<rparr>" "r \<noteq> None"
        by (cases ns') auto
      moreover from snoc Cons L(3) have "xs = snd y # map snd ns' @ [snd z]" by simp
      ultimately show ?thesis
        using walk L(1) Cons by (auto simp: for_each_def get_head_node_def split: list.splits)
    qed
  qed
qed

section \<open>destroy_list\<close>

lemma destroy_walk_seg:
  "seg (nodes h) p (ns @ [z]) None \<Longrightarrow> p = Some a \<Longrightarrow> length ns < n \<Longrightarrow>
   destroy_walk n h a = Inr (h\<lparr>nodes := (\<lambda>b. if b \<in> addrs ns then None else nodes h b)\<rparr>)"
proof (induction ns arbitrary: p a n h)
  case Nil
  then show ?case by (cases n) auto
next
  case (Cons y ns)
  from Cons.prems(3) obtain m where n: "n = Suc m" "length ns < m" by (cases n) auto
  from Cons.prems(1,2) obtain r where
    r: "a = fst y" "nodes h (fst y) = Some \<lparr>ndata = Some (snd y), nxt = r\<rparr>"
      "seg (nodes h) r (ns @ [z]) None" by auto
  from r(3) obtain b where b: "r = Some b" by (cases ns) auto
  from seg_hd_notin [of "nodes h" p y "ns @ [z]"] Cons.prems(1) have "fst y \<notin> addrs (ns @ [z])" by simp
  with r(3) have "seg (nodes (free_node a h)) r (ns @ [z]) None" using r(1) by simp
  from Cons.IH [OF this b n(2)] r b n(1) show ?case
    by (auto simp: fun_eq_iff intro!: lheap.equality)
qed

lemma destroy_list_nodes:
  assumes "repN h N A" "A l = Some (n, xs)"
  shows "destroy_list h (Some l) = Inr (if N l = [] then h
    else h\<lparr>nodes := (\<lambda>b. if b \<in> addrs (butlast (N l)) then None else nodes h b),
           lists := (lists h)(l := None)\<rparr>)"
proof -
  from list_head [OF repN_list [OF assms]] obtain L where
    L: "lists h l = Some L" "seg (nodes h) (ll_head L) (N l) None" by auto
  show ?thesis
  proof (cases "N l" rule: rev_cases)
    case Nil
    with L show ?thesis by (simp add: destroy_list_def)
  next
    case (snoc ns z)
    with L(2) obtain a where a: "ll_head L = Some a" by (cases ns) auto
    from snoc rep_list_fuel [OF assms] have "length ns < fuel h" by simp
    from destroy_walk_seg [OF L(2) [unfolded snoc] a this] a L(1) snoc show ?thesis
      by (simp add: destroy_list_def)
  qed
qed

text \<open>C38: The walks that stop one node early. \<open>for_each\<close> calls the consumer on every element but the last
  one, in order, when the list has two elements or more; on the only element when it has one; and
  dereferences a null pointer when it is empty. \<open>destroy_list\<close> frees the list and all its nodes but the last
  one, which is leaked; an empty list is not freed at all.\<close>

theorem walks_miss_last:
  assumes "repN h N A" "A l = Some (n, xs)"
  shows "for_each h (Some l) consumer s = (case xs of [] \<Rightarrow> Inl NullDeref | [x] \<Rightarrow> consumer (Some x) s
      | _ \<Rightarrow> fold_res (\<lambda>x. consumer (Some x)) (butlast xs) s) \<and>
    destroy_list h (Some l) = Inr (if xs = [] then h
      else h\<lparr>nodes := (\<lambda>b. if b \<in> addrs (butlast (N l)) then None else nodes h b),
             lists := (lists h)(l := None)\<rparr>)"
proof -
  have "rep h A" using assms(1) by (auto simp: rep_def)
  note walk = for_each_skips_last [OF this assms(2)]
  from list_head [OF repN_list [OF assms]] have "N l = [] \<longleftrightarrow> xs = []" by auto
  then show ?thesis using walk destroy_list_nodes [OF assms] by simp
qed

theorem walks_miss_last_witness:
  "for_each pair_heap (Some 2) (\<lambda>x seen. Inr (seen @ [x])) [] = Inr [Some 10] \<and>
   destroy_list pair_heap (Some 2) = Inr (pair_heap\<lparr>
     nodes := (\<lambda>b. if b \<in> {0} then None else nodes pair_heap b), lists := (lists pair_heap)(2 := None)\<rparr>)"
  using walks_miss_last [OF pair_heap_rep, of 2 2 "[10, 20]" "\<lambda>x seen. Inr (seen @ [x])" "[]"] by simp

end
