(* ===== verification/Members.thy ===== *)
theory Members
  imports Sessions
begin

text \<open>
  The members of channels are users of the global channel, in every directory the chat makes.
\<close>

section \<open>Members are logged in\<close>

text \<open>A channel in front of the global one can get the id 0 too, when the number it is made of wraps; it is then never
  left and no logout looks at it. Without such a channel, the members of the others are users of the global channel.\<close>

definition zero_free :: "view \<Rightarrow> bool" where
  "zero_free W \<longleftrightarrow> 0 \<notin> fst ` set (butlast (snd W))"

definition members_known :: "view \<Rightarrow> bool" where
  "members_known W \<longleftrightarrow> (\<forall>v\<in>set (butlast (snd W)). set (snd v) \<subseteq> set (global W))"

lemma members_append:
  "zero_free (n, V @ [(0, us)]) \<longleftrightarrow> 0 \<notin> fst ` set V"
  "members_known (n, V @ [(0, us)]) \<longleftrightarrow> (\<forall>v\<in>set V. set (snd v) \<subseteq> set us)"
  by (simp_all add: zero_free_def members_known_def global_def)

lemma view_okE:
  assumes "view_ok J W"
  obtains n V us where "W = (n, V @ [(0, us)])" "\<forall>v\<in>set V. entry_ok v" "global W = us"
  using assms by (cases W) (auto simp: view_ok_def global_def)

lemma upd_first_append_miss: "cid \<notin> fst ` set V \<Longrightarrow> upd_first cid f (V @ V1) = V @ upd_first cid f V1"
  by (induction V) auto

lemma set_upd_first: "v \<in> set (upd_first cid f V) \<Longrightarrow> v \<in> set V \<or> (\<exists>us. map_of V cid = Some us \<and> v = (cid, f us))"
  by (induction V) (auto split: if_splits)

lemma fst_upd_first [simp]: "map fst (upd_first cid f V) = map fst V"
  by (induction V) auto

lemma map_of_front:
  assumes "map_of (V @ [(0, us)]) cid = Some ms" "cid \<noteq> 0 \<or> ms \<noteq> us"
  shows "map_of V cid = Some ms \<and> cid \<in> fst ` set V"
proof -
  from map_of_snoc [OF assms(1)] assms(2) have "cid \<in> fst ` set V" by force
  with assms(1) show ?thesis by (auto simp: map_add_def map_of_eq_None_iff split: option.splits)
qed

lemma known_login: "view_ok J W \<Longrightarrow> zero_free (view_login u W) = zero_free W \<and>
    (members_known W \<longrightarrow> members_known (view_login u W))"
  by (erule view_okE) (auto simp: view_login_def members_append)

lemma known_upd:
  assumes "W = (n, V @ [(0, us)])" "map_of V cid = Some ms" "set (f ms) \<subseteq> set ms \<union> set us" "cid \<in> fst ` set V"
  shows "zero_free (m, upd_first cid f (snd W)) = zero_free W \<and> (members_known W \<longrightarrow> members_known (m, upd_first cid f (snd W)))"
proof -
  have "fst ` set (upd_first cid f V) = fst ` set V" using fst_upd_first [of cid f V] by (metis list.set_map)
  moreover have "set (snd v) \<subseteq> set us" if "\<forall>v\<in>set V. set (snd v) \<subseteq> set us" "v \<in> set (upd_first cid f V)" for v
    using set_upd_first [OF that(2)] that(1) assms(2,3) map_of_SomeD [OF assms(2)] by fastforce
  ultimately show ?thesis
    unfolding assms(1) snd_conv upd_first_append [OF assms(4)] members_append by blast
qed

lemma known_join:
  assumes "view_ok J W" "view_join k cid W = Inr (r, W')"
  shows "zero_free W' = zero_free W \<and> (members_known W \<longrightarrow> members_known W')"
proof -
  obtain n V us where W: "W = (n, V @ [(0, us)])" "global W = us" by (rule view_okE [OF assms(1)])
  show ?thesis
  proof (cases "W' = W")
    case False
    with assms(2) obtain ms u where j: "map_of (snd W) cid = Some ms" "k \<notin> ids ms"
        "List.find (\<lambda>u. user_key u = k) us = Some u" "W' = (fst W, upd_first cid ((#) u) (snd W))"
      unfolding view_join_def W(2) by (auto split: option.splits if_splits)
    from j(3) have u: "u \<in> set us" "k \<in> ids us" by (auto simp: find_Some_iff)
    have f: "map_of (V @ [(0, us)]) cid = Some ms" "cid \<noteq> 0 \<or> ms \<noteq> us" using j(1,2) u(2) W(1) by auto
    from map_of_front [OF f] have m: "map_of V cid = Some ms" "cid \<in> fst ` set V" by simp_all
    have "set (u # ms) \<subseteq> set ms \<union> set us" using u(1) by auto
    from known_upd [where f = "(#) u", OF W(1) m(1) this m(2)] show ?thesis unfolding j(4) .
  qed simp
qed

lemma delete_subset: "view_delete k us = Inr (b, us') \<Longrightarrow> set us' \<subseteq> set us"
  using set_del_first_subset [of "\<lambda>u. user_key u = k" us] by (auto simp: view_delete_def drop_user_def split: if_splits)

lemma del_first_other: "v \<in> set V \<Longrightarrow> \<not> P v \<Longrightarrow> v \<in> set (del_first P V)"
  by (induction V) auto

lemma known_leave:
  assumes "view_ok J W" "view_leave k cid W = Inr (r, W')"
  shows "zero_free W' = zero_free W \<and> (members_known W \<longrightarrow> members_known W')"
proof -
  obtain n V us where W: "W = (n, V @ [(0, us)])" "global W = us" by (rule view_okE [OF assms(1)])
  show ?thesis
  proof (cases "W' = W")
    case False
    with assms(2) obtain ms ms' b where l: "cid \<noteq> 0" "map_of (snd W) cid = Some ms" "view_delete k ms = Inr (b, ms')"
        "W' = (if ms' = [] then (fst W - 1, del_first (\<lambda>v. fst v = cid) (snd W))
               else (fst W, upd_first cid (\<lambda>_. ms') (snd W)))"
      unfolding view_leave_def by (auto split: option.splits if_splits)
    have f: "map_of (V @ [(0, us)]) cid = Some ms" "cid \<noteq> 0 \<or> ms \<noteq> us" using l(1,2) W(1) by auto
    from map_of_front [OF f] have m: "map_of V cid = Some ms" "cid \<in> fst ` set V" by simp_all
    then have hit: "\<exists>v\<in>set V. fst v = cid" by auto
    let ?P = "\<lambda>v. fst v = cid"
    have sub: "set (del_first ?P V) \<subseteq> set V" by (rule set_del_first_subset)
    have zero: "0 \<in> fst ` set (del_first ?P V) \<longleftrightarrow> 0 \<in> fst ` set V"
    proof
      assume "0 \<in> fst ` set V"
      then obtain v where v: "v \<in> set V" "fst v = 0" by auto
      with del_first_other [of v V ?P] l(1) show "0 \<in> fst ` set (del_first ?P V)" by force
    qed (use sub in auto)
    have "zero_free (x, del_first ?P (snd W)) = zero_free W \<and>
        (members_known W \<longrightarrow> members_known (x, del_first ?P (snd W)))" for x
      unfolding W(1) snd_conv del_first_append_hit [OF hit] members_append zero using sub by blast
    moreover have "zero_free (x, upd_first cid (\<lambda>_. ms') (snd W)) = zero_free W \<and>
        (members_known W \<longrightarrow> members_known (x, upd_first cid (\<lambda>_. ms') (snd W)))" for x
      by (rule known_upd [OF W(1) m(1) _ m(2)]) (use delete_subset [OF l(3)] in auto)
    ultimately show ?thesis using l(4) by simp
  qed simp
qed

lemma known_create:
  assumes "view_ok J W" "view_create k W = Inr (r, W')"
  shows "(zero_free W' \<longrightarrow> zero_free W) \<and> (members_known W \<longrightarrow> members_known W')"
proof -
  obtain n V us where W: "W = (n, V @ [(0, us)])" "global W = us" by (rule view_okE [OF assms(1)])
  from assms(2) obtain u where u: "List.find (\<lambda>u. user_key u = k) us = Some u"
      "W' = (n + 1, ((word_of_int n, [u]) # V) @ [(0, us)])"
    using W by (auto simp: view_create_def split: option.splits)
  from u(1) have "u \<in> set us" by (auto simp: find_Some_iff)
  with W(1) u(2) show ?thesis unfolding W(1) u(2) members_append by auto
qed

lemma del_first_distinct: "distinct (map user_key us) \<Longrightarrow> set (drop_user k us) \<subseteq> {u \<in> set us. user_key u \<noteq> k}"
  by (induction us) (auto simp: drop_user_def image_iff)

lemma round_known:
  assumes "logout_round k v V1 = Inr V'" "entry_ok v" "fst v \<noteq> 0" "set (snd v) \<subseteq> set us"
    and "\<forall>w\<in>set V1. set (snd w) \<subseteq> {u \<in> set us. user_key u \<noteq> k}"
  shows "\<forall>w\<in>set V'. set (snd w) \<subseteq> {u \<in> set us. user_key u \<noteq> k}"
proof -
  from assms(1,3) obtain b ms where d: "view_delete k (snd v) = Inr (b, ms)"
    "V' = (if ms = [] then del_first (\<lambda>w. fst w = fst v) (V1 @ [(fst v, ms)]) else V1 @ [(fst v, ms)])"
    by (auto simp: logout_round_def)
  have "set ms \<subseteq> {u \<in> set us. user_key u \<noteq> k}"
    using d(1) assms(2,4) del_first_distinct [of "snd v" k]
    by (fastforce simp: view_delete_def entry_ok_def split: if_splits)
  with assms(5) have all: "\<forall>w\<in>set (V1 @ [(fst v, ms)]). set (snd w) \<subseteq> {u \<in> set us. user_key u \<noteq> k}" by auto
  have "set V' \<subseteq> set (V1 @ [(fst v, ms)])"
    using d(2) set_del_first_subset [of "\<lambda>w. fst w = fst v" "V1 @ [(fst v, ms)]"] by (simp split: if_splits)
  with all show ?thesis by blast
qed

lemma fold_known:
  "fold_res (logout_round k) V V1 = Inr V' \<Longrightarrow> \<forall>v\<in>set V. entry_ok v \<and> fst v \<noteq> 0 \<and> set (snd v) \<subseteq> set us \<Longrightarrow>
   \<forall>w\<in>set V1. set (snd w) \<subseteq> {u \<in> set us. user_key u \<noteq> k} \<Longrightarrow>
   \<forall>w\<in>set V'. set (snd w) \<subseteq> {u \<in> set us. user_key u \<noteq> k}"
proof (induction V arbitrary: V1)
  case (Cons v V)
  from Cons.prems(1) obtain V2 where V2: "logout_round k v V1 = Inr V2" "fold_res (logout_round k) V V2 = Inr V'" by auto
  have "\<forall>w\<in>set V2. set (snd w) \<subseteq> {u \<in> set us. user_key u \<noteq> k}"
    by (rule round_known [OF V2(1)]) (use Cons.prems in auto)
  with Cons.IH [OF V2(2)] Cons.prems(2) show ?case by simp
qed simp

lemma round_zero: "logout_round k v V1 = Inr V' \<Longrightarrow> w \<in> set V1 \<or> w = v \<Longrightarrow> fst w = 0 \<Longrightarrow> w \<in> set V'"
  by (auto simp: logout_round_def intro: del_first_other split: if_splits)

lemma fold_zero: "fold_res (logout_round k) V V1 = Inr V' \<Longrightarrow> w \<in> set V1 \<or> w \<in> set V \<Longrightarrow> fst w = 0 \<Longrightarrow> w \<in> set V'"
proof (induction V arbitrary: V1)
  case (Cons v V)
  from Cons.prems(1) obtain V2 where V2: "logout_round k v V1 = Inr V2" "fold_res (logout_round k) V V2 = Inr V'" by auto
  from Cons.prems(2) consider "w \<in> set V1 \<or> w = v" | "w \<in> set V" by auto
  then show ?case
  proof cases
    case 1
    from Cons.IH [OF V2(2)] round_zero [OF V2(1) this Cons.prems(3)] Cons.prems(3) show ?thesis by blast
  next
    case 2
    with Cons.IH [OF V2(2)] Cons.prems(3) show ?thesis by blast
  qed
qed simp

lemma known_logout:
  assumes "view_ok J W" "view_logout k W = Inr (r, W')"
  shows "(zero_free W' \<longrightarrow> zero_free W) \<and> (zero_free W \<longrightarrow> members_known W \<longrightarrow> members_known W')"
proof -
  obtain n V us where W: "W = (n, V @ [(0, us)])" "\<forall>v\<in>set V. entry_ok v" "global W = us" by (rule view_okE [OF assms(1)])
  from assms(2) obtain V' us' b m where f: "fold_res (logout_round k) V [] = Inr V'" "view_delete k us = Inr (b, us')"
    "W' = (m, V' @ [(0, us')])"
    unfolding view_logout_def W(3) unfolding W(1) snd_conv fold_res_append by (auto simp: logout_round_def)
  have "zero_free W' \<longrightarrow> zero_free W"
    unfolding W(1) f(3) members_append using fold_zero [OF f(1)] by force
  moreover have "members_known W'" if "zero_free W" "members_known W"
  proof -
    have "\<forall>v\<in>set V. entry_ok v \<and> fst v \<noteq> 0 \<and> set (snd v) \<subseteq> set us"
      using that W(2) unfolding W(1) members_append by force
    from fold_known [OF f(1) this] have "\<forall>w\<in>set V'. set (snd w) \<subseteq> {u \<in> set us. user_key u \<noteq> k}" by simp
    moreover have "{u \<in> set us. user_key u \<noteq> k} \<subseteq> set us'"
      using f(2) del_first_other [of _ us "\<lambda>u. user_key u = k"]
      by (auto simp: view_delete_def drop_user_def split: if_splits)
    ultimately show ?thesis unfolding f(3) members_append by blast
  qed
  ultimately show ?thesis by blast
qed

lemma chat_members:
  "chat (start_view J) W \<Longrightarrow> zero_free W \<longrightarrow> members_known W"
proof (induction rule: rtranclp_induct)
  case base
  show ?case by (simp add: start_view_def members_known_def)
next
  case (step W W')
  from chat_view_ok [OF step(1)] have ok: "view_ok J W" .
  from step(2) have "(zero_free W' \<longrightarrow> zero_free W) \<and> (zero_free W \<longrightarrow> members_known W \<longrightarrow> members_known W')"
  proof (cases rule: chat_step.cases)
    case (login u)
    with known_login [OF ok, of u] show ?thesis by simp
  next
    case (join k cid r)
    with known_join [OF ok, of k cid r W'] show ?thesis by simp
  next
    case (leave k cid r)
    with known_leave [OF ok, of k cid r W'] show ?thesis by simp
  next
    case (create k r)
    with known_create [OF ok, of k r W'] show ?thesis by simp
  next
    case (logout k r)
    with known_logout [OF ok, of k r W'] show ?thesis by blast
  qed
  with step.IH show ?case by blast
qed

end
