(* ===== verification/Server_Loop.thy ===== *)
theory Server_Loop
  imports Chat_Server List_Walks Members
begin

text \<open>
  What holds of the main loop: the table of descriptors and the directory stay well formed from
  round to round, every round is a sequence of operations of the abstract chat, and the end of the loop.
\<close>

section \<open>The directory during the loop\<close>

lemma session_ok_clock [simp]: "session_ok W0 (s\<lparr>clock := n\<rparr>) = session_ok W0 s"
  by (simp add: session_ok_def)

lemma serve_client_session:
  assumes "session_ok W0 (srv l)" "serve_client i l = Inr l'"
  shows "session_ok W0 (srv l')"
  using assms(2)
proof (rule serve_client_cases)
  fix n req s cl s'
  assume r: "receive_request ((srv l)\<lparr>current_id := p_fd (poll_fds l i)\<rparr>) = Inr (n, req, s)"
    and d: "dispatch (stale l (clock s)) n req s = Inr (cl, s')"
    and l': "l' = (if cl then close_connections i (l\<lparr>srv := s', close_conn := cl\<rparr>)
      else l\<lparr>srv := s', close_conn := cl\<rparr>)"
  from r have s: "session_ok W0 s" by (rule receive_request_cases) (use assms(1) in simp)
  from d have "session_ok W0 s'"
    by (auto simp: dispatch_def split: if_splits dest: logout_event_ok [OF s] handle_event_ok [OF s])
  with l' show ?thesis by (simp add: close_connections_def)
qed

interpretation directory: loop_invariant "\<lambda>l. session_ok W0 (srv l)" for W0
proof
  fix l r s
  assume "session_ok W0 (srv l)" "login_event (srv l) (p_fd (poll_fds l 0)) = Inr (r, s)"
  then show "session_ok W0 (srv (l\<lparr>srv := s\<rparr>))" by (auto dest: login_event_ok)
next
  fix l i l'
  assume "session_ok W0 (srv l)" "serve_client i l = Inr l'"
  then show "session_ok W0 (srv l')" by (rule serve_client_session)
qed (auto dest: add_fd_srv)

section \<open>The table of descriptors\<close>

text \<open>The first entry is the listening socket, every entry is an open descriptor or -1, and there is
  no closed entry unless the table is marked for compression.\<close>

definition table_ok :: "loop \<Rightarrow> bool" where
  "table_ok l \<longleftrightarrow> 1 \<le> nfds l \<and> nfds l \<le> MAX_SERVER_FDS \<and> p_fd (poll_fds l 0) = gcfd l \<and> 0 \<le> gcfd l \<and>
     (\<forall>k<nfds l. -1 \<le> p_fd (poll_fds l k)) \<and>
     (compress_array l \<or> (\<forall>k<nfds l. 0 \<le> p_fd (poll_fds l k)))"

lemma table_ok_updates [simp]:
  "table_ok (l\<lparr>srv := s\<rparr>) = table_ok l" "table_ok (l\<lparr>is_fatal_error := b\<rparr>) = table_ok l"
  "table_ok (l\<lparr>close_conn := b\<rparr>) = table_ok l"
  by (simp_all add: table_ok_def)

lemma add_fd_table:
  assumes "table_ok l" "0 \<le> fd" "add_fd fd l = Inr l'"
  shows "table_ok l'"
proof -
  from assms(3) have l': "nfds l < MAX_SERVER_FDS" "nfds l' = nfds l + 1" "gcfd l' = gcfd l"
    "compress_array l' = compress_array l"
    and f: "\<And>k. p_fd (poll_fds l' k) = (if k = nfds l then fd else p_fd (poll_fds l k))"
    by (auto simp: add_fd_def slot_def)
  from assms(1) have t: "1 \<le> nfds l" "p_fd (poll_fds l 0) = gcfd l" "0 \<le> gcfd l"
    "\<forall>k<nfds l. -1 \<le> p_fd (poll_fds l k)"
    "compress_array l \<or> (\<forall>k<nfds l. 0 \<le> p_fd (poll_fds l k))" by (simp_all add: table_ok_def)
  have "\<forall>k<nfds l'. -1 \<le> p_fd (poll_fds l' k)"
    using t(4) assms(2) unfolding f l'(2) by (simp add: less_Suc_eq)
  moreover have "compress_array l \<or> (\<forall>k<nfds l'. 0 \<le> p_fd (poll_fds l' k))"
    using t(5) assms(2) unfolding f l'(2) by (auto simp: less_Suc_eq)
  ultimately show ?thesis using l' t(1-3) f [of 0] by (simp add: table_ok_def)
qed

lemma close_connections_table:
  assumes "table_ok l" "p_fd (poll_fds l i) \<noteq> gcfd l"
  shows "table_ok (close_connections i l)"
proof -
  from assms have "i \<noteq> 0" by (cases i) (simp_all add: table_ok_def)
  with assms(1) show ?thesis by (simp add: table_ok_def close_connections_def)
qed

lemma serve_client_table:
  assumes "table_ok l" "p_fd (poll_fds l i) \<noteq> gcfd l" "serve_client i l = Inr l'"
  shows "table_ok l'"
  using assms(3)
proof (rule serve_client_cases)
  fix n req s cl s'
  assume "l' = (if cl then close_connections i (l\<lparr>srv := s', close_conn := cl\<rparr>)
      else l\<lparr>srv := s', close_conn := cl\<rparr>)"
  then show ?thesis
    using assms(1,2) close_connections_table [of "l\<lparr>srv := s', close_conn := cl\<rparr>" i] by (cases cl) simp_all
qed

interpretation table: loop_invariant table_ok
  by unfold_locales (auto intro: add_fd_table serve_client_table)

definition clean :: "loop \<Rightarrow> bool" where
  "clean l \<longleftrightarrow> table_ok l \<and> compress_array l = False"

lemma descriptors_Cons:
  "0 < n \<Longrightarrow> descriptors n fds = p_fd (fds 0) # map (\<lambda>k. p_fd (fds k)) [1..<n]"
  by (simp add: descriptors_def upt_conv_Cons)

lemma compress_fds_clean:
  assumes "table_ok l" "compress_fds l = Inr l'"
  shows "clean l' \<and> srv l' = srv l \<and> gcfd l' = gcfd l"
proof -
  have nf: "\<not> (MAX_SERVER_FDS \<le> nfds l \<and> -1 \<in> set (descriptors (nfds l) (poll_fds l)))"
    using compress_fds_full [of l] assms(2) by auto
  let ?d = "descriptors (nfds l) (poll_fds l)"
  from compress_fds_ok [OF nf] assms(2) have l': "compress_array l' = False" "srv l' = srv l" "gcfd l' = gcfd l"
    "descriptors (nfds l') (poll_fds l') = filter (\<lambda>x. x \<noteq> -1) ?d"
    "nfds l' = length (filter (\<lambda>x. x \<noteq> -1) ?d)" by auto
  from assms(1) have t: "0 < nfds l" "p_fd (poll_fds l 0) = gcfd l" "gcfd l \<noteq> -1" by (auto simp: table_ok_def)
  from descriptors_Cons [OF t(1)] t(2,3) obtain ds where f: "filter (\<lambda>x. x \<noteq> -1) ?d = gcfd l # ds" by simp
  have "1 \<le> nfds l'" using l'(5) f by simp
  moreover have "nfds l' \<le> nfds l" using l'(5) length_filter_le [of "\<lambda>x. x \<noteq> -1" ?d]
    by (simp add: descriptors_def)
  moreover have "p_fd (poll_fds l' 0) = gcfd l"
    using l'(4) f \<open>1 \<le> nfds l'\<close> descriptors_Cons [of "nfds l'" "poll_fds l'"] by simp
  moreover have "0 \<le> p_fd (poll_fds l' k)" if "k < nfds l'" for k
  proof -
    from that have "p_fd (poll_fds l' k) \<in> set (descriptors (nfds l') (poll_fds l'))"
      by (auto simp: set_descriptors)
    then have "p_fd (poll_fds l' k) \<noteq> -1" "p_fd (poll_fds l' k) \<in> set ?d" using l'(4) by auto
    then show ?thesis using assms(1) by (fastforce simp: set_descriptors table_ok_def)
  qed
  ultimately show ?thesis using assms(1) l'(1-3) by (fastforce simp: clean_def table_ok_def)
qed

section \<open>Rounds\<close>

lemma run_round_cases:
  assumes "run_round l = Inr (stop, l')"
  obtains r where "poll_all l = Inr (r, l')" "stop" "should_end_event_loop r"
  | r l1 l2 where "poll_all l = Inr (r, l1)" "scan [0..<nfds l1] l1 = Inr l2"
      "(if compress_array l2 then compress_fds l2 else Inr l2) = Inr l'" "stop = is_fatal_error l'"
  using assms unfolding run_round_def
proof (rule rbind_pairE)
  fix r l1
  assume 1: "poll_all l = Inr (r, l1)"
    "(if should_end_event_loop r then Inr (True, l1)
      else rbind (scan [0..<nfds l1] l1) (\<lambda>l2.
        rbind (if compress_array l2 then compress_fds l2 else Inr l2) (\<lambda>l3.
          Inr (is_fatal_error l3, l3)))) = Inr (stop, l')"
  show thesis
  proof (cases "should_end_event_loop r")
    case True
    with 1 that(1) show ?thesis by simp
  next
    case False
    with 1 that(2) show ?thesis by auto
  qed
qed

lemma poll_all_same:
  assumes "poll_all l = Inr (r, l')"
  shows "session_ok W0 (srv l') = session_ok W0 (srv l)" "table_ok l' = table_ok l"
    "compress_array l' = compress_array l" "sv_view (srv l') W = sv_view (srv l) W"
  using assms by (auto simp: poll_all_def table_ok_def)

lemma run_round_keeps:
  assumes "clean l" "session_ok W0 (srv l)" "run_round l = Inr (stop, l')"
  shows "clean l' \<and> session_ok W0 (srv l')"
  using assms(3)
proof (cases rule: run_round_cases)
  case (1 r)
  with poll_all_same [OF 1(1)] assms show ?thesis by (simp add: clean_def)
next
  case (2 r l1 l2)
  from poll_all_same [OF 2(1)] assms have "table_ok l1" "session_ok W0 (srv l1)" by (simp_all add: clean_def)
  then have "table_ok l2" "session_ok W0 (srv l2)"
    using table.scanned directory.scanned 2(2) by blast+
  with compress_fds_clean [of l2 l'] 2(3) show ?thesis
    by (cases "compress_array l2") (auto simp: clean_def)
qed

lemma listen_socket_init_clean:
  assumes "listen_socket_init (first_loop stl s) = Inr l" "session_ok W0 s"
  shows "clean l \<and> session_ok W0 (srv l)"
proof -
  from assms(1) obtain fd w g where
    fd: "tcp_server_init (Some IP_LOCAL_LB) (Some PORT_8080) (sv_os s) = Inr (fd, w)" "fd \<noteq> -1"
    and l: "gc s = Some g" "l = (first_loop stl s)\<lparr>srv := s\<lparr>sv_os := w, gc := Some (g\<lparr>ch_fd := fd\<rparr>)\<rparr>, gcfd := fd,
        poll_fds := (\<lambda>_. no_fd)(0 := \<lparr>p_fd = fd, p_events = POLLIN, p_revents = 0\<rparr>)\<rparr>"
    by (auto simp: listen_socket_init_def first_loop_def SYS_CALL_FAIL_def split: option.splits if_splits)
  from tcp_server_init_fd [OF fd(1)] fd(2) have "0 \<le> fd" by simp
  then have "clean l" by (simp add: l(2) clean_def table_ok_def first_loop_def MAX_SERVER_FDS_def)
  moreover have "sv_view (srv l) W = sv_view s W" for W
    using l by (simp add: sv_view_def sv_rep_def)
  then have "session_ok W0 (srv l)" using assms(2) l(2) by (simp add: session_ok_def)
  ultimately show ?thesis by simp
qed

text \<open>The states at the start of a round of \<open>run\<close>.\<close>

inductive rounds :: "(nat \<Rightarrow> byte) \<Rightarrow> server \<Rightarrow> loop \<Rightarrow> bool" for stl s0 where
  first: "server_setup s0 = Inr (Some s) \<Longrightarrow> listen_socket_init (first_loop stl s) = Inr l \<Longrightarrow> rounds stl s0 l"
| next_round: "rounds stl s0 l \<Longrightarrow> run_round l = Inr (False, l') \<Longrightarrow> rounds stl s0 l'"

lemma rounds_run: "rounds stl s0 l \<Longrightarrow> run stl s0 = run_loop l"
proof (induction rule: rounds.induct)
  case (first s l)
  then show ?case by (simp add: run_def)
next
  case (next_round l l')
  then show ?case by (simp add: run_loop.simps [of l])
qed

lemma setup_session:
  assumes "fresh_server s0" "server_setup s0 = Inr (Some s)"
  shows "session_ok (start_view (length_slack s0)) s"
  by (rule reachable_ok [OF assms(1)]) (rule reachable.start [OF assms(2)])

lemma rounds_keep:
  assumes "fresh_server s0" "rounds stl s0 l"
  shows "clean l \<and> session_ok (start_view (length_slack s0)) (srv l)"
  using assms(2)
proof induction
  case (first s l)
  with setup_session [OF assms(1)] listen_socket_init_clean show ?case by blast
next
  case (next_round l l')
  then show ?case using run_round_keeps by blast
qed

text \<open>C6: At the start of every round of the main loop, whatever the clients have sent and whatever
  the operating system has answered: there are between one and 2048 entries in the table, the first
  one is the listening socket, every entry is an open descriptor (no closed entry survives a round),
  and the directory is well formed: the global channel is the last one, no user is twice in
  another channel, and unless the id of another channel has wrapped to 0, the members of the others
  are users of the global channel.\<close>

theorem rounds_well_formed:
  assumes "fresh_server s0" "rounds stl s0 l"
  shows "1 \<le> nfds l \<and> nfds l \<le> MAX_SERVER_FDS \<and> p_fd (poll_fds l 0) = gcfd l \<and>
    list_all (\<lambda>fd. 0 \<le> fd) (descriptors (nfds l) (poll_fds l)) \<and>
    (\<exists>V us. sv_view (srv l) (length_slack s0 + int (length V + 1), V @ [(0, us)]) \<and>
      list_all (\<lambda>v. distinct (map user_key (snd v))) V \<and>
      (list_all (\<lambda>v. fst v \<noteq> 0) V \<longrightarrow> list_all (\<lambda>v. set (snd v) \<subseteq> set us) V))"
proof -
  from rounds_keep [OF assms] have c: "clean l" "session_ok (start_view (length_slack s0)) (srv l)" by auto
  from c(1) have "list_all (\<lambda>fd. 0 \<le> fd) (descriptors (nfds l) (poll_fds l))"
    by (auto simp: clean_def table_ok_def list_all_iff set_descriptors)
  moreover have "1 \<le> nfds l \<and> nfds l \<le> MAX_SERVER_FDS \<and> p_fd (poll_fds l 0) = gcfd l"
    using c(1) by (simp add: clean_def table_ok_def)
  moreover from c(2) obtain W where W: "sv_view (srv l) W" "chat (start_view (length_slack s0)) W"
    by (auto simp: session_ok_def)
  from chat_view_ok [OF W(2)] obtain V us where V: "W = (length_slack s0 + int (length V + 1), V @ [(0, us)])"
    "\<forall>v\<in>set V. entry_ok v" by (cases W) (auto simp: view_ok_def)
  have "sv_view (srv l) (length_slack s0 + int (length V + 1), V @ [(0, us)])" using W(1) V(1) by simp
  moreover have "list_all (\<lambda>v. distinct (map user_key (snd v))) V" using V(2) by (auto simp: entry_ok_def list_all_iff)
  moreover have "list_all (\<lambda>v. fst v \<noteq> 0) V \<longrightarrow> list_all (\<lambda>v. set (snd v) \<subseteq> set us) V"
    using chat_members [OF W(2)] unfolding V(1) members_append list_all_iff by force
  ultimately show ?thesis by blast
qed

text \<open>A server whose operating system grants the listening socket and then answers \<open>rest\<close>.\<close>

definition booted :: "sysret list \<Rightarrow> server" where
  "booted rest = blank\<lparr>sv_os := \<lparr>script =
     map (\<lambda>r. \<lparr>sret = r, serr = 0, sbytes = []\<rparr>) [0, 3, 0, 0, 0, 0] @ rest, calls = []\<rparr>\<rparr>"

lemma booted_fresh: "fresh_server (booted rest)"
  using blank_room by (simp add: fresh_server_def booted_def)

lemma booted_first:
  "\<exists>l cs J. rounds stl (booted rest) l \<and> sv_os (srv l) = \<lparr>script = rest, calls = cs\<rparr> \<and>
     sv_view (srv l) (J, [(0, [root_user])]) \<and> gcfd l = 3 \<and> nfds l = 1 \<and> \<not> is_fatal_error l"
proof -
  have "room (sv_users (booted rest))" "room (sv_chans (booted rest))" "\<forall>i. mem_ok (booted rest) i"
    using blank_room by (simp_all add: booted_def)
  from setup_sim [OF this] obtain s where s: "server_setup (booted rest) = Inr (Some s)"
    "sv_view s (junk (sv_chans (booted rest)) (brk (sv_chans (booted rest)) + 2) + 1, [(0, [root_user])])"
    "sv_os s = sv_os (booted rest)" by blast
  from s(2) obtain g where g: "gc s = Some g" using view_gc by blast
  let ?w = "\<lparr>script = map (\<lambda>r. \<lparr>sret = r, serr = 0, sbytes = []\<rparr>) [0, 3, 0, 0, 0, 0] @ rest, calls = []\<rparr>"
  have "\<exists>cs. tcp_server_init (Some IP_LOCAL_LB) (Some PORT_8080) ?w = Inr (3, \<lparr>script = rest, calls = cs\<rparr>)"
    by (simp add: tcp_server_init_def socket_defs sys_eq_Inr addr_result_def deref_addr_def log_call_def)
  then obtain cs where i: "tcp_server_init (Some IP_LOCAL_LB) (Some PORT_8080) ?w = Inr (3, \<lparr>script = rest, calls = cs\<rparr>)"
    by blast
  let ?l = "(first_loop stl s)\<lparr>srv := s\<lparr>sv_os := \<lparr>script = rest, calls = cs\<rparr>, gc := Some (g\<lparr>ch_fd := 3\<rparr>)\<rparr>,
    gcfd := 3, poll_fds := (\<lambda>_. no_fd)(0 := \<lparr>p_fd = 3, p_events = POLLIN, p_revents = 0\<rparr>)\<rparr>"
  have "listen_socket_init (first_loop stl s) = Inr ?l"
    using i g s(3) by (simp add: listen_socket_init_def first_loop_def booted_def SYS_CALL_FAIL_def)
  with s(1) have "rounds stl (booted rest) ?l" by (rule rounds.first)
  moreover have "sv_view (srv ?l) W = sv_view s W" for W
    using g by (simp add: sv_view_def sv_rep_def)
  ultimately show ?thesis using s(2) by (intro exI conjI) (assumption | simp add: first_loop_def)+
qed

theorem rounds_well_formed_witness:
  "\<exists>l. rounds (\<lambda>_. 0) (booted []) l \<and>
    list_all (\<lambda>fd. 0 \<le> fd) (descriptors (nfds l) (poll_fds l)) \<and> p_fd (poll_fds l 0) = 3"
proof -
  obtain l where l: "rounds (\<lambda>_. 0) (booted []) l" "gcfd l = 3" using booted_first by blast
  from rounds_well_formed [OF booted_fresh l(1)] l show ?thesis by auto
qed

section \<open>A round that accepts a client\<close>

lemma scan_idle:
  "\<forall>i\<in>set is. i < MAX_SERVER_FDS \<and> p_revents (poll_fds l i) = 0 \<Longrightarrow>
   \<exists>k. scan is l = Inr (l\<lparr>srv := (srv l)\<lparr>current_id := k\<rparr>\<rparr>)"
proof (induction "is" arbitrary: l)
  case Nil
  have "l = l\<lparr>srv := (srv l)\<lparr>current_id := current_id (srv l)\<rparr>\<rparr>" by simp
  then show ?case by (metis scan.simps(1))
next
  case (Cons i "is")
  let ?l = "l\<lparr>srv := (srv l)\<lparr>current_id := p_fd (poll_fds l i)\<rparr>\<rparr>"
  from Cons.IH [of ?l] Cons.prems obtain k where "scan is ?l = Inr (?l\<lparr>srv := (srv ?l)\<lparr>current_id := k\<rparr>\<rparr>)" by auto
  with Cons.prems show ?case by (auto simp: slot_def)
qed

lemma accept_fails:
  assumes "script (sv_os (srv l)) = e # rest" "sret e < 0"
  shows "accept_clients l = Inr (l\<lparr>srv := (srv l)\<lparr>sv_os :=
    \<lparr>script = rest, calls = calls (sv_os (srv l)) @ [(SAccept (p_fd (poll_fds l 0)), sret e)]\<rparr>\<rparr>\<rparr>)"
proof -
  have "FAILURE \<noteq> SUCCESS" by (simp add: code_defs)
  with assms show ?thesis
    by (subst accept_clients.simps) (simp add: login_event_def handle_new_accept_def tcp_server_accept_def sys_def SYS_CALL_FAIL_def)
qed

text \<open>The listening socket is ready, and nothing else.\<close>

lemma accept_round:
  assumes "sv_view (srv l) W" "table_ok l" "nfds l < MAX_SERVER_FDS" "\<not> compress_array l" "\<not> is_fatal_error l"
    and "script (sv_os (srv l)) = answer 1 [POLLIN] # events" "sret e < 0"
    and "\<And>s. sv_view s W \<Longrightarrow> sv_os s = \<lparr>script = events, calls = calls (sv_os (srv l)) @ [(SPoll (nfds l), 1)]\<rparr> \<Longrightarrow>
      \<exists>s'. login_event s (gcfd l) = Inr (SUCCESS, s') \<and> sv_view s' W' \<and> current_id s' = fd \<and> script (sv_os s') = e # rest \<and>
        delivered fd (calls (sv_os s')) = delivered fd (calls (sv_os (srv l))) @ d"
  shows "\<exists>l'. run_round l = Inr (False, l') \<and> sv_view (srv l') W' \<and>
    descriptors (nfds l') (poll_fds l') = descriptors (nfds l) (poll_fds l) @ [fd] \<and>
    delivered fd (calls (sv_os (srv l'))) = delivered fd (calls (sv_os (srv l))) @ d"
proof -
  from assms(2) have t: "1 \<le> nfds l" "p_fd (poll_fds l 0) = gcfd l" by (simp_all add: table_ok_def)
  let ?w = "\<lparr>script = events, calls = calls (sv_os (srv l)) @ [(SPoll (nfds l), 1)]\<rparr>"
  let ?fds = "\<lambda>k. if k < nfds l then (poll_fds l k)\<lparr>p_revents := if k < 1 then [POLLIN] ! k else 0\<rparr> else poll_fds l k"
  let ?l1 = "l\<lparr>srv := (srv l)\<lparr>sv_os := ?w\<rparr>, poll_fds := ?fds\<rparr>"
  have poll: "poll_all l = Inr (1, ?l1)" using assms(6)
    by (cases "sv_os (srv l)") (simp add: poll_all_def sys_def answer_def cong: if_cong)
  let ?s = "(srv ?l1)\<lparr>current_id := gcfd l\<rparr>"
  have "sv_view ?s W" "sv_os ?s = ?w" using assms(1) by simp_all
  from assms(8) [OF this] obtain s' where
    s': "login_event ?s (gcfd l) = Inr (SUCCESS, s')" "sv_view s' W'" "current_id s' = fd" "script (sv_os s') = e # rest"
      "delivered fd (calls (sv_os s')) = delivered fd (calls (sv_os (srv l))) @ d"
    by blast
  let ?fds2 = "?fds(nfds l := (?fds (nfds l))\<lparr>p_fd := fd, p_events := POLLIN OR POLLHUP\<rparr>)"
  let ?l2 = "(?l1\<lparr>srv := s'\<rparr>)\<lparr>poll_fds := ?fds2, nfds := nfds l + 1\<rparr>"
  let ?w3 = "\<lparr>script = rest, calls = calls (sv_os s') @ [(SAccept (gcfd l), sret e)]\<rparr>"
  let ?l3 = "?l2\<lparr>srv := s'\<lparr>sv_os := ?w3\<rparr>\<rparr>"
  have acc: "accept_clients (?l1\<lparr>srv := ?s\<rparr>) = Inr ?l3"
    using s'(1,3) t assms(3) accept_fails [of ?l2 e rest] s'(4) assms(7)
    by (subst accept_clients.simps) (simp add: add_fd_def slot_def)
  have "\<forall>i\<in>set [1..<nfds l]. i < MAX_SERVER_FDS \<and> p_revents (poll_fds ?l3 i) = 0" using assms(3) by auto
  from scan_idle [OF this] obtain k where
    k: "scan [1..<nfds l] ?l3 = Inr (?l3\<lparr>srv := (srv ?l3)\<lparr>current_id := k\<rparr>\<rparr>)" by blast
  have "[0..<nfds l] = 0 # [1..<nfds l]" using t(1) by (simp add: upt_conv_Cons)
  then have "scan [0..<nfds ?l1] ?l1 = Inr (?l3\<lparr>srv := (srv ?l3)\<lparr>current_id := k\<rparr>\<rparr>)"
    using t acc k by (simp add: slot_def MAX_SERVER_FDS_def is_revent_POLLIN_def POLLIN_def)
  then have "run_round l = Inr (False, ?l3\<lparr>srv := (srv ?l3)\<lparr>current_id := k\<rparr>\<rparr>)"
    using assms(4,5) by (simp add: run_round_def poll should_end_event_loop_def)
  moreover have "descriptors (nfds l + 1) ?fds2 = descriptors (nfds l) (poll_fds l) @ [fd]"
    by (simp add: descriptors_def)
  ultimately show ?thesis using s'(2,5) by simp
qed

lemma login_round_sim:
  assumes "sv_view (srv l) W" "global W \<noteq> []" "0 \<le> fd" "0 \<notin> set t" "length t \<le> MAX_NAME_SIZE"
    and "table_ok l" "nfds l < MAX_SERVER_FDS" "\<not> compress_array l" "\<not> is_fatal_error l"
    and "script (sv_os (srv l)) = answer 1 [POLLIN] # answer fd [] # answer (int (length t + 6)) (request_bytes v c ch t) #
      answer 11 [] # e # rest" "sret e < 0"
  shows "\<exists>l'. run_round l = Inr (False, l') \<and> sv_view (srv l') (view_login (login_user fd t) W) \<and>
    descriptors (nfds l') (poll_fds l') = descriptors (nfds l) (poll_fds l) @ [fd] \<and>
    delivered fd (calls (sv_os (srv l'))) = delivered fd (calls (sv_os (srv l))) @ reply LOGIN (str ''Success!'')"
proof (rule accept_round [OF assms(1,6-11)])
  fix s assume s: "sv_view s W" "sv_os s = \<lparr>script = answer fd [] # answer (int (length t + 6)) (request_bytes v c ch t) #
      answer 11 [] # e # rest, calls = calls (sv_os (srv l)) @ [(SPoll (nfds l), 1)]\<rparr>"
  from login_registers [OF s(1) assms(2-5) s(2), of "gcfd l"]
  show "\<exists>s'. login_event s (gcfd l) = Inr (SUCCESS, s') \<and> sv_view s' (view_login (login_user fd t) W) \<and>
      current_id s' = fd \<and> script (sv_os s') = e # rest \<and>
      delivered fd (calls (sv_os s')) = delivered fd (calls (sv_os (srv l))) @ reply LOGIN (str ''Success!'')"
    by (auto simp del: str_simps)
qed

text \<open>A login with a longer name is refused, and its descriptor is kept all the same.\<close>

lemma refused_round_sim:
  assumes "sv_view (srv l) W" "0 \<le> fd" "0 \<notin> set t" "MAX_NAME_SIZE < length t" "length t + 6 < 512"
    and "table_ok l" "nfds l < MAX_SERVER_FDS" "\<not> compress_array l" "\<not> is_fatal_error l"
    and "script (sv_os (srv l)) = answer 1 [POLLIN] # answer fd [] # answer (int (length t + 6)) (request_bytes v c ch t) #
      answer 10 [] # e # rest" "sret e < 0"
  shows "\<exists>l'. run_round l = Inr (False, l') \<and> sv_view (srv l') W \<and>
    descriptors (nfds l') (poll_fds l') = descriptors (nfds l) (poll_fds l) @ [fd] \<and>
    delivered fd (calls (sv_os (srv l'))) = delivered fd (calls (sv_os (srv l))) @ reply (of_int FAILURE) (str ''Failure'')"
proof (rule accept_round [OF assms(1,6-11)])
  fix s assume s: "sv_view s W" "sv_os s = \<lparr>script = answer fd [] # answer (int (length t + 6)) (request_bytes v c ch t) #
      answer 10 [] # e # rest, calls = calls (sv_os (srv l)) @ [(SPoll (nfds l), 1)]\<rparr>"
  from login_refused_sim [OF s(1) assms(2-5) s(2), of "gcfd l"]
  show "\<exists>s'. login_event s (gcfd l) = Inr (SUCCESS, s') \<and> sv_view s' W \<and> current_id s' = fd \<and> script (sv_os s') = e # rest \<and>
      delivered fd (calls (sv_os s')) = delivered fd (calls (sv_os (srv l))) @ reply (of_int FAILURE) (str ''Failure'')"
    by (auto simp del: str_simps)
qed

section \<open>The loop implements the chat\<close>

text \<open>C1: The server is the abstract chat. The directory at the start of every round is one that the chat
  makes of the empty directory by logins, logouts, and by creating, joining and leaving channels; and every
  round, whatever the clients send and the operating system answers, takes any directory to one that
  the chat makes of it by these operations, or ends in a fault.\<close>

theorem rounds_refine_chat:
  assumes "fresh_server s0" "rounds stl s0 l"
  shows "(\<exists>W. sv_view (srv l) W \<and> chat (start_view (length_slack s0)) W) \<and>
    (\<forall>W stop l'. sv_view (srv l) W \<and> run_round l = Inr (stop, l') \<longrightarrow> (\<exists>W'. sv_view (srv l') W' \<and> chat W W'))"
proof (intro conjI allI impI)
  note k = rounds_keep [OF assms]
  then show "\<exists>W. sv_view (srv l) W \<and> chat (start_view (length_slack s0)) W" by (simp add: session_ok_def)
  fix W stop l' assume r: "sv_view (srv l) W \<and> run_round l = Inr (stop, l')"
  moreover have "chat W W" by simp
  ultimately have "session_ok W (srv l)" using k unfolding session_ok_def by blast
  with run_round_keeps [of l W stop l'] k r show "\<exists>W'. sv_view (srv l') W' \<and> chat W W'"
    by (auto simp: session_ok_def)
qed

text \<open>A server that has booted, and a client with the name \<open>eve\<close> that connects in the first round.\<close>

definition eve_connects :: "sysret list" where
  "eve_connects = [answer 1 [POLLIN], answer 5 [], answer (int (length (str ''eve'') + 6)) (request_bytes 32 LOGIN 0 (str ''eve'')),
     answer 11 [], answer (-1) []]"

lemma eve_premises: "0 \<notin> set (str ''eve'')" "length (str ''eve'') \<le> MAX_NAME_SIZE" "sret (answer (-1) []) < 0"
  by (simp_all add: MAX_NAME_SIZE_def)

lemma eve_logs_in:
  "\<exists>l l' J. rounds (\<lambda>_. 0) (booted eve_connects) l \<and> run_round l = Inr (False, l') \<and>
     sv_view (srv l) (J, [(0, [root_user])]) \<and> sv_view (srv l') (J, [(0, [login_user 5 (str ''eve''), root_user])])"
proof -
  obtain l cs J where l: "rounds (\<lambda>_. 0) (booted eve_connects) l" "sv_os (srv l) = \<lparr>script = eve_connects, calls = cs\<rparr>"
    "sv_view (srv l) (J, [(0, [root_user])])" "nfds l = 1" "\<not> is_fatal_error l" using booted_first by blast
  from rounds_keep [OF booted_fresh l(1)] have c: "table_ok l" "\<not> compress_array l" by (auto simp: clean_def)
  have g: "global (J, [(0, [root_user])]) \<noteq> []" "nfds l < MAX_SERVER_FDS" using l(4) by (simp_all add: global_def MAX_SERVER_FDS_def)
  have "script (sv_os (srv l)) = answer 1 [POLLIN] # answer 5 [] #
      answer (int (length (str ''eve'') + 6)) (request_bytes 32 LOGIN 0 (str ''eve'')) # answer 11 [] # answer (-1) [] # []"
    using l(2) by (simp add: eve_connects_def)
  from login_round_sim [OF l(3) g(1) _ eve_premises(1,2) c(1) g(2) c(2) l(5) this eve_premises(3)]
  obtain l' where "run_round l = Inr (False, l')" "sv_view (srv l') (view_login (login_user 5 (str ''eve'')) (J, [(0, [root_user])]))"
    by auto
  then show ?thesis using l(1,3) by (auto simp: view_login_def global_def simp del: str_simps)
qed

theorem rounds_refine_chat_witness:
  "\<exists>l l' J W'. rounds (\<lambda>_. 0) (booted eve_connects) l \<and> run_round l = Inr (False, l') \<and>
     sv_view (srv l') (J, [(0, [login_user 5 (str ''eve''), root_user])]) \<and>
     sv_view (srv l') W' \<and> chat (J, [(0, [root_user])]) W'"
proof -
  obtain l l' J where l: "rounds (\<lambda>_. 0) (booted eve_connects) l" "run_round l = Inr (False, l')"
    "sv_view (srv l) (J, [(0, [root_user])])" "sv_view (srv l') (J, [(0, [login_user 5 (str ''eve''), root_user])])"
    using eve_logs_in by blast
  with rounds_refine_chat [OF booted_fresh l(1)] show ?thesis by blast
qed
section \<open>The end of the loop\<close>

text \<open>The users of the global channel are destroyed twice: by \<open>users_destroy\<close>, and again by
  \<open>channel_destroy\<close> on the global channel, through a pointer to the freed list.\<close>

lemma destroy_list_store:
  assumes "rep h A" "A l = Some (n, xs)"
  shows "\<exists>h'. destroy_list h (Some l) = Inr h' \<and> (xs \<noteq> [] \<longrightarrow> lists h' l = None)"
proof -
  from assms(1) obtain N where N: "repN h N A" by (auto simp: rep_def)
  from list_head [OF repN_list [OF N assms(2)]] have "map snd (N l) = xs" by auto
  with destroy_list_nodes [OF N assms(2)] show ?thesis by auto
qed

lemma server_destroy_dangles:
  assumes "sv_view s W" "global W \<noteq> []"
  shows "cpt_server_info_destroy s = Inl Dangling"
proof -
  from assms(1) obtain Au Ac d cs where S: "sv_rep s W Au Ac d cs" by (auto simp: sv_view_def)
  from sv_gc [OF S] obtain g lg where g: "gc s = Some g" "ch_users g = Some lg"
    "Au lg = Some (int (length (global W)), global W)" by auto
  from S have d: "dir s = Some d" "rep (sv_chans s) Ac" "Ac d = Some (fst W, cs)" "rep (sv_users s) Au"
    by (simp_all add: sv_rep_def)
  from destroy_list_store [OF d(2,3)] obtain ch where ch: "destroy_list (sv_chans s) (Some d) = Inr ch" by auto
  from destroy_list_store [OF d(4) g(3)] assms(2) obtain uh where
    uh: "destroy_list (sv_users s) (Some lg) = Inr uh" "lists uh lg = None" by auto
  from uh(2) have "destroy_list uh (Some lg) = Inl Dangling" by (simp add: destroy_list_def deref_list_def)
  with ch uh(1) g(1,2) d(1) show ?thesis
    by (simp add: cpt_server_info_destroy_def channels_destroy_def users_destroy_def channel_destroy_def)
qed

text \<open>C15: The main loop never ends well: when a round ends it (poll fails or times out, or reports
  an event other than \<open>POLLIN\<close>) and there is a user left in the global channel, where the root user
  always is unless a client with the descriptor 0 has logged it out, the destruction of the
  server's structures follows a pointer to the list of users it has just freed.\<close>

theorem run_ends_dangling:
  assumes "rounds stl s0 l" "run_round l = Inr (True, l')" "sv_view (srv l') W" "global W \<noteq> []"
  shows "run stl s0 = Inl Dangling"
  using rounds_run [OF assms(1)] server_destroy_dangles [OF assms(3,4)] assms(2)
  by (simp add: run_loop.simps [of l])

theorem run_ends_dangling_witness:
  "run (\<lambda>_. 0) (booted [\<lparr>sret = 0, serr = 0, sbytes = []\<rparr>]) = Inl Dangling"
proof -
  let ?r = "\<lparr>sret = 0, serr = 0, sbytes = []\<rparr>"
  obtain l cs J where l: "rounds (\<lambda>_. 0) (booted [?r]) l" "sv_os (srv l) = \<lparr>script = [?r], calls = cs\<rparr>"
    "sv_view (srv l) (J, [(0, [root_user])])" using booted_first by blast
  then obtain l' where l': "poll_all l = Inr (0, l')" by (simp add: poll_all_def)
  then have "run_round l = Inr (True, l')" by (simp add: run_round_def should_end_event_loop_def)
  moreover have "sv_view (srv l') (J, [(0, [root_user])])" using poll_all_same [OF l'] l(3) by simp
  ultimately show ?thesis by (rule run_ends_dangling [OF l(1)]) (simp add: global_def)
qed

end
