(* ===== verification/Connections.thy ===== *)
theory Connections
  imports Server_Loop
begin

text \<open>
  One client of the main loop, from the bytes it sends to the bytes the others receive: a SEND
  request, a connection that is closed, and a member of a channel whose connection is gone.
\<close>

section \<open>Receiving a request\<close>

lemma view_mem: "sv_view s W \<Longrightarrow> mem_ok s i"
  by (auto simp: sv_view_def sv_rep_def)

lemma received_request_closed:
  "received_request True True (replicate LG_BUFF_SIZE 0) 0 =
     Inr \<lparr>version = 0, command = 0, channel_id = 0, msg_len = 0, msg = Some []\<rparr>"
proof -
  have "replicate LG_BUFF_SIZE 0 = (0 :: byte) # 0 # packi16 (ucast (0 :: u16)) @
      packi16 (of_nat (length ([] :: byte list))) @ [] @ replicate 1018 0"
    by (simp add: packi16_def LG_BUFF_SIZE_def numeral_eq_Suc)
  with parse_request_bytes [of "[]" 0 0 0 0 "replicate 1018 0"] show ?thesis
    by (simp add: received_request_def)
qed

lemma receive_request_bytes:
  assumes "\<forall>i. mem_ok s i" "0 \<notin> set t" "length t + 6 < 512"
    and "script (sv_os s) = answer (int (length t + 6)) (request_bytes v c ch t) # rest"
  shows "receive_request s = Inr (int (length t + 6),
    \<lparr>version = v, command = c, channel_id = ch, msg_len = 0, msg = Some (t @ replicate 6 0)\<rparr>,
    s\<lparr>sv_os := \<lparr>script = rest, calls = calls (sv_os s) @
        [(SRecv (current_id s) LG_BUFF_SIZE, int (length t + 6))]\<rparr>, clock := Suc (Suc (clock s))\<rparr>)"
proof -
  let ?w = "\<lparr>script = rest, calls = calls (sv_os s) @ [(SRecv (current_id s) LG_BUFF_SIZE, int (length t + 6))]\<rparr>"
  let ?b = "request_bytes v c ch t"
  have "tcp_server_recv (current_id s) (replicate LG_BUFF_SIZE 0) (sv_os s) =
      Inr (int (length t + 6), ?b @ replicate (1024 - (length t + 6)) 0, ?w)"
    using assms(3,4) by (simp add: tcp_server_recv_def recv_into_def LG_BUFF_SIZE_def sys_def)
  then show ?thesis
    using assms(1) received_request_bytes [OF assms(2,3), of v c ch]
    by (simp add: receive_request_def alloc_def del: rbind_eq_Inr of_nat_add)
qed

lemma receive_request_closed:
  assumes "\<forall>i. mem_ok s i" "script (sv_os s) = answer 0 bs # rest"
  shows "receive_request s = Inr (0, \<lparr>version = 0, command = 0, channel_id = 0, msg_len = 0, msg = Some []\<rparr>,
    s\<lparr>sv_os := \<lparr>script = rest, calls = calls (sv_os s) @ [(SRecv (current_id s) LG_BUFF_SIZE, 0)]\<rparr>,
      clock := Suc (Suc (clock s))\<rparr>)"
proof -
  have "tcp_server_recv (current_id s) (replicate LG_BUFF_SIZE 0) (sv_os s) =
      Inr (0, replicate LG_BUFF_SIZE 0,
        \<lparr>script = rest, calls = calls (sv_os s) @ [(SRecv (current_id s) LG_BUFF_SIZE, 0)]\<rparr>)"
    using assms(2) by (simp add: tcp_server_recv_def recv_into_def sys_def)
  then show ?thesis
    using assms(1) received_request_closed
    by (simp add: receive_request_def alloc_def del: rbind_eq_Inr)
qed

lemma handle_event_other:
  "command req \<notin> {SEND, GET_USERS, CREATE_CHANNEL, LEAVE_CHANNEL, JOIN_CHANNEL} \<Longrightarrow> handle_event stl s req = Inr s"
  by (simp add: handle_event_def event_step_def)

section \<open>A closed connection\<close>

text \<open>C21: When a client closes its connection without a LOGOUT request (or sends an empty packet), the
  descriptor is closed and marked for removal from the table, and the directory stays as it is: the
  user is still in the global channel and in every channel it had joined.\<close>

theorem close_keeps_user:
  assumes "sv_view (srv l) W" "script (sv_os (srv l)) = answer 0 bs # rest"
  shows "\<exists>l'. serve_client i l = Inr l' \<and> sv_view (srv l') W \<and> p_fd (poll_fds l' i) = -1 \<and> compress_array l' \<and>
    calls (sv_os (srv l')) = calls (sv_os (srv l)) @
      [(SRecv (p_fd (poll_fds l i)) LG_BUFF_SIZE, 0), (SClose (p_fd (poll_fds l i)), 0)]"
proof -
  let ?s = "(srv l)\<lparr>current_id := p_fd (poll_fds l i)\<rparr>"
  have "\<forall>i. mem_ok ?s i" using view_mem [OF assms(1)] by simp
  from receive_request_closed [OF this, of bs rest] assms(2) have
    "receive_request ?s = Inr (0, \<lparr>version = 0, command = 0, channel_id = 0, msg_len = 0, msg = Some []\<rparr>,
      ?s\<lparr>sv_os := \<lparr>script = rest, calls = calls (sv_os (srv l)) @
        [(SRecv (p_fd (poll_fds l i)) LG_BUFF_SIZE, 0)]\<rparr>, clock := Suc (Suc (clock (srv l)))\<rparr>)" by simp
  moreover have "dispatch stl 0 \<lparr>version = 0, command = 0, channel_id = 0, msg_len = 0, msg = Some []\<rparr> s =
      Inr (True, s)" for stl s
    by (simp add: dispatch_def handle_event_other LOGOUT_def SEND_def GET_USERS_def CREATE_CHANNEL_def
        LEAVE_CHANNEL_def JOIN_CHANNEL_def)
  ultimately show ?thesis
    using assms(1) by (simp add: serve_client_def close_connections_def log_call_def del: rbind_eq_Inr)
qed

theorem close_keeps_user_witness:
  "\<exists>s l'. sv_view s demo \<and> serve_client 7 (first_loop (\<lambda>_. 0) s) = Inr l' \<and> sv_view (srv l') demo \<and>
     calls (sv_os (srv l')) = [(SRecv 0 LG_BUFF_SIZE, 0), (SClose 0, 0)]"
proof -
  obtain s where s: "sv_view s demo" "sv_os s = \<lparr>script = [answer 0 []], calls = []\<rparr>"
    using demo_state by blast
  let ?l = "first_loop (\<lambda>_. 0) s"
  have "sv_view (srv ?l) demo" "script (sv_os (srv ?l)) = answer 0 [] # []"
    using s by (simp_all add: first_loop_def)
  from close_keeps_user [OF this, of 7] s show ?thesis by (auto simp: first_loop_def no_fd_def)
qed

section \<open>A client that connects\<close>

text \<open>A client that connects and logs in, through a whole round of the main loop in which nobody else is
  heard of: the new user, whose id is the descriptor modulo 256, is put in front of the global channel;
  the descriptor is added at the end of the table, and the entries before it stay; the client receives
  \<open>Success!\<close>; and the loop goes on.\<close>

lemma login_round:
  assumes "sv_view (srv l) W" "global W \<noteq> []" "0 \<le> fd" "0 \<notin> set t" "length t \<le> MAX_NAME_SIZE"
    and "table_ok l" "nfds l < MAX_SERVER_FDS" "\<not> compress_array l" "\<not> is_fatal_error l"
    and "script (sv_os (srv l)) = answer 1 [POLLIN] # answer fd [] # answer (int (length t + 6)) (request_bytes v c ch t) #
      answer 11 [] # e # rest" "sret e < 0"
  shows "\<exists>l'. run_round l = Inr (False, l') \<and> sv_view (srv l') (view_login (login_user fd t) W) \<and>
    user_key (login_user fd t) = fd mod 256 \<and>
    descriptors (nfds l') (poll_fds l') = descriptors (nfds l) (poll_fds l) @ [fd] \<and>
    delivered fd (calls (sv_os (srv l'))) = delivered fd (calls (sv_os (srv l))) @ reply LOGIN (str ''Success!'')"
proof -
  have "user_key (login_user fd t) = fd mod 256" by (simp add: login_user_def uint_byte_u16 uint_word_of_int)
  with login_round_sim [OF assms] show ?thesis by blast
qed

lemma login_round_example:
  "\<exists>l l' J. rounds (\<lambda>_. 0) (booted eve_connects) l \<and> run_round l = Inr (False, l') \<and>
     sv_view (srv l') (J, [(0, [login_user 5 (str ''eve''), root_user])]) \<and>
     descriptors (nfds l') (poll_fds l') = [3, 5]"
proof -
  obtain l cs J where l: "rounds (\<lambda>_. 0) (booted eve_connects) l" "sv_os (srv l) = \<lparr>script = eve_connects, calls = cs\<rparr>"
    "sv_view (srv l) (J, [(0, [root_user])])" "gcfd l = 3" "nfds l = 1" "\<not> is_fatal_error l" using booted_first by blast
  from rounds_keep [OF booted_fresh l(1)] have c: "table_ok l" "\<not> compress_array l" by (auto simp: clean_def)
  then have d: "descriptors (nfds l) (poll_fds l) = [3]" using l(4,5) by (simp add: descriptors_def table_ok_def)
  have g: "global (J, [(0, [root_user])]) \<noteq> []" "nfds l < MAX_SERVER_FDS" using l(5) by (simp_all add: global_def MAX_SERVER_FDS_def)
  have "script (sv_os (srv l)) = answer 1 [POLLIN] # answer 5 [] #
      answer (int (length (str ''eve'') + 6)) (request_bytes 32 LOGIN 0 (str ''eve'')) # answer 11 [] # answer (-1) [] # []"
    using l(2) by (simp add: eve_connects_def)
  from login_round [OF l(3) g(1) _ eve_premises(1,2) c(1) g(2) c(2) l(6) this eve_premises(3)] l(1) d
  show ?thesis by (auto simp: view_login_def global_def simp del: str_simps)
qed

section \<open>A member whose connection is gone\<close>

text \<open>A message to a channel with a member whose connection is gone ends the server: the members
  before it in the list get the message, and the failed \<open>send\<close> to it exits the process.\<close>

lemma send_dead_member:
  assumes "sv_view s W" "map_of (snd W) cid = Some (us1 @ v # us2)" "0 \<notin> set t" "length t + 3 \<le> 1024"
    and "uid v \<noteq> 0" "user_key v \<noteq> current_id s" "sret a < 0" "serr a \<noteq> 0"
    and "script (sv_os s) =
      replicate (length (receivers (current_id s) us1)) (answer (int (length t + 3)) []) @ a # rest"
  shows "send_event s (Some (t @ 0 # z)) (uint cid) = Inl (ExitProcess 1)"
proof -
  have "us1 @ v # us2 \<noteq> []" by simp
  from send_event_start [OF assms(1,2) this assms(3,4), of z] obtain s3 where
    s3: "quiet s s3" "sv_os s3 = sv_os s"
    and ev: "send_event s (Some (t @ 0 # z)) (uint cid) =
      rbind (fold_res (\<lambda>u. send_to_user (reply SEND t) (of_nat (length t + 3)) (Some u)) (us1 @ v # us2) s3)
        info_res_destroy" by blast
  from s3(1) have k: "current_id s3 = current_id s" by (simp add: quiet_def)
  have n: "reply SEND t \<noteq> []" "uint (of_nat (length t + 3) :: u32) = int (length (reply SEND t))"
    using uint_u32_len [of "length t + 3"] assms(4) by (simp_all add: reply_def del: of_nat_add)
  let ?s4 = "s3\<lparr>sv_os := (sv_os s3)\<lparr>script := a # rest,
      calls := calls (sv_os s3) @ sent_to (reply SEND t) (receivers (current_id s) us1)\<rparr>\<rparr>"
  have "fold_res (\<lambda>u. send_to_user (reply SEND t) (of_nat (length t + 3)) (Some u)) us1 s3 = Inr ?s4"
    using send_fold [OF n, of s3 "current_id s" us1 "a # rest"] k s3(2) assms(9) by simp
  moreover have "send_to_user (reply SEND t) (of_nat (length t + 3)) (Some v) ?s4 = Inl (ExitProcess 1)"
    using tcp_server_send_fail [of "sv_os ?s4" a rest "reply SEND t" "user_key v"] assms(5-8) n k
    by (simp add: send_to_user_def send_to_def)
  ultimately show ?thesis unfolding ev by (simp add: fold_res_append)
qed

text \<open>C31: The two messages that end the server. A SEND to a channel that does not exist ends every reachable server: the response
  pointer of the server is freed although no response was made for it, and in every reachable state it has never
  been set or has been freed before. And a SEND to a channel with a member whose connection is gone exits the
  process when the \<open>send\<close> to that member fails, after the members before it have got the message.\<close>

theorem send_ends_server:
  assumes "sv_view s W"
  shows "(fresh_server s0 \<and> reachable s0 s \<and> map_of (snd W) cid = None \<longrightarrow>
      serve (Request stl fd \<lparr>version = v, command = SEND, channel_id = cid, msg_len = n, msg = m\<rparr>) s = Inl BadFree) \<and>
    (map_of (snd W) cid = Some (us1 @ u # us2) \<and> 0 \<notin> set t \<and> length t + 3 \<le> 1024 \<and>
      uid u \<noteq> 0 \<and> user_key u \<noteq> current_id s \<and> sret a < 0 \<and> serr a \<noteq> 0 \<and>
      script (sv_os s) = replicate (length (receivers (current_id s) us1)) (answer (int (length t + 3)) []) @ a # rest \<longrightarrow>
      send_event s (Some (t @ 0 # z)) (uint cid) = Inl (ExitProcess 1))"
  using send_unknown_crash [OF _ _ assms, of s0 cid stl fd v n m] send_dead_member [OF assms, of cid us1 u us2 t a rest z] by blast

theorem send_ends_server_witness:
  "(\<exists>s. reachable blank s \<and>
     serve (Request 0 5 \<lparr>version = 32, command = SEND, channel_id = 9, msg_len = 0, msg = None\<rparr>) s = Inl BadFree) \<and>
   (\<exists>s. sv_view s demo \<and> current_id s = 4 \<and> send_event s (Some (str ''hi'' @ [0])) 0 = Inl (ExitProcess 1))"
proof
  have f: "fresh_server blank" using blank_room by (simp add: fresh_server_def)
  from setup_sim [OF blank_room] obtain s W where s: "server_setup blank = Inr (Some s)"
    "sv_view s (junk (sv_chans blank) (brk (sv_chans blank) + 2) + 1, [(0, [root_user])])" by auto
  note r = reachable.start [OF s(1)]
  from send_ends_server [OF s(2), of blank 9 0 5 32 0 None] f r
  show "\<exists>s. reachable blank s \<and>
     serve (Request 0 5 \<lparr>version = 32, command = SEND, channel_id = 9, msg_len = 0, msg = None\<rparr>) s = Inl BadFree" by auto
next
  obtain s where s: "sv_view s demo" "current_id s = 4"
    "sv_os s = \<lparr>script = [\<lparr>sret = -1, serr = 9, sbytes = []\<rparr>], calls = []\<rparr>" using demo_state by blast
  have "map_of (snd demo) 0 = Some ([] @ bob # [alice, root_user])" by (simp add: demo_def)
  with send_ends_server [OF s(1), of blank 0 0 0 0 0 None "[]" bob "[alice, root_user]" "str ''hi''"
      "\<lparr>sret = -1, serr = 9, sbytes = []\<rparr>" "[]" "[]"] s
  show "\<exists>s. sv_view s demo \<and> current_id s = 4 \<and> send_event s (Some (str ''hi'' @ [0])) 0 = Inl (ExitProcess 1)"
    by (auto simp: bob_def receivers_def)
qed

section \<open>A SEND request from the first byte to the last\<close>

lemma handle_event_send:
  assumes "send_event s (msg req) (uint (channel_id req)) = Inr s'" "command req = SEND"
    and "stl \<notin> {GET_USERS, CREATE_CHANNEL, LEAVE_CHANNEL, JOIN_CHANNEL}"
  shows "handle_event stl s req = Inr s'"
  using assms by (simp add: handle_event_def event_step_def)

lemma serve_send_sim:
  assumes "sv_view (srv l) W" "map_of (snd W) cid = Some us" "us \<noteq> []" "0 \<notin> set t" "length t + 6 < 512"
    and "p_fd (poll_fds l i) = fd" "\<And>n. stale l n \<notin> {GET_USERS, CREATE_CHANNEL, LEAVE_CHANNEL, JOIN_CHANNEL}"
    and "script (sv_os (srv l)) = answer (int (length t + 6)) (request_bytes v SEND cid t) #
      replicate (length (receivers fd us)) (answer (int (length t + 3)) []) @ rest"
  shows "\<exists>l'. serve_client i l = Inr l' \<and> sv_view (srv l') W \<and> poll_fds l' = poll_fds l \<and>
    calls (sv_os (srv l')) = calls (sv_os (srv l)) @ (SRecv fd LG_BUFF_SIZE, int (length t + 6)) #
      sent_to (reply SEND t) (receivers fd us)"
proof -
  let ?s = "(srv l)\<lparr>current_id := fd\<rparr>"
  let ?req = "\<lparr>version = v, command = SEND, channel_id = cid, msg_len = 0, msg = Some (t @ replicate 6 0)\<rparr>"
  let ?rest = "replicate (length (receivers fd us)) (answer (int (length t + 3)) []) @ rest"
  let ?w = "\<lparr>script = ?rest, calls = calls (sv_os (srv l)) @ [(SRecv fd LG_BUFF_SIZE, int (length t + 6))]\<rparr>"
  let ?s1 = "?s\<lparr>sv_os := ?w, clock := Suc (Suc (clock (srv l)))\<rparr>"
  have "\<forall>i. mem_ok ?s i" using view_mem [OF assms(1)] by simp
  from receive_request_bytes [OF this assms(4,5), of v SEND cid ?rest] assms(8)
  have rec: "receive_request ?s = Inr (int (length t + 6), ?req, ?s1)" by simp
  have six: "t @ replicate 6 0 = t @ 0 # replicate 5 0" by (simp add: numeral_eq_Suc)
  have "sv_view ?s1 W" using assms(1) by simp
  from send_broadcasts [OF this assms(2-4), of rest "replicate 5 0"] assms(5) obtain s' where
    s': "send_event ?s1 (Some (t @ 0 # replicate 5 0)) (uint cid) = Inr s'" "sv_view s' W"
      "sv_os s' = \<lparr>script = rest, calls = calls ?w @ sent_to (reply SEND t) (receivers fd us)\<rparr>"
    by auto
  have ev: "handle_event (stale l (clock ?s1)) ?s1 ?req = Inr s'"
    by (rule handle_event_send) (use s'(1) six assms(7) in simp_all)
  have "dispatch (stale l (clock ?s1)) (int (length t + 6)) ?req ?s1 = Inr (False, s')"
    unfolding dispatch_def ev by (simp add: SEND_def LOGOUT_def)
  with rec have "serve_client i l = Inr (l\<lparr>srv := s', close_conn := False\<rparr>)"
    unfolding serve_client_def assms(6) rec rbind_Inr prod.case by simp
  with s'(2,3) show ?thesis by simp
qed

text \<open>C8: A SEND request of a client, from its bytes to the bytes the others receive: when the packet
  arrives whole, and what the freed request holds afterwards is not taken for another command, the
  message goes once to every member of the channel but the sender and the root user, the connection
  stays open, and the directory does not change.\<close>

theorem serve_send:
  assumes "sv_view (srv l) W" "map_of (snd W) cid = Some us" "us \<noteq> []" "0 \<notin> set t" "length t + 6 < 512"
    and "p_fd (poll_fds l i) = fd" "\<And>n. stale l n \<notin> {GET_USERS, CREATE_CHANNEL, LEAVE_CHANNEL, JOIN_CHANNEL}"
    and "script (sv_os (srv l)) = answer (int (length t + 6)) (request_bytes v SEND cid t) #
      replicate (length (receivers fd us)) (answer (int (length t + 3)) []) @ rest"
  shows "\<exists>l'. serve_client i l = Inr l' \<and> sv_view (srv l') W \<and> poll_fds l' = poll_fds l \<and>
    calls (sv_os (srv l')) = calls (sv_os (srv l)) @ (SRecv fd LG_BUFF_SIZE, int (length t + 6)) #
      sent_to (reply SEND t) (receivers fd us)"
  by (rule serve_send_sim [OF assms])

theorem serve_send_witness:
  "\<exists>s l'. sv_view s demo \<and> serve_client 7 ((first_loop (\<lambda>_. 0) s)\<lparr>poll_fds := (\<lambda>_. no_fd\<lparr>p_fd := 4\<rparr>)\<rparr>) = Inr l' \<and>
     calls (sv_os (srv l')) = [(SRecv 4 LG_BUFF_SIZE, 8), (SSend 5 (reply SEND (str ''hi'')), 5)]"
proof -
  obtain s where s: "sv_view s demo"
    "sv_os s = \<lparr>script = [answer 8 (request_bytes 32 SEND 0 (str ''hi'')), answer 5 []], calls = []\<rparr>"
    using demo_state by blast
  let ?l = "(first_loop (\<lambda>_. 0) s)\<lparr>poll_fds := (\<lambda>_. no_fd\<lparr>p_fd := 4\<rparr>)\<rparr>"
  have m: "map_of (snd demo) 0 = Some [bob, alice, root_user]" by (simp add: demo_def)
  have r: "receivers 4 [bob, alice, root_user] = [bob]"
    by (simp add: receivers_def bob_def alice_def root_user_def)
  have "\<exists>l'. serve_client 7 ?l = Inr l' \<and> sv_view (srv l') demo \<and> poll_fds l' = poll_fds ?l \<and>
    calls (sv_os (srv l')) = calls (sv_os (srv ?l)) @ (SRecv 4 LG_BUFF_SIZE, int (length (str ''hi'') + 6)) #
      sent_to (reply SEND (str ''hi'')) (receivers 4 [bob, alice, root_user])"
    by (rule serve_send [where v = 32 and rest = "[]"])
      (use s m r in \<open>simp_all add: first_loop_def GET_USERS_def CREATE_CHANNEL_def LEAVE_CHANNEL_def JOIN_CHANNEL_def\<close>)
  then show ?thesis using s r by (auto simp: first_loop_def sent_to_def bob_def)
qed

end
