(* ===== verification/Client_Api.thy ===== *)
theory Client_Api
  imports Wire
begin

text \<open>
  The client's side of the protocol: client_info.c, cpt_client.c and cpt_voice_client.c. Each
  call builds a request in \<open>info->packet\<close> and serializes it into a buffer of the caller.

  Every call that starts a new packet allocates it: \<open>blk\<close> is the fresh block with what it happens to
  hold, or \<open>None\<close> if there is no memory. \<open>cap\<close> is the size of the caller's buffer. A call returns the
  size it reports, the bytes it has stored and the new state.
\<close>

section \<open>The client's state\<close>

text \<open>\<open>fd\<close>, \<open>code\<close> and \<open>name\<close> are not set by \<open>cpt_init_client_info\<close>: the outer \<open>None\<close> is a field that has
  not been written.\<close>

record client_info =
  ci_fd :: "int option"
  ci_ip :: "byte list"
  ci_port :: "byte list"
  ci_name :: "byte list option option"
  ci_channel :: u16
  packet :: "cpt_request option"
  ci_channels :: "addr option"

text \<open>The list of the client's channels starts with the global channel.\<close>

definition cpt_init_client_info ::
  "bool \<Rightarrow> cpt_request option \<Rightarrow> u16 lheap \<Rightarrow> byte list option \<Rightarrow> byte list option \<Rightarrow>
   (client_info option \<times> u16 lheap) res" where
  "cpt_init_client_info ok blk h port ip =
     (if \<not> ok then Inr (None, h)
      else case cpt_request_init blk of None \<Rightarrow> Inr (None, h)
      | Some req \<Rightarrow>
          rbind (case port of None \<Rightarrow> Inl NullDeref | Some p \<Rightarrow> cstring p) (\<lambda>p.
          rbind (case ip of None \<Rightarrow> Inl NullDeref | Some a \<Rightarrow> cstring a) (\<lambda>a.
          rbind (init_list_data h (Some 0)) (\<lambda>(chans, h').
            Inr (Some \<lparr>ci_fd = None, ci_ip = a @ [0], ci_port = p @ [0], ci_name = None, ci_channel = 0,
                       packet = Some req, ci_channels = chans\<rparr>, h')))))"

text \<open>Destroying the structure frees its strings; a name that was never set is a wild pointer.\<close>

definition cpt_destroy_client_info :: "client_info option \<Rightarrow> unit res" where
  "cpt_destroy_client_info ci = (case ci of None \<Rightarrow> Inr ()
     | Some c \<Rightarrow> if ci_name c = None then Inl BadFree else Inr ())"

section \<open>cpt_client.c\<close>

type_synonym sent = "int \<times> byte list \<times> client_info"

text \<open>A new packet with its channel, version and command, as most calls start.\<close>

definition new_packet :: "cpt_request option \<Rightarrow> u16 \<Rightarrow> byte \<Rightarrow> cpt_request res" where
  "new_packet blk chan cmd = (case cpt_request_init blk of None \<Rightarrow> Inl NullDeref
     | Some r \<Rightarrow> Inr (cpt_request_cmd cmd (cpt_request_version 2 0 (cpt_request_chan chan r))))"

text \<open>The size is kept in a \<open>uint16_t\<close>.\<close>

definition size16 :: "u32 \<Rightarrow> int" where
  "size16 n = uint (ucast n :: u16)"

definition cpt_login :: "cpt_request option \<Rightarrow> nat \<Rightarrow> client_info \<Rightarrow> byte list option \<Rightarrow> sent res" where
  "cpt_login blk cap ci name =
     rbind (new_packet blk 0 LOGIN) (\<lambda>r.
     rbind (cpt_request_msg (Some (case name of Some a \<Rightarrow> a | None \<Rightarrow> DEFAULT_USERNAME @ [0])) r) (\<lambda>r.
     rbind (cpt_serialize_packet cap r) (\<lambda>(n, out).
       Inr (size16 n, out, ci\<lparr>packet := Some r\<rparr>))))"

definition cpt_logout :: "nat \<Rightarrow> client_info \<Rightarrow> sent res" where
  "cpt_logout cap ci = (case packet ci of None \<Rightarrow> Inl NullDeref
     | Some r0 \<Rightarrow>
         let r = cpt_request_cmd LOGOUT r0 in
         rbind (cpt_serialize_packet cap r) (\<lambda>(n, out).
           Inr (uint n, out, ci\<lparr>packet := Some (cpt_request_reset r)\<rparr>)))"

definition cpt_get_users :: "nat \<Rightarrow> client_info \<Rightarrow> u16 \<Rightarrow> sent res" where
  "cpt_get_users cap ci cid = (case packet ci of None \<Rightarrow> Inl NullDeref
     | Some r0 \<Rightarrow>
         rbind (cpt_request_msg (Some (str ''GET_USERS'' @ [0])) (cpt_request_cmd GET_USERS r0)) (\<lambda>r.
           if cid \<ge> 0 then
             (let r1 = cpt_request_chan cid r in
              rbind (cpt_serialize_packet cap r1) (\<lambda>(n, out). Inr (uint n, out, ci\<lparr>packet := Some r1\<rparr>)))
           else Inr (0, [], ci\<lparr>packet := Some r\<rparr>)))"

definition cpt_send :: "cpt_request option \<Rightarrow> nat \<Rightarrow> client_info \<Rightarrow> byte list option \<Rightarrow> sent res" where
  "cpt_send blk cap ci m =
     rbind (new_packet blk (ci_channel ci) SEND) (\<lambda>r.
     rbind (cpt_request_msg m r) (\<lambda>r.
     rbind (cpt_serialize_packet cap r) (\<lambda>(n, out).
       Inr (size16 n, out, ci\<lparr>packet := Some r\<rparr>))))"

definition cpt_join_channel :: "cpt_request option \<Rightarrow> nat \<Rightarrow> client_info \<Rightarrow> u16 \<Rightarrow> sent res" where
  "cpt_join_channel blk cap ci cid =
     rbind (new_packet blk cid JOIN_CHANNEL) (\<lambda>r.
     rbind (cpt_request_msg (Some (str ''join channel'' @ [0])) r) (\<lambda>r.
     rbind (cpt_serialize_packet cap r) (\<lambda>(n, out).
       Inr (size16 n, out, ci\<lparr>packet := Some (cpt_request_reset r)\<rparr>))))"

definition cpt_create_channel ::
  "cpt_request option \<Rightarrow> nat \<Rightarrow> client_info \<Rightarrow> byte list option \<Rightarrow> sent res" where
  "cpt_create_channel blk cap ci user_list =
     rbind (new_packet blk 0 CREATE_CHANNEL) (\<lambda>r.
     rbind (if user_list \<noteq> None then cpt_request_msg user_list r else Inr r) (\<lambda>r.
     rbind (cpt_serialize_packet cap r) (\<lambda>(n, out).
       Inr (size16 n, out, ci\<lparr>packet := Some r\<rparr>))))"

definition cpt_leave_channel :: "cpt_request option \<Rightarrow> nat \<Rightarrow> client_info \<Rightarrow> u16 \<Rightarrow> sent res" where
  "cpt_leave_channel blk cap ci cid =
     (if cid = 0 then Inr (-1, [], ci)
      else
        rbind (new_packet blk cid LEAVE_CHANNEL) (\<lambda>r.
        rbind (cpt_request_msg (Some (str ''LEAVE_CHANNEL'' @ [0])) r) (\<lambda>r.
        rbind (cpt_serialize_packet cap r) (\<lambda>(n, out).
          Inr (size16 n, out, ci\<lparr>packet := Some r\<rparr>)))))"

definition cpt_create_vchannel ::
  "cpt_request option \<Rightarrow> nat \<Rightarrow> client_info \<Rightarrow> byte list option \<Rightarrow> sent res" where
  "cpt_create_vchannel blk cap ci user_list =
     rbind (new_packet blk 0 CREATE_VCHAN) (\<lambda>r.
     rbind (if user_list \<noteq> None then cpt_request_msg user_list r else Inr r) (\<lambda>r.
     rbind (cpt_serialize_packet cap r) (\<lambda>(n, out).
       Inr (size16 n, out, ci\<lparr>packet := Some r\<rparr>))))"

section \<open>What the calls put on the wire\<close>

lemma new_packet_ok:
  "SEND \<le> cmd \<Longrightarrow> cmd \<le> CREATE_VCHAN \<Longrightarrow>
   new_packet (Some b) chan cmd = Inr (b\<lparr>msg := None, channel_id := chan, version := 32, command := cmd\<rparr>)"
  by (simp add: new_packet_def cpt_request_init_def cpt_request_cmd_def cpt_request_version_def
      cpt_request_chan_def)

lemma serialize_request:
  assumes "msg r = Some (t @ [0])" "0 \<notin> set t" "length t + 6 \<le> cap" "length t < 65530"
  shows "cpt_serialize_packet cap r = Inr (of_nat (length t + 6), request_bytes (version r) (command r) (channel_id r) t)"
    and "size16 (of_nat (length t + 6)) = int (length t + 6)"
    and "uint (of_nat (length t + 6) :: u32) = int (length t + 6)"
proof -
  show "cpt_serialize_packet cap r = Inr (of_nat (length t + 6), request_bytes (version r) (command r) (channel_id r) t)"
    using serialize_packet_bytes [of r t "[]" cap] assms(1-3) by (simp add: request_bytes_def)
  show u: "uint (of_nat (length t + 6) :: u32) = int (length t + 6)"
    using uint_u32_len [of "length t + 6"] assms(4) by (simp del: of_nat_add)
  show "size16 (of_nat (length t + 6)) = int (length t + 6)"
    using assms(4) u by (simp add: size16_def unsigned_ucast_eq take_bit_int_eq_self del: of_nat_add)
qed

text \<open>A call puts a packet into the buffer that the server parses as command \<open>c\<close> for channel \<open>ch\<close> with
  the message \<open>t\<close>.\<close>

definition arrives :: "sent res \<Rightarrow> byte \<Rightarrow> u16 \<Rightarrow> byte list \<Rightarrow> bool" where
  "arrives m c ch t \<longleftrightarrow> (\<exists>n out ci. m = Inr (n, out, ci) \<and> n = int (length out) \<and>
     (\<forall>rest. cpt_parse_request (True, True) (out @ rest) (length out) =
        Inr \<lparr>version = 32, command = c, channel_id = ch, msg_len = 0, msg = Some (t @ replicate 6 0)\<rparr>))"

lemma arrivesI:
  assumes "m = Inr (int (length t + 6), request_bytes 32 c ch t, ci)" "0 \<notin> set t" "length t + 6 < 512"
  shows "arrives m c ch t"
proof -
  have "cpt_parse_request (True, True) (request_bytes 32 c ch t @ rest) (length t + 6) =
      Inr \<lparr>version = 32, command = c, channel_id = ch, msg_len = 0, msg = Some (t @ replicate 6 0)\<rparr>" for rest
    using parse_request_bytes [OF assms(2,3), of 32 c ch rest] by (simp add: request_bytes_def)
  then show ?thesis unfolding arrives_def assms(1) by simp
qed

lemma command_bounds:
  "SEND \<le> c \<and> c \<le> CREATE_VCHAN" if "c \<in> {SEND, LOGIN, JOIN_CHANNEL, CREATE_CHANNEL, LEAVE_CHANNEL, CREATE_VCHAN}"
  using that by (auto simp: SEND_def LOGIN_def JOIN_CHANNEL_def CREATE_CHANNEL_def LEAVE_CHANNEL_def CREATE_VCHAN_def)

lemma cpt_request_msg_text:
  "0 \<notin> set t \<Longrightarrow> cpt_request_msg (Some (t @ [0])) r = Inr (r\<lparr>msg := Some (t @ [0]), msg_len := of_nat (length t)\<rparr>)"
  by (simp add: cpt_request_msg_def)

lemma packet_wire:
  assumes "c \<in> {SEND, LOGIN, JOIN_CHANNEL, CREATE_CHANNEL, LEAVE_CHANNEL, CREATE_VCHAN}"
    and "0 \<notin> set t" "length t + 6 < 512" "length t + 6 \<le> cap"
  shows "rbind (new_packet (Some b) ch c) (\<lambda>r.
     rbind (cpt_request_msg (Some (t @ [0])) r) (\<lambda>r.
     rbind (cpt_serialize_packet cap r) (\<lambda>(n, out). Inr (size16 n, out, ci\<lparr>packet := Some (f r)\<rparr>)))) =
   Inr (int (length t + 6), request_bytes 32 c ch t, ci\<lparr>packet := Some (f (b\<lparr>msg := Some (t @ [0]),
     channel_id := ch, version := 32, command := c, msg_len := of_nat (length t)\<rparr>))\<rparr>)"
proof -
  have new: "new_packet (Some b) ch c = Inr (b\<lparr>msg := None, channel_id := ch, version := 32, command := c\<rparr>)"
    using command_bounds [OF assms(1)] by (simp add: new_packet_ok)
  let ?r = "b\<lparr>msg := Some (t @ [0]), channel_id := ch, version := 32, command := c, msg_len := of_nat (length t)\<rparr>"
  have lt: "length t < 65530" using assms(3) by simp
  have ser: "cpt_serialize_packet cap ?r = Inr (of_nat (length t + 6), request_bytes 32 c ch t)"
    using serialize_request(1) [of ?r t cap] assms(2,4) lt by simp
  have size: "size16 (of_nat (length t + 6)) = int (length t + 6)"
    using serialize_request(2) [of ?r t cap] assms(2,4) lt by simp
  have upd: "(b\<lparr>msg := None, channel_id := ch, version := 32, command := c\<rparr>)
      \<lparr>msg := Some (t @ [0]), msg_len := of_nat (length t)\<rparr> = ?r" by simp
  show ?thesis
    by (simp only: new cpt_request_msg_text [OF assms(2)] rbind_Inr upd ser size prod.case)
qed

lemmas client_calls = cpt_login_def cpt_send_def cpt_join_channel_def cpt_create_channel_def
  cpt_leave_channel_def cpt_create_vchannel_def

text \<open>C22: The client's calls and the server's parser agree: a login, a message, a new channel with a list
  of users and a new voice channel arrive with their command, their channel (a message with the
  client's current channel) and their text; joining and leaving arrive for the channel they are called
  with. The size reported is the size of the packet.\<close>

theorem calls_arrive:
  assumes "0 \<notin> set t" "length t + 6 < 512" "length t + 6 \<le> cap" "19 \<le> cap"
  shows "arrives (cpt_login (Some b) cap ci (Some (t @ [0]))) LOGIN 0 t \<and>
    arrives (cpt_send (Some b) cap ci (Some (t @ [0]))) SEND (ci_channel ci) t \<and>
    arrives (cpt_create_channel (Some b) cap ci (Some (t @ [0]))) CREATE_CHANNEL 0 t \<and>
    arrives (cpt_create_vchannel (Some b) cap ci (Some (t @ [0]))) CREATE_VCHAN 0 t \<and>
    arrives (cpt_join_channel (Some b) cap ci ch) JOIN_CHANNEL ch (str ''join channel'') \<and>
    (if ch = 0 then cpt_leave_channel (Some b) cap ci ch = Inr (-1, [], ci)
     else arrives (cpt_leave_channel (Some b) cap ci ch) LEAVE_CHANNEL ch (str ''LEAVE_CHANNEL''))"
proof -
  note w = packet_wire [where ci = ci and b = b]
  note t = w [OF _ assms(1-3)]
  have "arrives (cpt_login (Some b) cap ci (Some (t @ [0]))) LOGIN 0 t"
    using t [of LOGIN 0 "\<lambda>r. r"] by (intro arrivesI) (simp_all add: cpt_login_def assms(1,2) del: rbind_eq_Inr)
  moreover have "arrives (cpt_send (Some b) cap ci (Some (t @ [0]))) SEND (ci_channel ci) t"
    using t [of SEND _ "\<lambda>r. r"] by (intro arrivesI) (simp_all add: cpt_send_def assms(1,2) del: rbind_eq_Inr)
  moreover have "arrives (cpt_create_channel (Some b) cap ci (Some (t @ [0]))) CREATE_CHANNEL 0 t"
    using t [of CREATE_CHANNEL 0 "\<lambda>r. r"]
    by (intro arrivesI) (simp_all add: cpt_create_channel_def assms(1,2) del: rbind_eq_Inr)
  moreover have "arrives (cpt_create_vchannel (Some b) cap ci (Some (t @ [0]))) CREATE_VCHAN 0 t"
    using t [of CREATE_VCHAN 0 "\<lambda>r. r"]
    by (intro arrivesI) (simp_all add: cpt_create_vchannel_def assms(1,2) del: rbind_eq_Inr)
  moreover have "arrives (cpt_join_channel (Some b) cap ci ch) JOIN_CHANNEL ch (str ''join channel'')"
  proof (rule arrivesI)
    show "cpt_join_channel (Some b) cap ci ch = Inr (int (length (str ''join channel'') + 6),
        request_bytes 32 JOIN_CHANNEL ch (str ''join channel''), ci\<lparr>packet := Some (cpt_request_reset
          (b\<lparr>msg := Some (str ''join channel'' @ [0]), channel_id := ch, version := 32,
             command := JOIN_CHANNEL, msg_len := of_nat (length (str ''join channel''))\<rparr>))\<rparr>)"
      unfolding cpt_join_channel_def by (rule w) (use assms(4) in simp_all)
  qed simp_all
  moreover have "arrives (cpt_leave_channel (Some b) cap ci ch) LEAVE_CHANNEL ch (str ''LEAVE_CHANNEL'')" if "ch \<noteq> 0"
  proof (rule arrivesI)
    show "cpt_leave_channel (Some b) cap ci ch = Inr (int (length (str ''LEAVE_CHANNEL'') + 6),
        request_bytes 32 LEAVE_CHANNEL ch (str ''LEAVE_CHANNEL''), ci\<lparr>packet := Some
          (b\<lparr>msg := Some (str ''LEAVE_CHANNEL'' @ [0]), channel_id := ch, version := 32,
             command := LEAVE_CHANNEL, msg_len := of_nat (length (str ''LEAVE_CHANNEL''))\<rparr>)\<rparr>)"
      unfolding cpt_leave_channel_def if_not_P [OF that]
      by (rule w [where f = "\<lambda>r. r"]) (use assms(4) in simp_all)
  qed simp_all
  ultimately show ?thesis by (simp add: cpt_leave_channel_def)
qed

definition fresh_block :: cpt_request where
  "fresh_block = \<lparr>version = 7, command = 7, channel_id = 7, msg_len = 7, msg = None\<rparr>"

definition client_at :: "int \<Rightarrow> byte list \<Rightarrow> client_info" where
  "client_at fd name = \<lparr>ci_fd = Some fd, ci_ip = str ''127.0.0.1'' @ [0], ci_port = PORT_8080 @ [0],
     ci_name = Some (Some (name @ [0])), ci_channel = 0, packet = Some fresh_block, ci_channels = Some 2\<rparr>"

theorem calls_arrive_witness:
  "arrives (cpt_login (Some fresh_block) 1024 (client_at 3 (str ''bob'')) (Some (str ''bob'' @ [0]))) LOGIN 0 (str ''bob'') \<and>
   arrives (cpt_leave_channel (Some fresh_block) 512 (client_at 3 (str ''bob'')) 5) LEAVE_CHANNEL 5 (str ''LEAVE_CHANNEL'')"
proof -
  have t: "0 \<notin> set (str ''bob'')" "length (str ''bob'') + 6 < 512" "length (str ''bob'') + 6 \<le> 1024"
    "length (str ''bob'') + 6 \<le> 512" by simp_all
  from calls_arrive [OF t(1,2,3), of fresh_block "client_at 3 (str ''bob'')" 0]
    calls_arrive [OF t(1,2,4), of fresh_block "client_at 3 (str ''bob'')" 5]
  show ?thesis by simp
qed

section \<open>Packets without a message\<close>

lemma serialize_no_message:
  assumes "msg r = None" "4 \<le> cap"
  shows "cpt_serialize_packet cap r = Inl NullDeref"
proof -
  from assms(2) obtain k where "cap = Suc (Suc (Suc (Suc k)))" using le_Suc_ex [OF assms(2)] by (auto simp: numeral_eq_Suc)
  with assms(1) show ?thesis by (simp add: cpt_serialize_packet_def)
qed

text \<open>C29: A packet without a message cannot be serialized, and the calls make such packets: creating a
  channel or a voice channel without a list of users, and logging out after a join (which resets
  the packet, while a logout sends the packet of the call before it), end the client in a null
  dereference.\<close>

theorem no_message_crash:
  assumes "4 \<le> cap"
  shows "cpt_create_channel (Some b) cap ci None = Inl NullDeref \<and>
    cpt_create_vchannel (Some b) cap ci None = Inl NullDeref \<and>
    (case cpt_join_channel (Some b) cap ci ch of Inl e \<Rightarrow> True
     | Inr (n, out, ci') \<Rightarrow> cpt_logout cap ci' = Inl NullDeref)"
proof -
  have c: "new_packet (Some b) 0 CREATE_CHANNEL = Inr (b\<lparr>msg := None, channel_id := 0, version := 32, command := CREATE_CHANNEL\<rparr>)"
    "new_packet (Some b) 0 CREATE_VCHAN = Inr (b\<lparr>msg := None, channel_id := 0, version := 32, command := CREATE_VCHAN\<rparr>)"
    using command_bounds [of CREATE_CHANNEL] command_bounds [of CREATE_VCHAN] by (simp_all add: new_packet_ok)
  have "cpt_create_channel (Some b) cap ci None = Inl NullDeref"
    "cpt_create_vchannel (Some b) cap ci None = Inl NullDeref"
    using assms by (simp_all add: cpt_create_channel_def cpt_create_vchannel_def c serialize_no_message)
  moreover have "cpt_logout cap (ci\<lparr>packet := Some (cpt_request_reset r)\<rparr>) = Inl NullDeref" for r
    using assms by (simp add: cpt_logout_def serialize_no_message cpt_request_cmd_def cpt_request_reset_def)
  then have "cpt_logout cap ci' = Inl NullDeref" if "cpt_join_channel (Some b) cap ci ch = Inr (n, out, ci')" for n out ci'
    using that by (auto simp: cpt_join_channel_def)
  ultimately show ?thesis by (auto split: sum.splits)
qed

theorem no_message_crash_witness:
  "\<exists>n out ci'. cpt_join_channel (Some fresh_block) 512 (client_at 3 (str ''bob'')) 1 = Inr (n, out, ci') \<and>
     cpt_logout 512 ci' = Inl NullDeref \<and>
     cpt_create_channel (Some fresh_block) 512 (client_at 3 (str ''bob'')) None = Inl NullDeref"
proof -
  obtain n out ci' where j:
    "cpt_join_channel (Some fresh_block) 512 (client_at 3 (str ''bob'')) 1 = Inr (n, out, ci')"
    using packet_wire [of JOIN_CHANNEL "str ''join channel''" 512 fresh_block 1 cpt_request_reset "client_at 3 (str ''bob'')"]
    unfolding cpt_join_channel_def by (simp del: rbind_eq_Inr)
  have "4 \<le> (512 :: nat)" by simp
  from no_message_crash [OF this, of fresh_block "client_at 3 (str ''bob'')" 1] j
  have "cpt_logout 512 ci' = Inl NullDeref"
    "cpt_create_channel (Some fresh_block) 512 (client_at 3 (str ''bob'')) None = Inl NullDeref"
    by (simp_all only: sum.case prod.case)
  with j show ?thesis by blast
qed

end
