(* ===== verification/Command.thy ===== *)
theory Command
  imports Client_Api
begin

text \<open>
  The command line of the client: command.c. A line the user has typed is a C string, here the
  list of its bytes before the terminator; a pointer into it is a suffix.

  The fields \<open>input\<close> and \<open>p_input\<close> of a new command are not set: the outer \<open>None\<close> is a field that has
  not been written. \<open>memcpy\<close> with a length computed from a failed \<open>strchr\<close> copies an enormous
  number of bytes, which is an overflow.
\<close>

section \<open>Commands\<close>

record cli_command =
  c_cmd :: "byte list option"
  c_args :: "byte list option"
  c_input :: "byte list option option"
  p_input :: "byte list option option"

definition cli_cmds :: "byte list list" where
  "cli_cmds = map str [''@get-users'', ''@create-channel'', ''@join-channel'', ''@leave-channel'',
     ''@create-vchannel'', ''@logout'', ''@menu'']"

definition GET_USERS_CMD :: nat where "GET_USERS_CMD = 0"
definition CREATE_CHANNEL_CMD :: nat where "CREATE_CHANNEL_CMD = 1"
definition JOIN_CHANNEL_CMD :: nat where "JOIN_CHANNEL_CMD = 2"
definition LEAVE_CHANNEL_CMD :: nat where "LEAVE_CHANNEL_CMD = 3"
definition CREATE_VCHANNEL_CMD :: nat where "CREATE_VCHANNEL_CMD = 4"
definition LOGOUT_CMD :: nat where "LOGOUT_CMD = 5"
definition MENU_CMD :: nat where "MENU_CMD = 6"
definition NUM_CMD :: nat where "NUM_CMD = 7"

text \<open>\<open>strchr\<close> for a character other than the terminator: the index of its first occurrence.\<close>

fun strchr :: "byte list \<Rightarrow> byte \<Rightarrow> nat option" where
  "strchr [] c = None"
| "strchr (b # bs) c = (if b = c then Some 0 else map_option Suc (strchr bs c))"

text \<open>\<open>memcpy\<close> of \<open>n\<close> bytes into a zeroed buffer of 256, and \<open>strdup\<close> of the buffer.\<close>

definition copy_word :: "nat \<Rightarrow> byte list \<Rightarrow> byte list res" where
  "copy_word n s = rbind (guard_res OutOfBounds (n < SM_BUFF_SIZE)) (\<lambda>_. Inr (take n s))"

definition cmd_init :: "bool \<Rightarrow> cli_command option" where
  "cmd_init ok = (if ok then Some \<lparr>c_cmd = None, c_args = None, c_input = None, p_input = None\<rparr> else None)"

definition cmd_destroy :: "cli_command option \<Rightarrow> unit res" where
  "cmd_destroy cmd = (case cmd of None \<Rightarrow> Inr ()
     | Some c \<Rightarrow> if c_input c = None then Inl BadFree else Inr ())"

definition cmd_get_input :: "os \<Rightarrow> (byte list \<times> os) res" where
  "cmd_get_input w = rbind (sys (SRead 0 SM_BUFF_SIZE) w) (\<lambda>(r, w').
     let got = take (min SM_BUFF_SIZE (nat (sret r))) (sbytes r) in
     rbind (cstring (got @ replicate (SM_BUFF_SIZE - length got) 0)) (\<lambda>s. Inr (s, w')))"

definition the_input :: "byte list option option \<Rightarrow> byte list res" where
  "the_input p = (case p of None \<Rightarrow> Inl Uninit | Some None \<Rightarrow> Inl NullDeref | Some (Some s) \<Rightarrow> Inr s)"

definition parse_cmd :: "cli_command \<Rightarrow> cli_command res" where
  "parse_cmd cmd = rbind (the_input (c_input cmd)) (\<lambda>inp.
     (case strchr inp 32 of
        None \<Rightarrow>
          (case strchr inp 10 of
             None \<Rightarrow> Inl OutOfBounds
           | Some n \<Rightarrow> rbind (copy_word n inp) (\<lambda>w. Inr (cmd\<lparr>c_cmd := Some w, p_input := Some None\<rparr>)))
      | Some n \<Rightarrow> rbind (copy_word n inp) (\<lambda>w.
          Inr (cmd\<lparr>c_cmd := Some w, p_input := Some (Some (drop n inp))\<rparr>))))"

text \<open>The arguments are what stands between the first character after the command and the end of
  the line, or between the first quotation mark and the next one that is not the very next character.\<close>

definition parse_cmd_args :: "cli_command \<Rightarrow> cli_command res" where
  "parse_cmd_args cmd =
     (case p_input cmd of None \<Rightarrow> Inl Uninit | Some None \<Rightarrow> Inr cmd
      | Some (Some p) \<Rightarrow>
          rbind (case strchr p 34 of
              None \<Rightarrow>
                (case strchr p 10 of None \<Rightarrow> Inl OutOfBounds
                 | Some e \<Rightarrow> rbind (guard_res OutOfBounds (1 \<le> e)) (\<lambda>_. copy_word (e - 1) (drop 1 p)))
            | Some q \<Rightarrow>
                rbind (guard_res OutOfBounds (q + 2 \<le> length p)) (\<lambda>_.
                (case strchr (drop (q + 2) p) 34 of None \<Rightarrow> Inl OutOfBounds
                 | Some e \<Rightarrow> copy_word (e + 1) (drop (q + 1) p)))) (\<lambda>args.
            Inr (cmd\<lparr>c_args := Some args, p_input := Some None\<rparr>)))"

definition parse_cmd_input :: "cli_command \<Rightarrow> cli_command res" where
  "parse_cmd_input cmd = rbind (parse_cmd cmd) parse_cmd_args"

definition is_cmd :: "cli_command \<Rightarrow> byte list \<Rightarrow> bool res" where
  "is_cmd cmd w = (case c_cmd cmd of None \<Rightarrow> Inl NullDeref | Some c \<Rightarrow> Inr (c = w))"

definition is_valid_cmd :: "cli_command \<Rightarrow> bool" where
  "is_valid_cmd cmd = (case c_cmd cmd of None \<Rightarrow> False
     | Some c \<Rightarrow> c \<noteq> [] \<and> hd c = 64 \<and> c \<in> set (take NUM_CMD cli_cmds))"

section \<open>What a line becomes\<close>

lemma read_line:
  assumes "0 \<notin> set l" "length l < 256"
  shows "cmd_get_input \<lparr>script = answer (int (length l)) l # rest, calls = cs\<rparr> =
    Inr (l, \<lparr>script = rest, calls = cs @ [(SRead 0 SM_BUFF_SIZE, int (length l))]\<rparr>)"
proof -
  obtain k where "256 - length l = Suc k" using assms(2) by (metis Suc_diff_Suc)
  then show ?thesis
    using assms by (simp add: cmd_get_input_def Let_def SM_BUFF_SIZE_def del: rbind_eq_Inr)
qed

lemma strchr_none: "strchr s c = None \<longleftrightarrow> c \<notin> set s"
  by (induction s) auto

lemma strchr_append: "c \<notin> set s \<Longrightarrow> strchr (s @ c # t) c = Some (length s)"
  by (induction s) auto

definition typed :: "byte list \<Rightarrow> cli_command" where
  "typed line = \<lparr>c_cmd = None, c_args = None, c_input = Some (Some line), p_input = None\<rparr>"

lemma parse_line_word:
  assumes "32 \<notin> set (w @ rest)" "10 \<notin> set w" "length w < 256"
  shows "parse_cmd_input (typed (w @ 10 # rest)) = Inr ((typed (w @ 10 # rest))\<lparr>c_cmd := Some w, p_input := Some None\<rparr>)"
proof -
  have "strchr (w @ 10 # rest) 32 = None" using assms(1) by (simp add: strchr_none)
  then show ?thesis
    using strchr_append [OF assms(2), of rest] assms(3)
    by (simp add: parse_cmd_input_def parse_cmd_def typed_def the_input_def copy_word_def
        parse_cmd_args_def SM_BUFF_SIZE_def)
qed

lemma parse_line_space:
  assumes "32 \<notin> set w" "length w < 256"
  shows "parse_cmd (typed (w @ 32 # p)) = Inr ((typed (w @ 32 # p))\<lparr>c_cmd := Some w, p_input := Some (Some (32 # p))\<rparr>)"
  using strchr_append [OF assms(1), of p] assms(2)
  by (simp add: parse_cmd_def typed_def the_input_def copy_word_def SM_BUFF_SIZE_def)

lemma parse_line_args:
  assumes "32 \<notin> set w" "length w < 256" "34 \<notin> set (a @ rest)" "10 \<notin> set a" "length a < 256"
  shows "parse_cmd_input (typed (w @ 32 # a @ 10 # rest)) =
    Inr ((typed (w @ 32 # a @ 10 # rest))\<lparr>c_cmd := Some w, c_args := Some a, p_input := Some None\<rparr>)"
proof -
  have "strchr (32 # a @ 10 # rest) 34 = None" using assms(3) by (simp add: strchr_none)
  moreover have "strchr (32 # a @ 10 # rest) 10 = Some (Suc (length a))"
    using strchr_append [OF assms(4), of rest] by simp
  ultimately show ?thesis
    using parse_line_space [OF assms(1,2), of "a @ 10 # rest"] assms(5)
    by (simp add: parse_cmd_input_def parse_cmd_args_def copy_word_def SM_BUFF_SIZE_def)
qed

lemma parse_line_quoted:
  assumes "32 \<notin> set w" "length w < 256" "34 \<notin> set (b # a)" "34 \<notin> set pre" "length a < 255"
  shows "parse_cmd_input (typed (w @ 32 # pre @ 34 # b # a @ 34 # rest)) =
    Inr ((typed (w @ 32 # pre @ 34 # b # a @ 34 # rest))\<lparr>c_cmd := Some w, c_args := Some (b # a), p_input := Some None\<rparr>)"
proof -
  let ?p = "32 # pre @ 34 # b # a @ 34 # rest"
  have q: "strchr ?p 34 = Some (Suc (length pre))" using strchr_append [OF assms(4)] by simp
  have e: "strchr (drop (Suc (length pre) + 2) ?p) 34 = Some (length a)"
    using strchr_append [of 34 a rest] assms(3) by simp
  show ?thesis
    using parse_line_space [OF assms(1,2), of "pre @ 34 # b # a @ 34 # rest"] q e assms(5)
    by (simp add: parse_cmd_input_def parse_cmd_args_def copy_word_def SM_BUFF_SIZE_def)
qed

text \<open>A line is split as the menu promises: a word alone becomes the command without arguments; what
  follows the first space, up to the end of the line, becomes the arguments; and if a quotation
  mark follows, the arguments are the text between the quotation marks.\<close>

lemma line_is_parsed:
  assumes "32 \<notin> set w" "10 \<notin> set w" "length w < 256" "34 \<notin> set (b # a)" "10 \<notin> set (b # a)" "length a < 255"
  shows "map_sum id (\<lambda>c. (c_cmd c, c_args c)) (parse_cmd_input (typed (w @ [10]))) = Inr (Some w, None) \<and>
    map_sum id (\<lambda>c. (c_cmd c, c_args c)) (parse_cmd_input (typed (w @ 32 # (b # a) @ [10]))) = Inr (Some w, Some (b # a)) \<and>
    map_sum id (\<lambda>c. (c_cmd c, c_args c)) (parse_cmd_input (typed (w @ 32 # 34 # b # a @ 34 # [10]))) =
      Inr (Some w, Some (b # a))"
  using parse_line_word [of w "[]"] parse_line_args [of w "b # a" "[]"] parse_line_quoted [of w b a "[]" "[10]"] assms
  by (simp add: typed_def)

lemma parse_args_unclosed:
  "p_input c = Some (Some p) \<Longrightarrow> strchr p 34 = Some q \<Longrightarrow> strchr (drop (q + 2) p) 34 = None \<Longrightarrow>
   parse_cmd_args c = Inl OutOfBounds"
  by (cases "q + 2 \<le> length p") (simp_all add: parse_cmd_args_def)

text \<open>A line with a space and a single quotation mark after it ends the client: the closing mark
  is looked for, and the distance to the null pointer is copied. So does an input without a
  space and without a newline, such as the end of the input. Every line goes through this parser, chat
  messages included.\<close>

lemma unbalanced_quote_crash:
  assumes "32 \<notin> set w" "length w < 256" "34 \<notin> set a" "34 \<notin> set b"
  shows "parse_cmd_input (typed (w @ 32 # a @ 34 # b)) = Inl OutOfBounds \<and>
    parse_cmd_input (typed (filter (\<lambda>c. c \<noteq> 10) w)) = Inl OutOfBounds"
proof
  let ?p = "32 # a @ 34 # b"
  have q: "strchr ?p 34 = Some (Suc (length a))" using strchr_append [OF assms(3)] by simp
  have n: "strchr (drop (Suc (length a) + 2) ?p) 34 = None"
    using assms(4) by (auto simp: strchr_none dest: in_set_dropD)
  show "parse_cmd_input (typed (w @ ?p)) = Inl OutOfBounds"
    unfolding parse_cmd_input_def parse_line_space [OF assms(1,2)] rbind_Inr
    by (rule parse_args_unclosed [OF _ q n]) simp
  have "strchr (filter (\<lambda>c. c \<noteq> 10) w) 32 = None" "strchr (filter (\<lambda>c. c \<noteq> 10) w) 10 = None"
    using assms(1) by (simp_all add: strchr_none)
  then show "parse_cmd_input (typed (filter (\<lambda>c. c \<noteq> 10) w)) = Inl OutOfBounds"
    by (simp add: parse_cmd_input_def parse_cmd_def typed_def the_input_def)
qed

text \<open>C27: The parser of the command line. A line is split as the menu promises: a word alone becomes the command without
  arguments; what follows the first space, up to the end of the line, becomes the arguments; and if a quotation
  mark follows, the arguments are the text between the quotation marks. But a line with a space and a single
  quotation mark after it ends the client, and so does an input without a space and without a newline, such as
  the end of the input: the mark or the newline is looked for, and the distance to the null pointer is copied.
  Every line goes through this parser, chat messages included.\<close>

theorem command_lines:
  assumes "32 \<notin> set w" "10 \<notin> set w" "length w < 256" "34 \<notin> set (b # a)" "10 \<notin> set (b # a)" "length a < 255" "34 \<notin> set rest"
  shows "map_sum id (\<lambda>c. (c_cmd c, c_args c)) (parse_cmd_input (typed (w @ [10]))) = Inr (Some w, None) \<and>
    map_sum id (\<lambda>c. (c_cmd c, c_args c)) (parse_cmd_input (typed (w @ 32 # (b # a) @ [10]))) = Inr (Some w, Some (b # a)) \<and>
    map_sum id (\<lambda>c. (c_cmd c, c_args c)) (parse_cmd_input (typed (w @ 32 # 34 # b # a @ 34 # [10]))) =
      Inr (Some w, Some (b # a)) \<and>
    parse_cmd_input (typed (w @ 32 # (b # a) @ 34 # rest)) = Inl OutOfBounds \<and>
    parse_cmd_input (typed w) = Inl OutOfBounds"
proof -
  have "filter (\<lambda>c. c \<noteq> 10) w = w" using assms(2) by (auto simp: filter_id_conv)
  with unbalanced_quote_crash [OF assms(1,3,4,7)] line_is_parsed [OF assms(1-6)] show ?thesis by simp
qed

theorem command_lines_witness:
  "map_sum id (\<lambda>c. (c_cmd c, c_args c))
     (parse_cmd_input (typed (str ''@create-channel'' @ 32 # 34 # str ''4 5'' @ 34 # [10]))) =
   Inr (Some (str ''@create-channel''), Some (str ''4 5'')) \<and>
   parse_cmd_input (typed (str ''@create-channel'' @ 32 # str ''4 5'' @ 34 # [10])) = Inl OutOfBounds"
  using command_lines [of "str ''@create-channel''" "of_char CHR ''4''" "str '' 5''" "[10]"] by simp

end
