(* ===== verification/Messenger.thy ===== *)
theory Messenger
  imports Net
begin

text \<open>
  The shared block of the messenger: shared_memory.c and the program of cpt_messenger.c, which
  prints what the client leaves in the block. The block itself is the list of its bytes, and is given
  to the functions that read or write it.
\<close>

section \<open>shared_memory.c\<close>

definition IPC_ERROR :: int where "IPC_ERROR = -1"
definition BLOCK_SIZE :: nat where "BLOCK_SIZE = 4096"
definition FILENAME :: "byte list" where "FILENAME = str ''./darcy''"

definition get_shared_block :: "byte list \<Rightarrow> os \<Rightarrow> (int \<times> os) res" where
  "get_shared_block filename w =
     rbind (sys (SFtok filename) w) (\<lambda>(k, w1).
       if sret k = IPC_ERROR then Inr (IPC_ERROR, w1)
       else rbind (sys (SShmget (sret k)) w1) (\<lambda>(r, w2). Inr (sret r, w2)))"

text \<open>Whether there is a block.\<close>

definition shmem_attach :: "byte list \<Rightarrow> os \<Rightarrow> (bool \<times> os) res" where
  "shmem_attach filename w =
     rbind (get_shared_block filename w) (\<lambda>(shared_block_id, w1).
       if shared_block_id = IPC_ERROR then Inr (False, w1)
       else rbind (sys (SShmat shared_block_id) w1) (\<lambda>(r, w2). Inr (sret r \<noteq> IPC_ERROR, w2)))"

definition shmem_detach :: "os \<Rightarrow> (bool \<times> os) res" where
  "shmem_detach w = rbind (sys SShmdt w) (\<lambda>(r, w'). Inr (sret r \<noteq> IPC_ERROR, w'))"

definition shmem_destroy :: "byte list \<Rightarrow> os \<Rightarrow> (int \<times> os) res" where
  "shmem_destroy name w =
     rbind (get_shared_block name w) (\<lambda>(block_id, w1).
       if block_id = IPC_ERROR then Inr (-1, w1)
       else rbind (sys (SShmrm block_id) w1) (\<lambda>(r, w2). Inr (if sret r \<noteq> IPC_ERROR then 1 else 0, w2)))"

text \<open>A text stored at the start of the block (\<open>strncpy\<close> with a length of at most the block), and a
  text appended to the string in it (\<open>strncat\<close>).\<close>

definition store_text :: "byte list \<Rightarrow> byte list \<Rightarrow> byte list res" where
  "store_text t block = rbind (guard_res OutOfBounds (length t \<le> length block)) (\<lambda>_.
     Inr (t @ drop (length t) block))"

definition append_text :: "byte list \<Rightarrow> byte list \<Rightarrow> byte list res" where
  "append_text t block = rbind (cstrlen block) (\<lambda>n.
     rbind (guard_res OutOfBounds (n + length t + 1 \<le> length block)) (\<lambda>_.
       Inr (take n block @ t @ 0 # drop (n + length t + 1) block)))"

section \<open>cpt_messenger.c\<close>

definition banner :: "byte list" where
  "banner = replicate 64 42 @ [10]"

definition banner_title :: "byte list" where
  "banner_title = str ''***************** C H A T    M E S S E N G E R *****************\<newline>''"

definition greet :: "byte list \<Rightarrow> byte list res" where
  "greet block = rbind (append_text banner block) (\<lambda>b1.
     rbind (append_text banner_title b1) (append_text banner))"

text \<open>One pass of the loop. Between two passes the clients may have written the block: \<open>block\<close> is what
  it holds when the pass looks at it. The pass returns whether to go on, what is printed, and
  the block it leaves behind.\<close>

definition messenger_pass :: "byte list \<Rightarrow> os \<Rightarrow> (bool \<times> byte list \<times> byte list \<times> os) res" where
  "messenger_pass block w =
     rbind (shmem_attach FILENAME w) (\<lambda>(ok, w1).
     rbind (if ok then rbind (cstring block) (\<lambda>t.
              Inr (t, replicate (length t) 0 @ drop (length t) block))
            else Inr ([], block)) (\<lambda>(out, block').
     rbind (shmem_detach w1) (\<lambda>(_, w2). Inr (ok, out, block', w2))))"

text \<open>The loop of the messenger, on the blocks the passes find. It ends when the block cannot be
  attached, and then clears it through the null pointer.\<close>

fun messenger_loop :: "byte list list \<Rightarrow> byte list \<Rightarrow> os \<Rightarrow> (byte list \<times> os) res" where
  "messenger_loop [] out w = Inl Blocked"
| "messenger_loop (b # bs) out w =
     rbind (messenger_pass b w) (\<lambda>(ok, t, _, w').
       if ok then messenger_loop bs (out @ t) w' else Inl NullDeref)"

definition messenger_main :: "byte list \<Rightarrow> byte list list \<Rightarrow> os \<Rightarrow> (byte list \<times> os) res" where
  "messenger_main block bs w =
     rbind (shmem_attach FILENAME w) (\<lambda>(ok, w1).
     rbind (guard_res NullDeref ok) (\<lambda>_.
     rbind (greet block) (\<lambda>_.
     rbind (shmem_detach w1) (\<lambda>(_, w2). messenger_loop bs [] w2))))"

section \<open>Properties\<close>

lemma shmem_attach_ok:
  "sret a \<noteq> -1 \<Longrightarrow> sret b \<noteq> -1 \<Longrightarrow> sret c \<noteq> -1 \<Longrightarrow>
   shmem_attach f \<lparr>script = a # b # c # rest, calls = cs\<rparr> = Inr (True,
     \<lparr>script = rest, calls = cs @ [(SFtok f, sret a), (SShmget (sret a), sret b), (SShmat (sret b), sret c)]\<rparr>)"
  by (simp add: shmem_attach_def get_shared_block_def IPC_ERROR_def del: rbind_eq_Inr)

text \<open>C30: What the messenger prints is what the client stored: a message stored in a cleared block is
  printed once, in full, and the block is left cleared, so that the next pass prints nothing
  until another message is stored.\<close>

theorem messenger_prints_once:
  assumes "length t < length block" "0 \<notin> set t" "set block \<subseteq> {0}"
    and "\<exists>a b c d. script w = [a, b, c, d] \<and> sret a \<noteq> -1 \<and> sret b \<noteq> -1 \<and> sret c \<noteq> -1"
  shows "\<exists>block1 w'. store_text t block = Inr block1 \<and> messenger_pass block1 w = Inr (True, t, block, w')"
proof -
  have z: "block = replicate (length block) 0" using assms(3) by (simp add: replicate_eqI subset_iff)
  from assms(1) obtain k where k: "length block = length t + Suc k" by (metis less_imp_Suc_add add_Suc_right)
  have "drop (length t) block = replicate (length block - length t) 0" by (subst z) simp
  then have d: "drop (length t) block = 0 # replicate k 0" using k by simp
  have "store_text t block = Inr (t @ 0 # replicate k 0)" using assms(1) by (simp add: store_text_def d)
  moreover from assms(4) obtain a b c e cs where w: "w = \<lparr>script = [a, b, c, e], calls = cs\<rparr>"
    "sret a \<noteq> -1" "sret b \<noteq> -1" "sret c \<noteq> -1" by (cases w) auto
  have "replicate (length t) 0 @ 0 # replicate k 0 = replicate (length block) (0 :: byte)"
    by (simp only: k replicate_add replicate_Suc)
  with z have block: "replicate (length t) 0 @ 0 # replicate k 0 = block" by simp
  have "\<exists>w'. messenger_pass (t @ 0 # replicate k 0) w = Inr (True, t, block, w')"
    using w assms(2) block by (simp add: messenger_pass_def shmem_attach_ok shmem_detach_def del: rbind_eq_Inr)
  ultimately show ?thesis by simp
qed

theorem messenger_prints_once_witness:
  "\<exists>block1 w'. store_text (str ''hi'') (replicate 4096 0) = Inr block1 \<and>
     messenger_pass block1 \<lparr>script = map (\<lambda>r. \<lparr>sret = r, serr = 0, sbytes = []\<rparr>) [1, 2, 3, 0], calls = []\<rparr> =
       Inr (True, str ''hi'', replicate 4096 0, w')"
proof (rule messenger_prints_once)
  show "length (str ''hi'') < length (replicate 4096 (0 :: byte))" by simp
  show "0 \<notin> set (str ''hi'')" by simp
  show "set (replicate 4096 (0 :: byte)) \<subseteq> {0}" by (simp only: set_replicate_conv_if) simp
qed simp

end
