(* ===== verification/Handlers.thy ===== *)
theory Handlers
  imports Command Messenger
begin

text \<open>
  The client's handlers: user_state.c and handlers.c. One record holds the \<open>UserState\<close> structure, the
  operating system, the block shared with the messenger, the flag \<open>is_receiving\<close> and the blocks the
  allocator hands out: the n-th allocation of a structure finds \<open>blks n\<close>, \<open>None\<close> when there is no memory.
  What is printed is left out, but not the reading of the strings that are printed.
\<close>

section \<open>State\<close>

record user_state =
  us_pid :: "int option"
  us_cmd :: "cli_command option"
  us_channel :: u16
  us_client :: "client_info option"
  logged_in :: bool

record client =
  us :: user_state
  cl_os :: os
  block :: "byte list"
  receiving :: bool
  blks :: "nat \<Rightarrow> cpt_request option"
  ticks :: nat

text \<open>\<open>LOGGED_IN\<close> is not set: it is whatever the block held. Neither is \<open>pid\<close>, before the client forks.\<close>

definition user_state_init :: "bool \<Rightarrow> bool \<Rightarrow> user_state res" where
  "user_state_init ok was = (if ok
     then Inr \<lparr>us_pid = None, us_cmd = None, us_channel = 0, us_client = None, logged_in = was\<rparr> else Inl NullDeref)"

definition user_state_destroy :: "user_state option \<Rightarrow> unit res" where
  "user_state_destroy u = (case u of None \<Rightarrow> Inr ()
     | Some s \<Rightarrow> rbind (cmd_destroy (us_cmd s)) (\<lambda>_. cpt_destroy_client_info (us_client s)))"

definition new_block :: "client \<Rightarrow> cpt_request option \<times> client" where
  "new_block c = (blks c (ticks c), c\<lparr>ticks := Suc (ticks c)\<rparr>)"

definition client_of :: "client \<Rightarrow> client_info res" where
  "client_of c = (case us_client (us c) of None \<Rightarrow> Inl NullDeref | Some ci \<Rightarrow> Inr ci)"

definition set_client :: "client_info \<Rightarrow> client \<Rightarrow> client" where
  "set_client ci c = c\<lparr>us := (us c)\<lparr>us_client := Some ci\<rparr>\<rparr>"

definition cmd_of :: "client \<Rightarrow> cli_command res" where
  "cmd_of c = (case us_cmd (us c) of None \<Rightarrow> Inl NullDeref | Some k \<Rightarrow> Inr k)"

section \<open>Sending requests\<close>

text \<open>The second half of every handler: the call's state is kept, and its packet is sent out of a
  buffer of \<open>cap\<close> bytes.\<close>

definition send_packet :: "nat \<Rightarrow> sent \<Rightarrow> client \<Rightarrow> (int \<times> client) res" where
  "send_packet cap = (\<lambda>(n, out, ci) c.
     rbind (case ci_fd ci of None \<Rightarrow> Inl Uninit | Some fd \<Rightarrow> tcp_client_send fd (fill cap out) n (cl_os c)) (\<lambda>(r, w).
       Inr (r, (set_client ci c)\<lparr>cl_os := w\<rparr>)))"

definition login_handler :: "client \<Rightarrow> byte list option \<Rightarrow> (int \<times> client) res" where
  "login_handler c name =
     (case new_block c of (blk, c1) \<Rightarrow>
     rbind (client_of c1) (\<lambda>ci.
     rbind (cpt_login blk LG_BUFF_SIZE ci name) (\<lambda>sent.
     rbind (send_packet LG_BUFF_SIZE sent c1) (\<lambda>(r, c2).
     rbind (client_of c2) (\<lambda>ci2.
     rbind (case name of None \<Rightarrow> Inl NullDeref | Some a \<Rightarrow> cstring a) (\<lambda>nm.
     let c3 = set_client (ci2\<lparr>ci_channel := 0, ci_name := Some (Some (nm @ [0]))\<rparr>) c2 in
       if r = SYS_CALL_FAIL then Inr (r, c3)
       else
         rbind (case ci_fd ci2 of None \<Rightarrow> Inl Uninit
                | Some fd \<Rightarrow> tcp_client_recv fd (replicate LG_BUFF_SIZE 0) (cl_os c3)) (\<lambda>(_, res_buf, w).
         (case new_block c3 of (b1, c4) \<Rightarrow> (case new_block c4 of (b2, c5) \<Rightarrow>
         rbind (cpt_parse_response (b1 \<noteq> None, b2 \<noteq> None) res_buf) (\<lambda>_.
           Inr (r, c5\<lparr>cl_os := w\<rparr>)))))))))))"

definition logout_handler :: "client \<Rightarrow> client res" where
  "logout_handler c =
     rbind (client_of c) (\<lambda>ci.
     rbind (cpt_logout LG_BUFF_SIZE ci) (\<lambda>sent.
     rbind (send_packet LG_BUFF_SIZE sent c) (\<lambda>(_, c2).
       Inr (c2\<lparr>us := (us c2)\<lparr>logged_in := False\<rparr>\<rparr>))))"

definition create_channel_handler :: "client \<Rightarrow> client res" where
  "create_channel_handler c =
     (case new_block c of (blk, c1) \<Rightarrow>
     rbind (client_of c1) (\<lambda>ci. rbind (cmd_of c1) (\<lambda>k.
     rbind (cpt_create_channel blk MD_BUFF_SIZE ci (map_option (\<lambda>a. a @ [0]) (c_args k))) (\<lambda>sent.
     rbind (send_packet MD_BUFF_SIZE sent c1) (\<lambda>(_, c2). Inr c2)))))"

definition create_vchannel_handler :: "client \<Rightarrow> client res" where
  "create_vchannel_handler c =
     (case new_block c of (blk, c1) \<Rightarrow>
     rbind (client_of c1) (\<lambda>ci. rbind (cmd_of c1) (\<lambda>k.
     rbind (cpt_create_vchannel blk MD_BUFF_SIZE ci (map_option (\<lambda>a. a @ [0]) (c_args k))) (\<lambda>sent.
     rbind (send_packet MD_BUFF_SIZE sent c1) (\<lambda>(_, c2). Inr c2)))))"

text \<open>A channel id typed by the user: \<open>strtol\<close>, cut to sixteen bits.\<close>

definition typed_id :: "byte list \<Rightarrow> u16" where
  "typed_id a = word_of_int (fst (strtol a))"

definition get_users_handler :: "client \<Rightarrow> client res" where
  "get_users_handler c =
     rbind (client_of c) (\<lambda>ci. rbind (cmd_of c) (\<lambda>k.
     let cid = (case c_args k of Some a \<Rightarrow> typed_id a | None \<Rightarrow> us_channel (us c)) in
     rbind (cpt_get_users MD_BUFF_SIZE ci cid) (\<lambda>sent.
     rbind (send_packet MD_BUFF_SIZE sent c) (\<lambda>(_, c2). Inr c2))))"

definition leave_channel_handler :: "client \<Rightarrow> client res" where
  "leave_channel_handler c =
     (case (if us_channel (us c) = 0 then (None, c) else new_block c) of (blk, c1) \<Rightarrow>
     rbind (client_of c1) (\<lambda>ci.
     rbind (cpt_leave_channel blk MD_BUFF_SIZE ci (us_channel (us c))) (\<lambda>sent.
     rbind (send_packet MD_BUFF_SIZE sent c1) (\<lambda>(_, c2). Inr c2))))"

definition join_channel_handler :: "client \<Rightarrow> client res" where
  "join_channel_handler c =
     rbind (cmd_of c) (\<lambda>k.
     rbind (case c_args k of None \<Rightarrow> Inl NullDeref | Some a \<Rightarrow> Inr (typed_id a)) (\<lambda>cid.
     (case new_block c of (blk, c1) \<Rightarrow>
     rbind (client_of c1) (\<lambda>ci.
     rbind (cpt_join_channel blk MD_BUFF_SIZE ci cid) (\<lambda>sent.
     rbind (send_packet MD_BUFF_SIZE sent c1) (\<lambda>(_, c2). Inr c2))))))"

text \<open>The prefix and the line are written into a buffer of 256 bytes without a check.\<close>

definition message_text :: "byte list \<Rightarrow> u16 \<Rightarrow> byte list \<Rightarrow> byte list" where
  "message_text name cid line =
     str ''[ '' @ name @ str '' | (channel '' @ decimal (unat cid) @ str '') ]: '' @ line"

definition send_handler :: "client \<Rightarrow> client res" where
  "send_handler c =
     rbind (client_of c) (\<lambda>ci.
     rbind (case ci_name ci of None \<Rightarrow> Inl Uninit | Some None \<Rightarrow> Inl NullDeref | Some (Some a) \<Rightarrow> cstring a) (\<lambda>name.
     rbind (cmd_of c) (\<lambda>k.
     rbind (the_input (c_input k)) (\<lambda>line.
     let t = message_text name (us_channel (us c)) line in
     rbind (guard_res OutOfBounds (length t + 1 \<le> SM_BUFF_SIZE)) (\<lambda>_.
     (case new_block c of (blk, c1) \<Rightarrow>
     rbind (cpt_send blk MD_BUFF_SIZE ci (Some (t @ [0]))) (\<lambda>sent.
     rbind (send_packet MD_BUFF_SIZE sent c1) (\<lambda>(r, c2).
       if r = SYS_CALL_FAIL then Inr c2
       else
         rbind (shmem_attach FILENAME (cl_os c2)) (\<lambda>(ok, w1).
         rbind (guard_res NullDeref ok) (\<lambda>_.
         rbind (store_text t (block c2)) (\<lambda>b.
         rbind (shmem_detach w1) (\<lambda>(_, w2).
           Inr (c2\<lparr>block := b, cl_os := w2\<rparr>)))))))))))))"

section \<open>Receiving responses\<close>

definition the_data :: "cpt_response \<Rightarrow> byte list res" where
  "the_data r = (case data r of None \<Rightarrow> Inl NullDeref | Some d \<Rightarrow> Inr d)"

definition first_byte :: "byte list \<Rightarrow> byte res" where
  "first_byte d = (case d of [] \<Rightarrow> Inl OutOfBounds | b # _ \<Rightarrow> Inr b)"

definition set_channel :: "u16 \<Rightarrow> client \<Rightarrow> client" where
  "set_channel cid c = c\<lparr>us := (us c)\<lparr>us_channel := cid\<rparr>\<rparr>"

text \<open>\<open>strncpy(block, data, BLOCK_SIZE)\<close> fills the rest of the block with zeros.\<close>

definition recv_handler :: "client \<Rightarrow> cpt_response \<Rightarrow> client res" where
  "recv_handler c r =
     (if code r = GET_USERS then rbind (the_data r) (\<lambda>d. rbind (cstring d) (\<lambda>_. Inr c))
      else if code r = CREATE_CHANNEL \<or> code r = JOIN_CHANNEL then
        rbind (the_data r) (\<lambda>d. rbind (first_byte d) (\<lambda>b. Inr (set_channel (ucast b) c)))
      else if code r = CREATE_VCHAN then
        rbind (the_data r) (\<lambda>d. rbind (unpacku16 d) (\<lambda>w. Inr (set_channel (ucast w) c)))
      else if code r = LEAVE_CHANNEL then
        rbind (the_data r) (\<lambda>d. rbind (cstring d) (\<lambda>_. Inr (set_channel 0 c)))
      else if code r = SEND then
        rbind (shmem_attach FILENAME (cl_os c)) (\<lambda>(ok, w1).
        rbind (the_data r) (\<lambda>d.
        rbind (guard_res NullDeref ok) (\<lambda>_.
        rbind (if BLOCK_SIZE \<le> length d then Inr (take BLOCK_SIZE d) else cstring d) (\<lambda>t.
        rbind (store_text (t @ replicate (BLOCK_SIZE - length t) 0) (block c)) (\<lambda>b.
        rbind (shmem_detach w1) (\<lambda>(_, w2). Inr (c\<lparr>block := b, cl_os := w2\<rparr>)))))))
      else Inr c)"

section \<open>Commands\<close>

definition menu :: "client \<Rightarrow> client" where
  "menu c = c\<lparr>receiving := False\<rparr>"

definition when_cmd :: "nat \<Rightarrow> (client \<Rightarrow> client res) \<Rightarrow> client \<Rightarrow> client res" where
  "when_cmd i handler c =
     rbind (cmd_of c) (\<lambda>k. rbind (is_cmd k (cli_cmds ! i)) (\<lambda>b. if b then handler c else Inr c))"

definition cmd_handler :: "client \<Rightarrow> client res" where
  "cmd_handler c =
     rbind (when_cmd MENU_CMD (\<lambda>c. Inr (menu c)) c) (\<lambda>c.
     rbind (when_cmd LOGOUT_CMD logout_handler c) (\<lambda>c.
     rbind (when_cmd GET_USERS_CMD get_users_handler c) (\<lambda>c.
     rbind (when_cmd CREATE_CHANNEL_CMD create_channel_handler c) (\<lambda>c.
     rbind (when_cmd JOIN_CHANNEL_CMD join_channel_handler c) (\<lambda>c.
     rbind (when_cmd LEAVE_CHANNEL_CMD leave_channel_handler c) (\<lambda>c.
       when_cmd CREATE_VCHANNEL_CMD create_vchannel_handler c))))))"

section \<open>Voice channels\<close>

definition CPT_VCHAN_MAX :: u16 where "CPT_VCHAN_MAX = 65535"

definition packet_of :: "client \<Rightarrow> cpt_request res" where
  "packet_of c = rbind (client_of c) (\<lambda>ci. case packet ci of None \<Rightarrow> Inl NullDeref | Some r \<Rightarrow> Inr r)"

definition is_voice_compat :: "client \<Rightarrow> bool res" where
  "is_voice_compat c = rbind (packet_of c) (\<lambda>r. Inr (drop_bit 4 (version r) \<ge> 2))"

definition is_voice_chan :: "client \<Rightarrow> bool res" where
  "is_voice_chan c = rbind (packet_of c) (\<lambda>r.
     Inr (CPT_VCHAN_MIN \<le> channel_id r \<and> channel_id r \<le> CPT_VCHAN_MAX))"

definition is_voice :: "client \<Rightarrow> bool res" where
  "is_voice c = rbind (is_voice_chan c) (\<lambda>is_vchan. rbind (is_voice_compat c) (\<lambda>is_vcompat.
     Inr (is_vchan \<and> is_vcompat)))"

end
