(* ===== verification/Client_Spec.thy ===== *)
theory Client_Spec
  imports Handlers
begin

text \<open>
  What the client's handlers do together with the packets: where messages go, which ids the
  client learns from the server's answers, and where it reads or writes out of bounds.
\<close>

section \<open>Where messages go\<close>

definition in_global :: "client \<Rightarrow> bool" where
  "in_global c \<longleftrightarrow> (\<exists>ci. us_client (us c) = Some ci \<and> ci_channel ci = 0)"

lemma in_global_updates [simp]:
  "in_global (c\<lparr>cl_os := w\<rparr>) = in_global c" "in_global (c\<lparr>ticks := n\<rparr>) = in_global c"
  "in_global (c\<lparr>receiving := b\<rparr>) = in_global c" "in_global (c\<lparr>block := bl\<rparr>) = in_global c"
  "in_global (c\<lparr>us := (us c)\<lparr>logged_in := b\<rparr>\<rparr>) = in_global c"
  "in_global (c\<lparr>us := (us c)\<lparr>us_cmd := k\<rparr>\<rparr>) = in_global c"
  "in_global (set_channel cid c) = in_global c"
  by (simp_all add: in_global_def set_channel_def)

text \<open>No call changes the channel that messages are sent to.\<close>

lemma calls_keep_channel:
  "cpt_logout cap ci = Inr (n, out, ci') \<Longrightarrow> ci_channel ci' = ci_channel ci"
  "cpt_get_users cap ci cid = Inr (n, out, ci') \<Longrightarrow> ci_channel ci' = ci_channel ci"
  "cpt_send blk cap ci m = Inr (n, out, ci') \<Longrightarrow> ci_channel ci' = ci_channel ci"
  "cpt_join_channel blk cap ci cid = Inr (n, out, ci') \<Longrightarrow> ci_channel ci' = ci_channel ci"
  "cpt_create_channel blk cap ci l = Inr (n, out, ci') \<Longrightarrow> ci_channel ci' = ci_channel ci"
  "cpt_create_vchannel blk cap ci l = Inr (n, out, ci') \<Longrightarrow> ci_channel ci' = ci_channel ci"
  "cpt_leave_channel blk cap ci cid = Inr (n, out, ci') \<Longrightarrow> ci_channel ci' = ci_channel ci"
  by (auto simp: cpt_logout_def cpt_get_users_def cpt_send_def cpt_join_channel_def cpt_create_channel_def
      cpt_create_vchannel_def cpt_leave_channel_def Let_def split: option.splits if_splits)

lemma send_packet_global:
  "send_packet cap (n, out, ci) c = Inr (r, c') \<Longrightarrow> ci_channel ci = 0 \<Longrightarrow> in_global c'"
  by (auto simp: send_packet_def in_global_def set_client_def split: option.splits)

lemma in_globalD: "in_global c \<Longrightarrow> client_of c = Inr ci \<Longrightarrow> ci_channel ci = 0"
  by (auto simp: in_global_def client_of_def)

lemma client_of_ticks [simp]: "client_of (c\<lparr>ticks := n\<rparr>) = client_of c" "cmd_of (c\<lparr>ticks := n\<rparr>) = cmd_of c"
  by (simp_all add: client_of_def cmd_of_def)

lemma handlers_keep_global:
  assumes "in_global c"
  shows "logout_handler c = Inr c' \<Longrightarrow> in_global c'" "create_channel_handler c = Inr c' \<Longrightarrow> in_global c'"
    "create_vchannel_handler c = Inr c' \<Longrightarrow> in_global c'" "get_users_handler c = Inr c' \<Longrightarrow> in_global c'"
    "leave_channel_handler c = Inr c' \<Longrightarrow> in_global c'" "join_channel_handler c = Inr c' \<Longrightarrow> in_global c'"
  using in_globalD [OF assms]
  by (auto simp: logout_handler_def create_channel_handler_def create_vchannel_handler_def get_users_handler_def
      leave_channel_handler_def join_channel_handler_def new_block_def Let_def
      split: if_splits dest!: calls_keep_channel send_packet_global)

lemma when_cmd_global:
  assumes "\<And>c c'. in_global c \<Longrightarrow> h c = Inr c' \<Longrightarrow> in_global c'" "in_global c" "when_cmd i h c = Inr c'"
  shows "in_global c'"
  using assms by (auto simp: when_cmd_def split: if_splits)

lemma cmd_handler_global:
  assumes "in_global c" "cmd_handler c = Inr c'"
  shows "in_global c'"
proof -
  from assms(2) obtain c1 c2 c3 c4 c5 c6 where
    h: "when_cmd MENU_CMD (\<lambda>c. Inr (menu c)) c = Inr c1" "when_cmd LOGOUT_CMD logout_handler c1 = Inr c2"
      "when_cmd GET_USERS_CMD get_users_handler c2 = Inr c3"
      "when_cmd CREATE_CHANNEL_CMD create_channel_handler c3 = Inr c4"
      "when_cmd JOIN_CHANNEL_CMD join_channel_handler c4 = Inr c5"
      "when_cmd LEAVE_CHANNEL_CMD leave_channel_handler c5 = Inr c6"
      "when_cmd CREATE_VCHANNEL_CMD create_vchannel_handler c6 = Inr c'"
    unfolding cmd_handler_def rbind_eq_Inr by blast
  have "in_global c1" by (rule when_cmd_global [OF _ assms(1) h(1)]) (auto simp: menu_def)
  then have "in_global c2" by (rule when_cmd_global [OF _ _ h(2), rotated]) (rule handlers_keep_global)
  then have "in_global c3" by (rule when_cmd_global [OF _ _ h(3), rotated]) (rule handlers_keep_global)
  then have "in_global c4" by (rule when_cmd_global [OF _ _ h(4), rotated]) (rule handlers_keep_global)
  then have "in_global c5" by (rule when_cmd_global [OF _ _ h(5), rotated]) (rule handlers_keep_global)
  then have "in_global c6" by (rule when_cmd_global [OF _ _ h(6), rotated]) (rule handlers_keep_global)
  then show ?thesis by (rule when_cmd_global [OF _ _ h(7), rotated]) (rule handlers_keep_global)
qed

lemma recv_handler_global: "in_global c \<Longrightarrow> recv_handler c r = Inr c' \<Longrightarrow> in_global c'"
  by (auto simp: recv_handler_def split: if_splits)

lemma send_handler_cases:
  assumes "send_handler c = Inr c'"
  obtains ci name line n out ci' where "client_of c = Inr ci"
    "length (message_text name (us_channel (us c)) line) < SM_BUFF_SIZE"
    "cpt_send (blks c (ticks c)) MD_BUFF_SIZE ci (Some (message_text name (us_channel (us c)) line @ [0])) =
      Inr (n, out, ci')" "client_of c' = Inr ci'"
proof -
  from assms obtain ci name k line n out ci' r c2 where
    h: "client_of c = Inr ci" "length (message_text name (us_channel (us c)) line) + 1 \<le> SM_BUFF_SIZE"
      "cpt_send (blks c (ticks c)) MD_BUFF_SIZE ci (Some (message_text name (us_channel (us c)) line @ [0])) =
        Inr (n, out, ci')"
      "send_packet MD_BUFF_SIZE (n, out, ci') (c\<lparr>ticks := Suc (ticks c)\<rparr>) = Inr (r, c2)"
      "us c' = us c2"
    unfolding send_handler_def new_block_def Let_def
    by (fastforce split: if_splits)
  from h(4,5) have c': "client_of c' = Inr ci'"
    by (auto simp: send_packet_def client_of_def set_client_def)
  show ?thesis by (rule that [OF h(1) _ h(3) c']) (use h(2) in simp)
qed

lemma send_handler_global: "in_global c \<Longrightarrow> send_handler c = Inr c' \<Longrightarrow> in_global c'"
  by (erule send_handler_cases) (auto simp: in_global_def client_of_def dest: calls_keep_channel split: option.splits)

text \<open>What can happen to the client between two messages: the user types a command, a message is sent,
  a response arrives, and the operating system and the messenger do what they like.\<close>

inductive client_steps :: "client \<Rightarrow> client \<Rightarrow> bool" for c0 where
  here: "client_steps c0 c0"
| typed_command: "client_steps c0 c \<Longrightarrow> cmd_handler (c\<lparr>us := (us c)\<lparr>us_cmd := k\<rparr>\<rparr>) = Inr c' \<Longrightarrow> client_steps c0 c'"
| typed_message: "client_steps c0 c \<Longrightarrow> send_handler (c\<lparr>us := (us c)\<lparr>us_cmd := k\<rparr>\<rparr>) = Inr c' \<Longrightarrow> client_steps c0 c'"
| response: "client_steps c0 c \<Longrightarrow> recv_handler c r = Inr c' \<Longrightarrow> client_steps c0 c'"
| outside: "client_steps c0 c \<Longrightarrow> client_steps c0 (c\<lparr>cl_os := w, block := b\<rparr>)"

lemma client_steps_global: "client_steps c0 c \<Longrightarrow> in_global c0 \<Longrightarrow> in_global c"
proof (induction rule: client_steps.induct)
  case (typed_command c k c')
  then show ?case using cmd_handler_global [of "c\<lparr>us := (us c)\<lparr>us_cmd := k\<rparr>\<rparr>" c'] by simp
next
  case (typed_message c k c')
  then show ?case using send_handler_global [of "c\<lparr>us := (us c)\<lparr>us_cmd := k\<rparr>\<rparr>" c'] by simp
next
  case (response c r c')
  then show ?case using recv_handler_global by blast
next
  case (outside c w b)
  then show ?case by (simp add: in_global_def)
qed simp

lemma send_handler_packet:
  assumes "in_global c" "send_handler c = Inr c'"
  shows "\<exists>ci r name line. us_client (us c') = Some ci \<and> packet ci = Some r \<and> command r = SEND \<and>
    channel_id r = 0 \<and> (\<exists>t. cstring (message_text name (us_channel (us c)) line @ [0]) = Inr t \<and>
      msg r = Some (t @ [0]))"
  using assms(2)
proof (rule send_handler_cases)
  fix ci name line n out ci'
  let ?t = "message_text name (us_channel (us c)) line"
  assume h: "client_of c = Inr ci" "client_of c' = Inr ci'"
    "cpt_send (blks c (ticks c)) MD_BUFF_SIZE ci (Some (?t @ [0])) = Inr (n, out, ci')"
  from h(3) obtain r0 r where r: "new_packet (blks c (ticks c)) (ci_channel ci) SEND = Inr r0"
    "cpt_request_msg (Some (?t @ [0])) r0 = Inr r" "packet ci' = Some r"
    by (auto simp: cpt_send_def)
  from r(1) have "command r0 = SEND" "channel_id r0 = ci_channel ci"
    by (auto simp: new_packet_def cpt_request_cmd_def cpt_request_version_def cpt_request_chan_def
        SEND_def CREATE_VCHAN_def split: option.splits)
  moreover from r(2) obtain u where "cstring (?t @ [0]) = Inr u"
    "r = r0\<lparr>msg := Some (u @ [0]), msg_len := of_nat (length u)\<rparr>" by (auto simp: cpt_request_msg_def)
  moreover have "ci_channel ci = 0" using in_globalD [OF assms(1) h(1)] .
  moreover have "us_client (us c') = Some ci'" using h(2) by (auto simp: client_of_def split: option.splits)
  ultimately show ?thesis using r(3) by auto
qed

section \<open>Sending a message\<close>

lemma take_fill_out: "length out \<le> cap \<Longrightarrow> take (length out) (fill cap out) = out \<and> length (fill cap out) = cap"
  by (simp add: fill_def)

lemma send_packet_full:
  assumes "ci_fd ci = Some fd" "cl_os c = \<lparr>script = answer (int (length out)) [] # rest, calls = cs\<rparr>"
    and "out \<noteq> []" "length out \<le> cap"
  shows "send_packet cap (int (length out), out, ci) c = Inr (int (length out),
    (set_client ci c)\<lparr>cl_os := \<lparr>script = rest, calls = cs @ [(SSend fd out, int (length out))]\<rparr>\<rparr>)"
  using client_send_full [of "cl_os c" _ rest "int (length out)" "fill cap out" fd] assms take_fill_out [OF assms(4)]
  by (simp add: send_packet_def tcp_client_send_def)

lemma send_handler_sends:
  assumes "client_of c = Inr ci" "ci_fd ci = Some fd" "ci_name ci = Some (Some (name @ [0]))" "0 \<notin> set name"
    and "cmd_of c = Inr k" "c_input k = Some (Some line)" "0 \<notin> set line"
    and "t = message_text name (us_channel (us c)) line" "blks c (ticks c) = Some b" "length (block c) = 4096"
    and "cl_os c = \<lparr>script = [answer (int (length t + 6)) [], a1, a2, a3, a4], calls = cs\<rparr>"
    and "sret a1 \<noteq> -1" "sret a2 \<noteq> -1" "sret a3 \<noteq> -1"
  shows "if length t < 256
    then \<exists>c'. send_handler c = Inr c' \<and> block c' = t @ drop (length t) (block c) \<and>
      delivered fd (calls (cl_os c')) = delivered fd cs @ request_bytes 32 SEND (ci_channel ci) t
    else send_handler c = Inl OutOfBounds"
proof (cases "length t < 256")
  case False
  have nm: "cstring (name @ [0]) = Inr name" using assms(4) by simp
  from False show ?thesis
    using assms(1,3,5,6,8) nm by (simp add: send_handler_def the_input_def Let_def SM_BUFF_SIZE_def)
next
  case True
  have nm: "cstring (name @ [0]) = Inr name" using assms(4) by simp
  have t0: "0 \<notin> set t" using assms(4,7,8) by (simp add: message_text_def)
  let ?out = "request_bytes 32 SEND (ci_channel ci) t"
  let ?c1 = "c\<lparr>ticks := Suc (ticks c)\<rparr>"
  have "length t + 6 < 512" "length t + 6 \<le> MD_BUFF_SIZE" using True by (simp_all add: MD_BUFF_SIZE_def)
  from packet_wire [OF _ t0 this, of SEND b "ci_channel ci" "\<lambda>r. r" ci]
  obtain r where sent: "cpt_send (Some b) MD_BUFF_SIZE ci (Some (t @ [0])) =
      Inr (int (length ?out), ?out, ci\<lparr>packet := Some r\<rparr>)"
    by (auto simp: cpt_send_def simp del: rbind_eq_Inr)
  let ?ci = "ci\<lparr>packet := Some r\<rparr>"
  let ?w = "\<lparr>script = [a1, a2, a3, a4], calls = cs @ [(SSend fd ?out, int (length ?out))]\<rparr>"
  have pk: "send_packet MD_BUFF_SIZE (int (length ?out), ?out, ?ci) ?c1 =
      Inr (int (length ?out), (set_client ?ci ?c1)\<lparr>cl_os := ?w\<rparr>)"
    by (rule send_packet_full) (use assms(2,11) True in \<open>simp_all add: MD_BUFF_SIZE_def request_bytes_def\<close>)
  have nf: "int (length ?out) \<noteq> SYS_CALL_FAIL" by (simp add: SYS_CALL_FAIL_def)
  have at: "shmem_attach FILENAME ?w = Inr (True, \<lparr>script = [a4], calls = cs @ [(SSend fd ?out, int (length ?out)),
      (SFtok FILENAME, sret a1), (SShmget (sret a1), sret a2), (SShmat (sret a2), sret a3)]\<rparr>)"
    using shmem_attach_ok [OF assms(12-14)] by simp
  have st: "store_text t (block c) = Inr (t @ drop (length t) (block c))"
    using True assms(10) by (simp add: store_text_def)
  have "send_handler c = Inr ((set_client ?ci ?c1)\<lparr>cl_os := \<lparr>script = [], calls =
      cs @ [(SSend fd ?out, int (length ?out)), (SFtok FILENAME, sret a1), (SShmget (sret a1), sret a2),
        (SShmat (sret a2), sret a3), (SShmdt, sret a4)]\<rparr>, block := t @ drop (length t) (block c)\<rparr>)"
    unfolding send_handler_def assms(1) rbind_Inr assms(3) option.case nm assms(5) assms(6) the_input_def
      assms(8) [symmetric] Let_def new_block_def prod.case assms(9) sent pk if_not_P [OF nf]
    using True at st
    by (simp add: SM_BUFF_SIZE_def set_client_def shmem_detach_def del: rbind_eq_Inr)
  with True show ?thesis by simp
qed

definition a_client :: "u16 \<Rightarrow> sysret list \<Rightarrow> client" where
  "a_client cid script0 = \<lparr>us = \<lparr>us_pid = Some 1, us_cmd = Some (typed (str ''hi'' @ [10])), us_channel = cid,
     us_client = Some (client_at 3 (str ''bob'')), logged_in = True\<rparr>, cl_os = \<lparr>script = script0, calls = []\<rparr>,
     block = replicate 4096 0, receiving = False, blks = (\<lambda>_. Some fresh_block), ticks = 0\<rparr>"

definition hi_text :: "u16 \<Rightarrow> byte list" where
  "hi_text cid = message_text (str ''bob'') cid (str ''hi'' @ [10])"

definition hi_answers :: "u16 \<Rightarrow> sysret list" where
  "hi_answers cid = [answer (int (length (hi_text cid) + 6)) [], answer 1 [], answer 1 [], answer 1 [], answer 0 []]"

lemma length_hi_text: "length (hi_text cid) < 256"
proof -
  have "unat cid < 65536" using unsigned_less [of cid] by simp
  then have "length (decimal (unat cid)) \<le> 5" by (intro length_decimal_le) simp_all
  then show ?thesis by (simp add: hi_text_def message_text_def)
qed

lemma a_client_simps [simp]:
  "client_of (a_client cid sc) = Inr (client_at 3 (str ''bob''))"
  "cmd_of (a_client cid sc) = Inr (typed (str ''hi'' @ [10]))"
  "us_channel (us (a_client cid sc)) = cid" "blks (a_client cid sc) n = Some fresh_block"
  "block (a_client cid sc) = replicate 4096 0" "cl_os (a_client cid sc) = \<lparr>script = sc, calls = []\<rparr>"
  by (simp_all add: a_client_def client_of_def cmd_of_def)

lemma client_at_simps [simp]:
  "ci_fd (client_at fd n) = Some fd" "ci_name (client_at fd n) = Some (Some (n @ [0]))"
  "ci_channel (client_at fd n) = 0"
  by (simp_all add: client_at_def)

text \<open>A message the user types is sent as one SEND packet, prefixed with the user's name and channel,
  and left at the start of the block the messenger prints, if the prefix and the line fit into 255
  bytes; otherwise the buffer of the handler overflows.\<close>

lemma send_handler_message:
  assumes "client_of c = Inr ci" "ci_fd ci = Some fd" "ci_name ci = Some (Some (name @ [0]))" "0 \<notin> set name"
    and "cmd_of c = Inr k" "c_input k = Some (Some line)" "0 \<notin> set line"
    and "t = message_text name (us_channel (us c)) line" "blks c (ticks c) = Some b" "length (block c) = 4096"
    and "cl_os c = \<lparr>script = [answer (int (length t + 6)) [], a1, a2, a3, a4], calls = cs\<rparr>"
    and "sret a1 \<noteq> -1" "sret a2 \<noteq> -1" "sret a3 \<noteq> -1"
  shows "if length t < 256
    then \<exists>c'. send_handler c = Inr c' \<and> block c' = t @ drop (length t) (block c) \<and>
      delivered fd (calls (cl_os c')) = delivered fd cs @ request_bytes 32 SEND (ci_channel ci) t
    else send_handler c = Inl OutOfBounds"
  by (rule send_handler_sends [OF assms])

lemma a_client_typed:
  "c_input (typed (str ''hi'' @ [10])) = Some (Some (str ''hi'' @ [10]))"
  "0 \<notin> set (str ''bob'')" "0 \<notin> set (str ''hi'' @ [10])"
  "hi_text cid = message_text (str ''bob'') (us_channel (us (a_client cid sc))) (str ''hi'' @ [10])"
  "length (block (a_client cid sc)) = 4096" "sret (answer 1 []) \<noteq> -1"
  "cl_os (a_client cid (hi_answers cid)) = \<lparr>script = [answer (int (length (hi_text cid) + 6)) [], answer 1 [],
      answer 1 [], answer 1 [], answer 0 []], calls = []\<rparr>"
  by (simp add: typed_def, simp, simp, simp add: hi_text_def del: str_simps, simp, simp, simp add: hi_answers_def)

lemmas a_client_premises = a_client_simps(1) client_at_simps(1,2) a_client_typed(2) a_client_simps(2)
  a_client_typed(1,3,4) a_client_simps(4) a_client_typed(5,7,6,6,6)

lemma a_client_sends: "\<exists>c'. send_handler (a_client 5 (hi_answers 5)) = Inr c'"
proof -
  note send_handler_sends [where c = "a_client 5 (hi_answers 5)", OF a_client_premises]
  then show ?thesis using length_hi_text [of 5] by (simp del: str_simps) blast
qed

lemma send_handler_message_example:
  "\<exists>c'. send_handler (a_client 5 (hi_answers 5)) = Inr c' \<and>
    block c' = hi_text 5 @ drop (length (hi_text 5)) (replicate 4096 0) \<and>
    delivered 3 (calls (cl_os c')) = delivered 3 [] @ request_bytes 32 SEND 0 (hi_text 5)"
proof -
  note send_handler_message [where c = "a_client 5 (hi_answers 5)", OF a_client_premises]
  then show ?thesis using length_hi_text [of 5] by (simp del: str_simps)
qed


lemma a_client_learns:
  "recv_handler (a_client 0 sc) \<lparr>code = JOIN_CHANNEL, data_size = 0, data = Some [5]\<rparr> = Inr (a_client 5 sc)"
  by (simp add: recv_handler_def the_data_def first_byte_def set_channel_def a_client_def command_defs)


end
