(* ===== verification/Voice_Player.thy ===== *)
theory Voice_Player
  imports Net
begin

text \<open>
  The voice processes of a client: voice.c. One process copies what the recorder \<open>arecord\<close> prints to a
  UDP socket, another one copies the datagrams of a UDP socket to the player \<open>aplay\<close>. A stream is the
  number that \<open>popen\<close> or \<open>fopen\<close> answers, 0 for the null pointer.
\<close>

section \<open>Streams\<close>

definition stream :: "int \<Rightarrow> int res" where
  "stream fp = (if fp = 0 then Inl NullDeref else Inr fp)"

definition popen :: "byte list \<Rightarrow> byte list \<Rightarrow> os \<Rightarrow> (int \<times> os) res" where
  "popen cmd mode w = rbind (sys (SPopen cmd mode) w) (\<lambda>(r, w'). Inr (sret r, w'))"

definition fopen :: "byte list \<Rightarrow> byte list \<Rightarrow> os \<Rightarrow> (int \<times> os) res" where
  "fopen path mode w = rbind (sys (SFopen path mode) w) (\<lambda>(r, w'). Inr (sret r, w'))"

definition fwrite :: "int \<Rightarrow> byte list \<Rightarrow> os \<Rightarrow> os res" where
  "fwrite fp d w = rbind (stream fp) (\<lambda>fp. rbind (sys (SFwrite fp d) w) (\<lambda>(_, w'). Inr w'))"

section \<open>Recording\<close>

text \<open>One round of the loop of \<open>record\<close>: what was read, if anything, is written as one datagram. The results of
  \<open>fread\<close> and \<open>write\<close> are not looked at.\<close>

definition record_round :: "int \<Rightarrow> int \<Rightarrow> os \<Rightarrow> os res" where
  "record_round fp fd w =
     rbind (stream fp) (\<lambda>fp.
     rbind (sys (SFread fp SM_BUFF_SIZE) w) (\<lambda>(r, w1).
     rbind (sys (SWrite fd (take SM_BUFF_SIZE (sbytes r))) w1) (\<lambda>(_, w2). Inr w2)))"

lemma record_round_left: "record_round fp fd w = Inr w' \<Longrightarrow> length (script w') < length (script w)"
  by (fastforce simp: record_round_def dest: sys_length)

text \<open>The loop has no end: its result is \<open>Blocked\<close> when there are no more answers of the operating system.\<close>

function record_loop :: "int \<Rightarrow> int \<Rightarrow> os \<Rightarrow> os res" where
  "record_loop fp fd w = rbind (record_round fp fd w) (record_loop fp fd)"
  by pat_completeness auto
termination by (relation "measure (\<lambda>(fp, fd, w). length (script w))") (auto dest: record_round_left)

declare record_loop.simps [simp del]

definition record_voice :: "int \<Rightarrow> os \<Rightarrow> os res" where
  "record_voice fd w = rbind (popen (str ''arecord -'') (str ''r'') w) (\<lambda>(fp, w1). record_loop fp fd w1)"

section \<open>Playing\<close>

text \<open>The buffer has 256 bytes, its first contents are those of the stack. It is printed as a string, whatever
  has been received.\<close>

function play_loop :: "int \<Rightarrow> int \<Rightarrow> int \<Rightarrow> byte list \<Rightarrow> os \<Rightarrow> os res" where
  "play_loop fp out fd buf w =
     rbind (udp_server_recv fd buf w) (\<lambda>(nread, buf1, w1).
     rbind (cstring buf1) (\<lambda>_.
       if nread > 0 then
         rbind (fwrite out buf1 w1) (\<lambda>w2.
         rbind (fwrite fp buf1 w2) (\<lambda>w3. play_loop fp out fd buf1 w3))
       else fwrite out (str ''nothin'' @ [0]) w1))"
  by pat_completeness auto

lemma fwrite_left: "fwrite fp d w = Inr w' \<Longrightarrow> length (script w') < length (script w)"
  by (auto simp: fwrite_def dest: sys_length)

lemma udp_recv_left: "udp_server_recv fd buf w = Inr (n, b, w') \<Longrightarrow> length (script w') < length (script w)"
  by (auto simp: udp_server_recv_def recv_into_def Let_def dest: sys_length)

termination play_loop
proof (relation "measure (\<lambda>(fp, out, fd, buf, w). length (script w))", goal_cases)
  case (2 fp out fd buf w)
  then show ?case by (fastforce dest: fwrite_left udp_recv_left)
qed simp

declare play_loop.simps [simp del]

definition play :: "int \<Rightarrow> byte list \<Rightarrow> os \<Rightarrow> os res" where
  "play fd stack w =
     rbind (popen (str ''aplay -'') (str ''w'') w) (\<lambda>(fp, w1).
     rbind (fopen (str ''./file.txt'') (str ''a+'') w1) (\<lambda>(out, w2).
     rbind (play_loop fp out fd stack w2) (\<lambda>w3.
     rbind (stream out) (\<lambda>out.
     rbind (stream fp) (\<lambda>fp.
       Inr (log_call (SPclose fp) (log_call (SFclose out) w3)))))))"

section \<open>The two processes\<close>

definition run_voice_chat :: "byte list option \<Rightarrow> byte list option \<Rightarrow> byte list \<Rightarrow> os \<Rightarrow> (int \<times> os) res" where
  "run_voice_chat host port stack w =
     rbind (sys SFork w) (\<lambda>(r, w1).
       if sret r \<noteq> -1 then
         rbind (fopen (str ''./file_outer.txt'') (str ''a+'') w1) (\<lambda>(file2, w2).
         rbind (if sret r > 0
                then rbind (udp_server_sock_r (Some (str ''192.168.1.106'')) (Some PORT_8888) w2) (\<lambda>(listen_fd, w3).
                       play listen_fd stack w3)
                else rbind (udp_server_sock_s host port w2) (\<lambda>(send_fd, w3). record_voice send_fd w3)) (\<lambda>w4.
         rbind (sys SWait w4) (\<lambda>(_, w5).
         rbind (stream file2) (\<lambda>file2.
           Inr (sret r, log_call (SFclose file2) w5)))))
       else Inr (sret r, w1))"

section \<open>What is recorded and what is played\<close>

lemma sys_script: "script w = r # rs \<Longrightarrow> sys c w = Inr (r, w\<lparr>script := rs, calls := calls w @ [(c, sret r)]\<rparr>)"
  by (simp add: sys_def)

text \<open>The answers to one round of recording: a block is read, and \<open>write\<close> answers \<open>n\<close>.\<close>

definition recorded :: "byte list \<times> int \<Rightarrow> sysret list" where
  "recorded = (\<lambda>(b, n). [answer (int (length b)) b, answer n []])"

definition record_calls :: "int \<Rightarrow> int \<Rightarrow> byte list \<times> int \<Rightarrow> (syscall \<times> int) list" where
  "record_calls fp fd = (\<lambda>(b, n). [(SFread fp 256, int (length b)), (SWrite fd b, n)])"

lemma record_blocks:
  "fp \<noteq> 0 \<Longrightarrow> \<forall>(b, n) \<in> set bs. length b \<le> 256 \<Longrightarrow> script w = concat (map recorded bs) @ rest \<Longrightarrow>
   record_loop fp fd w = record_loop fp fd (w\<lparr>script := rest, calls := calls w @ concat (map (record_calls fp fd) bs)\<rparr>)"
proof (induction bs arbitrary: w)
  case (Cons bn bs)
  obtain b n where bn: "bn = (b, n)" by (cases bn)
  let ?w = "w\<lparr>script := concat (map recorded bs) @ rest, calls := calls w @ record_calls fp fd (b, n)\<rparr>"
  have "record_round fp fd w = Inr ?w"
    using Cons.prems by (simp add: bn record_round_def stream_def recorded_def record_calls_def sys_script SM_BUFF_SIZE_def)
  then have "record_loop fp fd w = record_loop fp fd ?w" by (subst record_loop.simps) simp
  with Cons.IH [of ?w] Cons.prems show ?case by (simp add: bn)
qed auto

lemma record_loop_blocks: "fp \<noteq> 0 \<Longrightarrow> record_loop fp fd w = Inl Blocked"
proof (induction fp fd w rule: record_loop.induct)
  case (1 fp fd w)
  have "record_round fp fd w = Inl e \<Longrightarrow> e = Blocked" for e
    using 1(2) by (auto simp: record_round_def stream_def sys_def rbind_def split: list.splits sum.splits)
  with 1 show ?case by (subst record_loop.simps) (auto simp: rbind_def split: sum.splits)
qed



text \<open>The contents of the buffer after each datagram: a short datagram leaves the end of the one before it.\<close>

fun played :: "byte list \<Rightarrow> byte list list \<Rightarrow> byte list list" where
  "played buf [] = []"
| "played buf (d # ds) = (d @ drop (length d) buf) # played (d @ drop (length d) buf) ds"

definition play_answers :: "byte list \<Rightarrow> sysret list" where
  "play_answers d = [answer (int (length d)) d, answer 256 [], answer 256 []]"

definition play_calls :: "int \<Rightarrow> int \<Rightarrow> int \<Rightarrow> byte list \<times> byte list \<Rightarrow> (syscall \<times> int) list" where
  "play_calls fp out fd = (\<lambda>(d, b). [(SRecv fd 512, int (length d)), (SFwrite out b, 256), (SFwrite fp b, 256)])"

lemma cstring_terminated: "0 \<in> set b \<Longrightarrow> \<exists>t. cstring b = Inr t"
  using cstrlen_ok [of b] by (auto simp: cstring_def)

lemma cstring_open: "0 \<notin> set b \<Longrightarrow> cstring b = Inl OutOfBounds"
  using cstrlen_eq_Inl [of b OutOfBounds] by (simp add: cstring_def)

lemma recv_datagram:
  assumes "script w = answer (int (length d)) d # rest" "length d \<le> 256" "length buf = 256"
  shows "udp_server_recv fd buf w = Inr (int (length d), d @ drop (length d) buf,
    w\<lparr>script := rest, calls := calls w @ [(SRecv fd 512, int (length d))]\<rparr>)"
  using assms by (simp add: udp_server_recv_def recv_into_def sys_script MD_BUFF_SIZE_def guard_res_def)

lemma fwrite_ok:
  "fp \<noteq> 0 \<Longrightarrow> script w = r # rest \<Longrightarrow> fwrite fp b w = Inr (w\<lparr>script := rest, calls := calls w @ [(SFwrite fp b, sret r)]\<rparr>)"
  by (simp add: fwrite_def stream_def sys_script)

lemma play_step:
  assumes "d \<noteq> []" "length d \<le> 256" "length buf = 256" "fp \<noteq> 0" "out \<noteq> 0" "script w = play_answers d @ rest"
  shows "play_loop fp out fd buf w = (let b = d @ drop (length d) buf in
    if 0 \<in> set b then play_loop fp out fd b (w\<lparr>script := rest, calls := calls w @ play_calls fp out fd (d, b)\<rparr>)
    else Inl OutOfBounds)"
proof -
  let ?b = "d @ drop (length d) buf"
  from assms(6) have "script w = answer (int (length d)) d # answer 256 [] # answer 256 [] # rest"
    by (simp add: play_answers_def)
  note recv = recv_datagram [OF this assms(2,3), of fd]
  show ?thesis
  proof (cases "0 \<in> set ?b")
    case True
    with cstring_terminated obtain t where "cstring ?b = Inr t" by blast
    with True assms(1,4,5) show ?thesis
      by (subst play_loop.simps) (simp add: recv fwrite_ok play_calls_def Let_def)
  next
    case False
    with cstring_open [OF False] show ?thesis by (subst play_loop.simps) (simp add: recv Let_def)
  qed
qed

lemma play_too_long:
  assumes "script w = answer (int (length d)) d # rest" "256 < length d" "length buf = 256"
  shows "play_loop fp out fd buf w = Inl OutOfBounds"
proof -
  have "\<not> length (take (min 512 (length d)) d) \<le> 256" "\<not> min 512 (length d) \<le> 256" using assms(2) by auto
  with assms show ?thesis
    by (subst play_loop.simps) (simp add: udp_server_recv_def recv_into_def sys_script MD_BUFF_SIZE_def guard_res_def
        del: min_le_iff_disj)
qed

lemma play_end:
  assumes "sret e \<le> 0" "0 \<in> set buf" "out \<noteq> 0" "script w = e # a # rest"
  shows "play_loop fp out fd buf w = Inr (w\<lparr>script := rest,
    calls := calls w @ [(SRecv fd 512, sret e), (SFwrite out (str ''nothin'' @ [0]), sret a)]\<rparr>)"
proof -
  from cstring_terminated [OF assms(2)] obtain t where "cstring buf = Inr t" ..
  with assms show ?thesis
    by (subst play_loop.simps) (simp add: udp_server_recv_def recv_into_def sys_script MD_BUFF_SIZE_def guard_res_def fwrite_ok)
qed

lemma play_datagrams:
  assumes "fp \<noteq> 0" "out \<noteq> 0" "sret e \<le> 0"
  shows "length buf = 256 \<Longrightarrow> \<forall>d \<in> set ds. d \<noteq> [] \<Longrightarrow> ds = [] \<longrightarrow> 0 \<in> set buf \<Longrightarrow>
    script w = concat (map play_answers ds) @ e # a # rest \<Longrightarrow>
    play_loop fp out fd buf w =
      (if (\<forall>d \<in> set ds. length d \<le> 256) \<and> (\<forall>b \<in> set (played buf ds). 0 \<in> set b)
       then Inr (w\<lparr>script := rest, calls := calls w @ concat (map (play_calls fp out fd) (zip ds (played buf ds))) @
         [(SRecv fd 512, sret e), (SFwrite out (str ''nothin'' @ [0]), sret a)]\<rparr>)
       else Inl OutOfBounds)"
proof (induction ds arbitrary: buf w)
  case Nil
  then show ?case using play_end [OF assms(3) _ assms(2)] by simp
next
  case (Cons d ds)
  let ?b = "d @ drop (length d) buf"
  let ?w = "w\<lparr>script := concat (map play_answers ds) @ e # a # rest, calls := calls w @ play_calls fp out fd (d, ?b)\<rparr>"
  show ?case
  proof (cases "length d \<le> 256")
    case True
    have "play_loop fp out fd buf w = (if 0 \<in> set ?b then play_loop fp out fd ?b ?w else Inl OutOfBounds)"
      using play_step [OF _ True Cons.prems(1) assms(1,2)] Cons.prems(2,4) by (simp add: Let_def)
    moreover have "0 \<in> set ?b \<Longrightarrow> play_loop fp out fd ?b ?w =
      (if (\<forall>d \<in> set ds. length d \<le> 256) \<and> (\<forall>b \<in> set (played ?b ds). 0 \<in> set b)
       then Inr (w\<lparr>script := rest, calls := calls w @ play_calls fp out fd (d, ?b) @
         concat (map (play_calls fp out fd) (zip ds (played ?b ds))) @
         [(SRecv fd 512, sret e), (SFwrite out (str ''nothin'' @ [0]), sret a)]\<rparr>)
       else Inl OutOfBounds)"
      using Cons.IH [of ?b ?w] Cons.prems(1,2) True by simp
    ultimately show ?thesis using True by (simp del: Un_iff set_append)
  next
    case False
    have "script w = answer (int (length d)) d # [answer 256 [], answer 256 []] @ concat (map play_answers ds) @ e # a # rest"
      using Cons.prems(4) play_answers_def [of d] by simp
    from play_too_long [OF this _ Cons.prems(1)] False show ?thesis by simp
  qed
qed

text \<open>C25: Every datagram makes the player get a block of 256 bytes: the datagram, and behind a short one what the
  datagrams before it, or the stack, left in the buffer. The first datagram without bytes, or the first failure
  to receive, ends the playing, closes both streams and nothing after it is played. The buffer is also printed as a
  string: a datagram of more than 256 bytes, or one after which the buffer has no zero byte, is an access outside the
  buffer.\<close>

theorem play_blocks:
  assumes "fp \<noteq> 0" "out \<noteq> 0" "sret e \<le> 0" "length stack = 256" "ds \<noteq> []" "\<forall>d \<in> set ds. d \<noteq> []"
    and "script w = answer fp [] # answer out [] # concat (map play_answers ds) @ e # a # rest"
  shows "play fd stack w =
    (if (\<forall>d \<in> set ds. length d \<le> 256) \<and> (\<forall>b \<in> set (played stack ds). 0 \<in> set b)
     then Inr (w\<lparr>script := rest, calls := calls w @
       [(SPopen (str ''aplay -'') (str ''w''), fp), (SFopen (str ''./file.txt'') (str ''a+''), out)] @
       concat (map (play_calls fp out fd) (zip ds (played stack ds))) @
       [(SRecv fd 512, sret e), (SFwrite out (str ''nothin'' @ [0]), sret a), (SFclose out, 0), (SPclose fp, 0)]\<rparr>)
     else Inl OutOfBounds)"
proof -
  let ?w = "w\<lparr>script := concat (map play_answers ds) @ e # a # rest, calls := calls w @
       [(SPopen (str ''aplay -'') (str ''w''), fp), (SFopen (str ''./file.txt'') (str ''a+''), out)]\<rparr>"
  have "play fd stack w = rbind (play_loop fp out fd stack ?w) (\<lambda>w3.
      Inr (log_call (SPclose fp) (log_call (SFclose out) w3)))"
    using assms(1,2,7) by (simp add: play_def popen_def fopen_def sys_script stream_def)
  also have "\<dots> = (if (\<forall>d \<in> set ds. length d \<le> 256) \<and> (\<forall>b \<in> set (played stack ds). 0 \<in> set b)
     then Inr (log_call (SPclose fp) (log_call (SFclose out) (?w\<lparr>script := rest, calls := calls ?w @
       concat (map (play_calls fp out fd) (zip ds (played stack ds))) @
       [(SRecv fd 512, sret e), (SFwrite out (str ''nothin'' @ [0]), sret a)]\<rparr>)))
     else Inl OutOfBounds)"
    using play_datagrams [OF assms(1-4,6), of ?w a rest fd] assms(5) by simp
  finally show ?thesis by (simp add: log_call_def)
qed

theorem play_blocks_witness:
  "play 5 (replicate 256 0) \<lparr>script = [answer 3 [], answer 4 []] @ play_answers [7, 8] @ play_answers [9] @
       [answer 0 [], answer 7 []], calls = []\<rparr> =
   Inr \<lparr>script = [], calls =
     [(SPopen (str ''aplay -'') (str ''w''), 3), (SFopen (str ''./file.txt'') (str ''a+''), 4),
      (SRecv 5 512, 2), (SFwrite 4 (7 # 8 # replicate 254 0), 256), (SFwrite 3 (7 # 8 # replicate 254 0), 256),
      (SRecv 5 512, 1), (SFwrite 4 (9 # 8 # replicate 254 0), 256), (SFwrite 3 (9 # 8 # replicate 254 0), 256),
      (SRecv 5 512, 0), (SFwrite 4 (str ''nothin'' @ [0]), 7), (SFclose 4, 0), (SPclose 3, 0)]\<rparr>"
  using play_blocks [of 3 4 "answer 0 []" "replicate 256 0" "[[7, 8], [9]]"
      "\<lparr>script = [answer 3 [], answer 4 []] @ play_answers [7, 8] @ play_answers [9] @ [answer 0 [], answer 7 []], calls = []\<rparr>"
      "answer 7 []" "[]" 5]
  by (simp add: play_calls_def)

end
