(* ===== verification/Cli.thy ===== *)
theory Cli
  imports Client_Spec Voice_Player
begin

text \<open>
  The client program: cli_dc.c. After the login the process forks, and the parent runs two threads over
  the one \<open>UserState\<close>: one reads commands and sends requests, the other receives responses. They share a
  mutex, a condition variable and the flag \<open>is_receiving\<close>.

  A step of a thread is the code between two points at which the other thread can be scheduled. What is
  printed is left out.
\<close>

section \<open>Login\<close>

definition NUM_MSG_THREADS :: nat where "NUM_MSG_THREADS = 2"
definition EXIT_FAILURE :: int where "EXIT_FAILURE = 1"
definition SIGCONT :: int where "SIGCONT = 18"
definition SIGSTOP :: int where "SIGSTOP = 19"

text \<open>The list heap \<open>h\<close> is where the client keeps its list of channels. A failed \<open>socket\<close> or \<open>connect\<close> is
  not looked at here: the login then fails in its \<open>send\<close>.\<close>

definition user_login ::
  "client \<Rightarrow> u16 lheap \<Rightarrow> byte list option \<Rightarrow> byte list option \<Rightarrow> byte list option \<Rightarrow> (client \<times> u16 lheap) res" where
  "user_login c h host port name = (case name of
     None \<Rightarrow> Inl (ExitProcess EXIT_FAILURE)
   | Some nm \<Rightarrow>
       (case new_block c of (b, c1) \<Rightarrow> (case new_block c1 of (blk, c2) \<Rightarrow>
       rbind (cpt_init_client_info (b \<noteq> None) blk h port host) (\<lambda>(info, h').
       rbind (tcp_init_client host port (cl_os c2)) (\<lambda>(fd, w).
       rbind (case info of None \<Rightarrow> Inl NullDeref | Some ci \<Rightarrow> Inr ci) (\<lambda>ci.
       rbind (cstring nm) (\<lambda>t.
       let c3 = (set_client (ci\<lparr>ci_fd := Some fd, ci_name := Some (Some (t @ [0]))\<rparr>) c2)\<lparr>cl_os := w\<rparr> in
       rbind (login_handler c3 name) (\<lambda>(r, c4).
         if r < 0 then Inl (ExitProcess EXIT_FAILURE)
         else
           rbind (client_of c4) (\<lambda>ci4.
           rbind (sys (SIoctl fd) (cl_os c4)) (\<lambda>(_, w5).
           let c5 = set_client (ci4\<lparr>ci_name := Some (Some (t @ [0]))\<rparr>) c4 in
             Inr (c5\<lparr>cl_os := w5, us := (us c5)\<lparr>logged_in := True, us_channel := 0\<rparr>\<rparr>, h')))))))))))"

section \<open>The sending thread\<close>

definition prompt :: "client \<Rightarrow> unit res" where
  "prompt c = rbind (client_of c) (\<lambda>ci.
     case ci_name ci of None \<Rightarrow> Inl Uninit | Some None \<Rightarrow> Inl NullDeref | Some (Some a) \<Rightarrow>
       rbind (cstring a) (\<lambda>_. Inr ()))"

text \<open>Before the mutex: a command is read and parsed.\<close>

definition read_command :: "bool \<Rightarrow> client \<Rightarrow> client res" where
  "read_command ok c =
     rbind (prompt c) (\<lambda>_.
     rbind (cmd_get_input (cl_os c)) (\<lambda>(line, w).
     rbind (case cmd_init ok of None \<Rightarrow> Inl NullDeref
            | Some k \<Rightarrow> parse_cmd_input (k\<lparr>c_input := Some (Some line)\<rparr>)) (\<lambda>k.
       Inr (c\<lparr>us := (us c)\<lparr>us_cmd := Some k\<rparr>, cl_os := w\<rparr>))))"

text \<open>With the mutex: a command is executed, and the voice process is continued or stopped; any other line
  is sent as a message. The first result says whether an answer is waited for next.\<close>

definition run_command :: "client \<Rightarrow> (bool \<times> client) res" where
  "run_command c =
     rbind (cmd_of c) (\<lambda>k.
       if is_valid_cmd k then
         rbind (cmd_handler (c\<lparr>receiving := True\<rparr>)) (\<lambda>c1.
         rbind (is_voice_chan c1) (\<lambda>voice.
         rbind (case us_pid (us c1) of None \<Rightarrow> Inl Uninit | Some p \<Rightarrow> Inr p) (\<lambda>pid.
         rbind (sys (SKill pid (if voice then SIGCONT else SIGSTOP)) (cl_os c1)) (\<lambda>(_, w).
         rbind (cmd_of c1) (\<lambda>k1.
         rbind (is_cmd k1 (cli_cmds ! LOGOUT_CMD)) (\<lambda>out.
           Inr (True, if out then c1\<lparr>cl_os := w, receiving := False\<rparr> else c1\<lparr>cl_os := w\<rparr>)))))))
       else
         (case c_input k of
            None \<Rightarrow> Inl Uninit
          | Some None \<Rightarrow> Inr (False, c)
          | Some (Some line) \<Rightarrow>
              if line \<noteq> [] then rbind (send_handler c) (\<lambda>c1. Inr (False, c1)) else Inr (False, c)))"

definition free_command :: "client \<Rightarrow> client res" where
  "free_command c = rbind (cmd_destroy (us_cmd (us c))) (\<lambda>_. Inr (c\<lparr>us := (us c)\<lparr>us_cmd := None\<rparr>\<rparr>))"

datatype send_pc =
    AtPrompt | WantMutex | InCommand
  | CheckAnswer     \<comment> \<open>with the mutex, before the test of \<open>is_receiving\<close>\<close>
  | Waiting         \<comment> \<open>in \<open>pthread_cond_wait\<close>\<close>
  | Woken           \<comment> \<open>in \<open>pthread_cond_wait\<close>, competing for the mutex\<close>
  | Freeing | SendDone

datatype recv_pc =
    Receiving | GotBytes | Handling
  | SignalSender cpt_response
  | RecvDone

text \<open>The owner of the mutex: \<open>Some True\<close> is the sending thread, \<open>Some False\<close> the receiving one.\<close>

record cli =
  cl :: client
  mutex :: "bool option"
  sender :: send_pc
  receiver :: recv_pc
  res_buf :: "byte list"

definition send_thread :: "bool \<Rightarrow> cli \<Rightarrow> cli res" where
  "send_thread ok s = (case sender s of
     AtPrompt \<Rightarrow>
       if logged_in (us (cl s))
       then rbind (read_command ok (cl s)) (\<lambda>c. Inr (s\<lparr>cl := c, sender := WantMutex\<rparr>))
       else Inr (s\<lparr>sender := SendDone\<rparr>)
   | WantMutex \<Rightarrow> if mutex s = None then Inr (s\<lparr>mutex := Some True, sender := InCommand\<rparr>) else Inl Blocked
   | InCommand \<Rightarrow>
       rbind (run_command (cl s)) (\<lambda>(valid, c).
         if valid then Inr (s\<lparr>cl := c, sender := CheckAnswer\<rparr>)
         else Inr (s\<lparr>cl := c, mutex := None, sender := Freeing\<rparr>))
   | CheckAnswer \<Rightarrow> Inr (s\<lparr>mutex := None, sender := if receiving (cl s) then Waiting else Freeing\<rparr>)
   | Waiting \<Rightarrow> Inl Blocked
   | Woken \<Rightarrow> if mutex s = None then Inr (s\<lparr>mutex := Some True, sender := CheckAnswer\<rparr>) else Inl Blocked
   | Freeing \<Rightarrow> rbind (free_command (cl s)) (\<lambda>c. Inr (s\<lparr>cl := c, sender := AtPrompt\<rparr>))
   | SendDone \<Rightarrow> Inl Blocked)"

section \<open>The receiving thread\<close>

text \<open>The buffer is not cleared between two responses.\<close>

definition receive_bytes :: "cli \<Rightarrow> cli res" where
  "receive_bytes s =
     rbind (client_of (cl s)) (\<lambda>ci.
     rbind (case ci_fd ci of None \<Rightarrow> Inl Uninit | Some fd \<Rightarrow> tcp_client_recv fd (res_buf s) (cl_os (cl s))) (\<lambda>(res_size, buf, w).
       Inr (s\<lparr>cl := (cl s)\<lparr>cl_os := w\<rparr>, res_buf := buf, receiver := if res_size > 0 then GotBytes else Receiving\<rparr>)))"

definition handle_response :: "cli \<Rightarrow> cli res" where
  "handle_response s =
     (case new_block (cl s) of (b1, c1) \<Rightarrow> (case new_block c1 of (b2, c2) \<Rightarrow>
     rbind (cpt_parse_response (b1 \<noteq> None, b2 \<noteq> None) (res_buf s)) (\<lambda>res.
     (case res of
        None \<Rightarrow> Inr (s\<lparr>cl := c2, mutex := None, receiver := Receiving\<rparr>)
      | Some r \<Rightarrow>
          rbind (recv_handler c2 r) (\<lambda>c3.
            Inr (s\<lparr>cl := c3\<lparr>receiving := False\<rparr>, mutex := None, receiver := SignalSender r\<rparr>))))))"

definition recv_thread :: "cli \<Rightarrow> cli res" where
  "recv_thread s = (case receiver s of
     Receiving \<Rightarrow> if logged_in (us (cl s)) then receive_bytes s else Inr (s\<lparr>receiver := RecvDone\<rparr>)
   | GotBytes \<Rightarrow> if mutex s = None then Inr (s\<lparr>mutex := Some False, receiver := Handling\<rparr>) else Inl Blocked
   | Handling \<Rightarrow> handle_response s
   | SignalSender r \<Rightarrow> Inr (s\<lparr>sender := (if sender s = Waiting then Woken else sender s), receiver := Receiving\<rparr>)
   | RecvDone \<Rightarrow> Inl Blocked)"

section \<open>The program\<close>

definition thread_chat_io :: "client \<Rightarrow> cli" where
  "thread_chat_io c = \<lparr>cl = c\<lparr>receiving := False\<rparr>, mutex = None, sender = AtPrompt, receiver = Receiving,
     res_buf = replicate LG_BUFF_SIZE 0\<rparr>"

text \<open>\<open>run\<close> up to the threads: the third result says which of the two processes goes on, if the fork succeeds.\<close>

definition cli_start ::
  "bool \<Rightarrow> bool \<Rightarrow> client \<Rightarrow> u16 lheap \<Rightarrow> byte list option \<Rightarrow> byte list option \<Rightarrow> byte list option \<Rightarrow>
   (client \<times> u16 lheap \<times> int) res" where
  "cli_start ok was c h host port login =
     rbind (user_state_init ok was) (\<lambda>u.
     rbind (if logged_in u then Inr (c\<lparr>us := u\<rparr>, h) else user_login (c\<lparr>us := u\<rparr>) h host port login) (\<lambda>(c1, h1).
     rbind (sys SFork (cl_os c1)) (\<lambda>(r, w).
       Inr (c1\<lparr>us := (us c1)\<lparr>us_pid := Some (sret r)\<rparr>, cl_os := w\<rparr>, h1, sret r))))"

text \<open>The end of \<open>run\<close>, in every process.\<close>

definition cli_cleanup :: "client \<Rightarrow> os res" where
  "cli_cleanup c =
     rbind (client_of c) (\<lambda>ci.
     rbind (case ci_fd ci of None \<Rightarrow> Inl Uninit | Some fd \<Rightarrow> Inr (log_call (SClose fd) (cl_os c))) (\<lambda>w.
     rbind (user_state_destroy (Some (us c))) (\<lambda>_. Inr w)))"

text \<open>\<open>run\<close> after the fork: the parent when its threads have been joined, the child with its voice.\<close>

definition cli_end :: "cli \<Rightarrow> os res" where
  "cli_end s = (if sender s = SendDone \<and> receiver s = RecvDone then cli_cleanup (cl s) else Inl Blocked)"

definition cli_child :: "byte list \<Rightarrow> client \<Rightarrow> os res" where
  "cli_child stack c =
     rbind (run_voice_chat (Some (str ''192.168.1.133'')) (Some PORT_8080) stack (cl_os c)) (\<lambda>(_, w).
       cli_cleanup (c\<lparr>cl_os := w\<rparr>))"

text \<open>The states of the threads. The sending thread may also wake up without a signal, and the operating
  system and the messenger do what they like.\<close>

inductive cli_states :: "client \<Rightarrow> cli \<Rightarrow> bool" for c0 where
  start: "cli_states c0 (thread_chat_io c0)"
| send: "cli_states c0 s \<Longrightarrow> send_thread ok s = Inr s' \<Longrightarrow> cli_states c0 s'"
| recv: "cli_states c0 s \<Longrightarrow> recv_thread s = Inr s' \<Longrightarrow> cli_states c0 s'"
| spurious: "cli_states c0 s \<Longrightarrow> sender s = Waiting \<Longrightarrow> cli_states c0 (s\<lparr>sender := Woken\<rparr>)"
| outside: "cli_states c0 s \<Longrightarrow> cli_states c0 (s\<lparr>cl := (cl s)\<lparr>cl_os := w, block := b\<rparr>\<rparr>)"

section \<open>Waiting for an answer\<close>

text \<open>The handlers leave the command and the flag alone; only the menu resets the flag.\<close>

definition keeps :: "client \<Rightarrow> client \<Rightarrow> bool" where
  "keeps c c' \<longleftrightarrow> us_cmd (us c') = us_cmd (us c) \<and> (receiving c' \<longrightarrow> receiving c)"

lemma keeps_simps [simp]: "keeps c c" "keeps (c\<lparr>ticks := n\<rparr>) c' = keeps c c'" "keeps c (c\<lparr>ticks := n\<rparr>)"
  by (simp_all add: keeps_def)

lemma send_packet_keeps: "send_packet cap sent c = Inr (r, c') \<Longrightarrow> keeps c c'"
  by (cases sent) (auto simp: send_packet_def keeps_def set_client_def split: option.splits)

lemma handlers_keep:
  "logout_handler c = Inr c' \<Longrightarrow> keeps c c'" "create_channel_handler c = Inr c' \<Longrightarrow> keeps c c'"
  "create_vchannel_handler c = Inr c' \<Longrightarrow> keeps c c'" "get_users_handler c = Inr c' \<Longrightarrow> keeps c c'"
  "leave_channel_handler c = Inr c' \<Longrightarrow> keeps c c'" "join_channel_handler c = Inr c' \<Longrightarrow> keeps c c'"
  by (auto simp: logout_handler_def create_channel_handler_def create_vchannel_handler_def get_users_handler_def
      leave_channel_handler_def join_channel_handler_def new_block_def Let_def
      split: if_splits dest!: send_packet_keeps) (auto simp: keeps_def)

lemma when_cmd_keeps: "when_cmd i h c = Inr c' \<Longrightarrow> (\<And>c c'. h c = Inr c' \<Longrightarrow> keeps c c') \<Longrightarrow> keeps c c'"
  by (auto simp: when_cmd_def split: if_splits)

lemma keeps_trans: "keeps c c' \<Longrightarrow> keeps c' c'' \<Longrightarrow> keeps c c''"
  by (auto simp: keeps_def)

lemma cmd_handler_keeps:
  assumes "cmd_handler c = Inr c'"
  shows "keeps c c'"
proof -
  from assms obtain c1 c2 c3 c4 c5 c6 where
    h: "when_cmd MENU_CMD (\<lambda>c. Inr (menu c)) c = Inr c1" "when_cmd LOGOUT_CMD logout_handler c1 = Inr c2"
      "when_cmd GET_USERS_CMD get_users_handler c2 = Inr c3"
      "when_cmd CREATE_CHANNEL_CMD create_channel_handler c3 = Inr c4"
      "when_cmd JOIN_CHANNEL_CMD join_channel_handler c4 = Inr c5"
      "when_cmd LEAVE_CHANNEL_CMD leave_channel_handler c5 = Inr c6"
      "when_cmd CREATE_VCHANNEL_CMD create_vchannel_handler c6 = Inr c'"
    unfolding cmd_handler_def rbind_eq_Inr by blast
  have "keeps c c1" by (rule when_cmd_keeps [OF h(1)]) (auto simp: menu_def keeps_def)
  moreover have "keeps c1 c2" by (rule when_cmd_keeps [OF h(2)]) (rule handlers_keep)
  moreover have "keeps c2 c3" by (rule when_cmd_keeps [OF h(3)]) (rule handlers_keep)
  moreover have "keeps c3 c4" by (rule when_cmd_keeps [OF h(4)]) (rule handlers_keep)
  moreover have "keeps c4 c5" by (rule when_cmd_keeps [OF h(5)]) (rule handlers_keep)
  moreover have "keeps c5 c6" by (rule when_cmd_keeps [OF h(6)]) (rule handlers_keep)
  moreover have "keeps c6 c'" by (rule when_cmd_keeps [OF h(7)]) (rule handlers_keep)
  ultimately show ?thesis by (blast intro: keeps_trans)
qed

lemma send_handler_keeps: "send_handler c = Inr c' \<Longrightarrow> keeps c c'"
  by (auto simp: send_handler_def new_block_def Let_def split: if_splits dest!: send_packet_keeps)
    (auto simp: keeps_def)

lemma recv_handler_keeps: "recv_handler c r = Inr c' \<Longrightarrow> keeps c c'"
  by (auto simp: recv_handler_def set_channel_def keeps_def split: if_splits)

text \<open>A command with a line.\<close>

definition has_line :: "client \<Rightarrow> bool" where
  "has_line c \<longleftrightarrow> (\<exists>k l. us_cmd (us c) = Some k \<and> c_input k = Some (Some l))"

lemma keeps_line: "keeps c c' \<Longrightarrow> has_line c \<Longrightarrow> has_line c'"
  by (auto simp: keeps_def has_line_def)

definition wait_inv :: "cli \<Rightarrow> bool" where
  "wait_inv s \<longleftrightarrow>
     (mutex s = Some True \<longleftrightarrow> sender s \<in> {InCommand, CheckAnswer}) \<and>
     (mutex s = Some False \<longleftrightarrow> receiver s = Handling) \<and>
     (receiving (cl s) \<longrightarrow> sender s \<in> {CheckAnswer, Waiting, Woken}) \<and>
     (sender s = Waiting \<longrightarrow> receiving (cl s) \<or> (\<exists>r. receiver s = SignalSender r)) \<and>
     (sender s \<notin> {AtPrompt, SendDone} \<longrightarrow> has_line (cl s))"

lemma parse_keeps_input: "parse_cmd_input k = Inr k' \<Longrightarrow> c_input k' = c_input k"
proof -
  have "parse_cmd k = Inr k' \<Longrightarrow> c_input k' = c_input k" for k k'
    by (auto simp: parse_cmd_def split: option.split_asm)
  moreover have "parse_cmd_args k = Inr k' \<Longrightarrow> c_input k' = c_input k" for k k'
    by (auto simp: parse_cmd_args_def split: option.split_asm)
  ultimately show "parse_cmd_input k = Inr k' \<Longrightarrow> c_input k' = c_input k"
    by (fastforce simp: parse_cmd_input_def)
qed

lemma read_command_line: "read_command ok c = Inr c' \<Longrightarrow> has_line c' \<and> receiving c' = receiving c"
  by (auto simp: read_command_def has_line_def cmd_init_def split: if_splits dest!: parse_keeps_input)

lemma run_command_keeps:
  assumes "run_command c = Inr (b, c')" "has_line c"
  shows "has_line c' \<and> (\<not> b \<longrightarrow> \<not> receiving c \<longrightarrow> \<not> receiving c')"
  using assms
  by (auto simp: run_command_def keeps_def has_line_def cmd_of_def split: if_splits option.splits
      dest!: cmd_handler_keeps send_handler_keeps)

lemma send_thread_inv:
  assumes "wait_inv s" "send_thread ok s = Inr s'"
  shows "wait_inv s'"
proof (cases "sender s")
  case AtPrompt
  with assms show ?thesis
    by (auto simp: send_thread_def wait_inv_def split: if_splits dest!: read_command_line)
next
  case InCommand
  with assms(2) obtain b c where c: "run_command (cl s) = Inr (b, c)"
    "s' = (if b then s\<lparr>cl := c, sender := CheckAnswer\<rparr> else s\<lparr>cl := c, mutex := None, sender := Freeing\<rparr>)"
    by (auto simp: send_thread_def split: if_splits)
  with run_command_keeps [OF c(1)] assms(1) InCommand show ?thesis by (auto simp: wait_inv_def)
next
  case Freeing
  with assms show ?thesis by (auto simp: send_thread_def wait_inv_def free_command_def)
qed (use assms in \<open>auto simp: send_thread_def wait_inv_def split: if_splits\<close>)

lemma receive_bytes_inv:
  assumes "wait_inv s" "receiver s = Receiving" "receive_bytes s = Inr s'"
  shows "wait_inv s'"
proof -
  from assms(3) obtain w buf n where
    "s' = s\<lparr>cl := (cl s)\<lparr>cl_os := w\<rparr>, res_buf := buf, receiver := if n > (0 :: int) then GotBytes else Receiving\<rparr>"
    unfolding receive_bytes_def rbind_eq_Inr by (auto split: prod.splits)
  moreover have "has_line ((cl s)\<lparr>cl_os := w\<rparr>) = has_line (cl s)" for w by (simp add: has_line_def)
  ultimately show ?thesis using assms(1,2) by (simp add: wait_inv_def)
qed

lemma handle_response_inv:
  assumes "wait_inv s" "receiver s = Handling" "handle_response s = Inr s'"
  shows "wait_inv s'"
proof -
  let ?c = "(cl s)\<lparr>ticks := Suc (Suc (ticks (cl s)))\<rparr>"
  have h: "has_line (c\<lparr>ticks := n\<rparr>) = has_line c" "has_line (c\<lparr>receiving := b\<rparr>) = has_line c" for c n b
    by (simp_all add: has_line_def)
  from assms(3) consider "s' = s\<lparr>cl := ?c, mutex := None, receiver := Receiving\<rparr>"
    | r c3 where "recv_handler ?c r = Inr c3"
      "s' = s\<lparr>cl := c3\<lparr>receiving := False\<rparr>, mutex := None, receiver := SignalSender r\<rparr>"
    by (auto simp: handle_response_def new_block_def split: option.splits)
  then show ?thesis
  proof cases
    case 1
    with assms(1,2) show ?thesis by (auto simp: wait_inv_def h)
  next
    case 2
    from keeps_line [OF recv_handler_keeps [OF 2(1)]] have "has_line (cl s) \<longrightarrow> has_line c3" by (simp add: h)
    with 2(2) assms(1,2) show ?thesis by (auto simp: wait_inv_def h)
  qed
qed

lemma recv_thread_inv:
  assumes "wait_inv s" "recv_thread s = Inr s'"
  shows "wait_inv s'"
proof (cases "receiver s")
  case Receiving
  with assms receive_bytes_inv [OF assms(1)] show ?thesis by (auto simp: recv_thread_def wait_inv_def split: if_splits)
next
  case Handling
  with assms handle_response_inv [OF assms(1)] show ?thesis by (simp add: recv_thread_def)
qed (use assms in \<open>auto simp: recv_thread_def wait_inv_def split: if_splits\<close>)

lemma cli_states_inv: "cli_states c0 s \<Longrightarrow> wait_inv s"
proof (induction rule: cli_states.induct)
  case start
  show ?case by (simp add: wait_inv_def thread_chat_io_def)
next
  case (spurious s)
  then show ?case by (auto simp: wait_inv_def)
next
  case (outside s w b)
  then show ?case by (auto simp: wait_inv_def has_line_def)
qed (auto intro: send_thread_inv recv_thread_inv)



end
