(* ===== verification/Protocol.thy ===== *)
theory Protocol
  imports Connections Cli
begin

text \<open>
  Client and server together: a JOIN request from the command the user types, over the bytes on both
  connections, to the channel the client believes to be in; and a message from the line that is
  typed to the clients of the others.
\<close>

lemma handle_event_join:
  "join_channel_event s (channel_id req) = Inr s' \<Longrightarrow> command req = JOIN_CHANNEL \<Longrightarrow> handle_event stl s req = Inr s'"
  by (simp add: handle_event_def event_step_def command_defs)

definition join_text :: "byte list" where
  "join_text = str ''join channel''"

lemma join_text_facts: "0 \<notin> set join_text" "length join_text = 12"
  by (simp_all add: join_text_def)

text \<open>The client sends the request.\<close>

lemma join_request_sent:
  assumes "cmd_of c = Inr k" "c_args k = Some a" "typed_id a = cid" "client_of c = Inr ci" "ci_fd ci = Some fd"
    and "blks c (ticks c) = Some b" "cl_os c = \<lparr>script = answer 18 [] # rest, calls = cs\<rparr>"
  shows "\<exists>c'. join_channel_handler c = Inr c' \<and> blks c' = blks c \<and> us_channel (us c') = us_channel (us c) \<and>
    calls (cl_os c') = cs @ [(SSend fd (request_bytes 32 JOIN_CHANNEL cid join_text), 18)]"
proof -
  let ?out = "request_bytes 32 JOIN_CHANNEL cid join_text"
  let ?c1 = "c\<lparr>ticks := Suc (ticks c)\<rparr>"
  from packet_wire [of JOIN_CHANNEL join_text MD_BUFF_SIZE b cid cpt_request_reset ci] join_text_facts
  obtain r where r: "cpt_join_channel (Some b) MD_BUFF_SIZE ci cid = Inr (18, ?out, ci\<lparr>packet := Some r\<rparr>)"
    by (auto simp: cpt_join_channel_def join_text_def MD_BUFF_SIZE_def simp del: rbind_eq_Inr str_simps)
  have len: "length ?out = 18" "?out \<noteq> []" using join_text_facts by (simp_all add: request_bytes_def)
  have "send_packet MD_BUFF_SIZE (18, ?out, ci\<lparr>packet := Some r\<rparr>) ?c1 = Inr (18,
      (set_client (ci\<lparr>packet := Some r\<rparr>) ?c1)\<lparr>cl_os := \<lparr>script = rest, calls = cs @ [(SSend fd ?out, 18)]\<rparr>\<rparr>)"
    using send_packet_full [of "ci\<lparr>packet := Some r\<rparr>" fd ?c1 ?out rest cs MD_BUFF_SIZE] assms(5,7) len
    by (simp add: MD_BUFF_SIZE_def)
  with r assms(1-4,6) have "join_channel_handler c = Inr ((set_client (ci\<lparr>packet := Some r\<rparr>) ?c1)
      \<lparr>cl_os := \<lparr>script = rest, calls = cs @ [(SSend fd ?out, 18)]\<rparr>\<rparr>)"
    by (simp add: join_channel_handler_def new_block_def del: rbind_eq_Inr)
  then show ?thesis by (simp add: set_client_def)
qed

text \<open>The server serves it.\<close>

lemma join_request_served:
  assumes "sv_view (srv l) W" "view_join fd cid W = Inr (SUCCESS, W')" "0 < unat cid" "unat cid < 256"
    and "p_fd (poll_fds l i) = fd"
    and "script (sv_os (srv l)) = answer 18 (request_bytes 32 JOIN_CHANNEL cid join_text) # answer 4 [] # rest"
  shows "\<exists>l'. serve_client i l = Inr l' \<and> sv_view (srv l') W' \<and> poll_fds l' = poll_fds l \<and>
    calls (sv_os (srv l')) = calls (sv_os (srv l)) @
      [(SRecv fd LG_BUFF_SIZE, 18), (SSend fd (reply JOIN_CHANNEL [ucast cid]), 4)]"
proof -
  let ?s = "(srv l)\<lparr>current_id := fd\<rparr>"
  let ?req = "\<lparr>version = 32, command = JOIN_CHANNEL, channel_id = cid, msg_len = 0, msg = Some (join_text @ replicate 6 0)\<rparr>"
  let ?w = "\<lparr>script = answer 4 [] # rest, calls = calls (sv_os (srv l)) @ [(SRecv fd LG_BUFF_SIZE, 18)]\<rparr>"
  let ?s1 = "?s\<lparr>sv_os := ?w, clock := Suc (Suc (clock (srv l)))\<rparr>"
  have "\<forall>i. mem_ok ?s i" using view_mem [OF assms(1)] by simp
  from receive_request_bytes [OF this join_text_facts(1), of 32 JOIN_CHANNEL cid "answer 4 [] # rest"] assms(6) join_text_facts(2)
  have rec: "receive_request ?s = Inr (18, ?req, ?s1)" by simp
  have "sv_view ?s1 W" using assms(1) by simp
  from join_event_outcome_sim [OF this, of rest cid] assms(2-4) obtain s' where
    s': "join_channel_event ?s1 cid = Inr s'" "sv_view s' W'"
      "calls (sv_os s') = calls ?w @ [(SSend fd (reply JOIN_CHANNEL [ucast cid]), 4)]" by auto
  have ev: "handle_event (stale l (clock ?s1)) ?s1 ?req = Inr s'"
    by (rule handle_event_join) (use s'(1) in simp_all)
  have "dispatch (stale l (clock ?s1)) 18 ?req ?s1 = Inr (False, s')"
    unfolding dispatch_def ev by (simp add: JOIN_CHANNEL_def LOGOUT_def)
  with rec have "serve_client i l = Inr (l\<lparr>srv := s', close_conn := False\<rparr>)"
    unfolding serve_client_def assms(5) rec rbind_Inr prod.case by simp
  with s'(2,3) show ?thesis by simp
qed

text \<open>The client learns the channel.\<close>

lemma join_answer_learned:
  assumes "\<forall>n. blks (cl s) n \<noteq> None" "unat cid < 256" "res_buf s = reply JOIN_CHANNEL [ucast cid] @ buf" "0 < unat cid"
  shows "\<exists>s'. handle_response s = Inr s' \<and> us_channel (us (cl s')) = cid \<and> \<not> receiving (cl s') \<and> mutex s' = None"
proof -
  have nz: "(ucast cid :: byte) \<noteq> 0" using ucast_small_nonzero assms(2,4) by blast
  have id: "ucast (ucast cid :: byte) = cid"
    using assms(2) by (auto simp: word_unat_eq_iff unsigned_ucast_eq unsigned_take_bit_eq take_bit_nat_eq_self)
  have "cpt_parse_response (True, True) (reply JOIN_CHANNEL [ucast cid] @ buf) =
      Inr (Some \<lparr>code = JOIN_CHANNEL, data_size = 1, data = Some [ucast cid]\<rparr>)"
    using parse_response_bytes [of "[ucast cid]" JOIN_CHANNEL buf] nz by (simp add: reply_def)
  then show ?thesis
    using assms(1,3) id
    by (simp add: handle_response_def new_block_def recv_handler_def command_defs the_data_def first_byte_def set_channel_def)
qed

text \<open>C9: Joining a channel, from one end to the other. The user types the id of an existing channel between 1
  and 255; the bytes the client puts on its connection are those the server reads; the server adds
  the user to the channel, keeps the connection open and sends an answer; and from the bytes of the
  answer, whatever stands behind them in the client's buffer, the client learns the channel and
  releases the mutex with no request open.\<close>

theorem join_end_to_end:
  assumes "cmd_of c = Inr k" "c_args k = Some a" "typed_id a = cid" "client_of c = Inr ci" "ci_fd ci = Some cfd"
    and "\<forall>n. blks c n \<noteq> None" "cl_os c = \<lparr>script = answer 18 [] # crest, calls = cs\<rparr>" "p_fd (poll_fds l i) = fd"
    and "sv_view (srv l) W" "view_join fd cid W = Inr (SUCCESS, W')" "0 < unat cid" "unat cid < 256"
    and "script (sv_os (srv l)) = answer 18 request # answer 4 [] # rest"
    and "request = request_bytes 32 JOIN_CHANNEL cid join_text"
  shows "\<exists>c' l' answer_sent. join_channel_handler c = Inr c' \<and>
    calls (cl_os c') = cs @ [(SSend cfd request, 18)] \<and>
    serve_client i l = Inr l' \<and> sv_view (srv l') W' \<and> poll_fds l' = poll_fds l \<and>
    calls (sv_os (srv l')) = calls (sv_os (srv l)) @ [(SRecv fd LG_BUFF_SIZE, 18), (SSend fd answer_sent, 4)] \<and>
    (\<exists>s'. handle_response \<lparr>cl = c', mutex = Some False, sender = Waiting, receiver = Handling,
       res_buf = answer_sent @ buf\<rparr> = Inr s' \<and> us_channel (us (cl s')) = cid \<and> \<not> receiving (cl s') \<and> mutex s' = None)"
proof -
  from assms(6) obtain b where "blks c (ticks c) = Some b" by auto
  from join_request_sent [OF assms(1-5) this assms(7)] obtain c' where
    c': "join_channel_handler c = Inr c'" "blks c' = blks c" "calls (cl_os c') = cs @ [(SSend cfd request, 18)]"
    unfolding assms(14) by blast
  from join_request_served [OF assms(9-12,8)] assms(13) obtain l' where
    l': "serve_client i l = Inr l'" "sv_view (srv l') W'" "poll_fds l' = poll_fds l"
      "calls (sv_os (srv l')) = calls (sv_os (srv l)) @
         [(SRecv fd LG_BUFF_SIZE, 18), (SSend fd (reply JOIN_CHANNEL [ucast cid]), 4)]"
    unfolding assms(14) by blast
  let ?s = "\<lparr>cl = c', mutex = Some False, sender = Waiting, receiver = Handling, res_buf = reply JOIN_CHANNEL [ucast cid] @ buf\<rparr>"
  have "\<forall>n. blks (cl ?s) n \<noteq> None" using assms(6) c'(2) by simp
  from join_answer_learned [OF this assms(12) _ assms(11), of buf] c'(1,3) l' show ?thesis by auto
qed

definition joining_client :: client where
  "joining_client = (a_client 0 [answer 18 []])\<lparr>us := (us (a_client 0 []))\<lparr>us_cmd := Some
     \<lparr>c_cmd = Some (str ''@join-channel''), c_args = Some [49], c_input = Some (Some []), p_input = Some None\<rparr>\<rparr>\<rparr>"

theorem join_end_to_end_witness:
  "\<exists>s c' l' answer_sent s'. sv_view s demo \<and> join_channel_handler joining_client = Inr c' \<and>
     serve_client 7 ((first_loop (\<lambda>_. 0) s)\<lparr>poll_fds := (\<lambda>_. no_fd\<lparr>p_fd := 4\<rparr>)\<rparr>) = Inr l' \<and>
     sv_view (srv l') (2, [(1, [alice, bob]), (0, [bob, alice, root_user])]) \<and>
     calls (sv_os (srv l')) = [(SRecv 4 LG_BUFF_SIZE, 18), (SSend 4 answer_sent, 4)] \<and>
     handle_response \<lparr>cl = c', mutex = Some False, sender = Waiting, receiver = Handling, res_buf = answer_sent @ []\<rparr> = Inr s' \<and>
     us_channel (us (cl s')) = 1"
proof -
  obtain s where s: "sv_view s demo" "sv_os s = \<lparr>script = answer 18 (request_bytes 32 JOIN_CHANNEL 1 join_text) #
      answer 4 [] # [], calls = []\<rparr>" using demo_state by blast
  let ?l = "(first_loop (\<lambda>_. 0) s)\<lparr>poll_fds := (\<lambda>_. no_fd\<lparr>p_fd := 4\<rparr>)\<rparr>"
  have v: "view_join 4 1 demo = Inr (SUCCESS, 2, [(1, [alice, bob]), (0, [bob, alice, root_user])])"
    by (simp add: view_join_def demo_def global_def alice_def bob_def)
  have t: "typed_id [49] = 1" by (simp add: typed_id_def strtol_def is_digit_def is_space_def digits_value_def)
  have j: "cmd_of joining_client = Inr \<lparr>c_cmd = Some (str ''@join-channel''), c_args = Some [49],
      c_input = Some (Some []), p_input = Some None\<rparr>" "client_of joining_client = Inr (client_at 3 (str ''bob''))"
    "\<forall>n. blks joining_client n \<noteq> None" "cl_os joining_client = \<lparr>script = answer 18 [] # [], calls = []\<rparr>"
    by (simp_all add: joining_client_def a_client_def cmd_of_def client_of_def)
  have l: "p_fd (poll_fds ?l 7) = 4" "sv_view (srv ?l) demo"
    "script (sv_os (srv ?l)) = answer 18 (request_bytes 32 JOIN_CHANNEL 1 join_text) # answer 4 [] # []"
    "calls (sv_os (srv ?l)) = []" using s by (simp_all add: first_loop_def)
  have one: "0 < unat (1 :: u16)" "unat (1 :: u16) < 256" by simp_all
  have a: "c_args \<lparr>c_cmd = Some (str ''@join-channel''), c_args = Some [49],
      c_input = Some (Some []), p_input = Some None\<rparr> = Some [49]" by simp
  from join_end_to_end [OF j(1) a t j(2) client_at_simps(1) j(3,4) l(1,2) v one l(3) refl, of "[]"] l(4) s(1)
  show ?thesis by (simp only: append_Nil) blast
qed

section \<open>A message\<close>

lemma run_command_message:
  assumes "cmd_of c = Inr k" "\<not> is_valid_cmd k" "c_input k = Some (Some line)" "line \<noteq> []"
  shows "run_command c = rbind (send_handler c) (\<lambda>c1. Inr (False, c1))"
  using assms by (simp add: run_command_def)

lemma message_overread:
  assumes "\<forall>n. blks (cl s) n \<noteq> None" "0 \<notin> set t" "length t < 512" "res_buf s = reply SEND t @ buf"
    and "script (cl_os (cl s)) = a # b # c # rest" "sret a \<noteq> -1" "sret b \<noteq> -1" "sret c \<noteq> -1"
  shows "cpt_parse_response (True, True) (res_buf s) =
      Inr (Some \<lparr>code = SEND, data_size = of_nat (length t), data = Some t\<rparr>) \<and>
    handle_response s = Inl OutOfBounds"
proof -
  have parsed: "cpt_parse_response (True, True) (res_buf s) =
      Inr (Some \<lparr>code = SEND, data_size = of_nat (length t), data = Some t\<rparr>)"
    using parse_response_bytes [OF assms(2,3), of SEND buf] assms(4) by (simp add: reply_def)
  obtain cs where w: "cl_os (cl s) = \<lparr>script = a # b # c # rest, calls = cs\<rparr>"
    using assms(5) by (cases "cl_os (cl s)") auto
  have t: "cstring t = Inl OutOfBounds" using cstring_open [OF assms(2)] .
  have "recv_handler (cl s\<lparr>ticks := n\<rparr>) \<lparr>code = SEND, data_size = of_nat (length t), data = Some t\<rparr> = Inl OutOfBounds" for n
    using assms(3,6-8) w t
    by (simp add: recv_handler_def command_defs shmem_attach_ok the_data_def BLOCK_SIZE_def del: rbind_eq_Inr)
  then show ?thesis
    using assms(1) parsed by (simp add: handle_response_def new_block_def)
qed

text \<open>C10: A chat message, from one end to the other. A line that is no command, typed by a user, is sent with its
  prefix as one SEND request to the global channel, and is left in the block of the user's own
  messenger; the server passes it, once and complete, to every member but the sender; but no client can show it: the
  parsed text has no terminator, and copying it into the block of the messenger reads past its end.
  If the prefix and the line do not fit into 255 bytes, the buffer of the sender overflows instead.\<close>

theorem message_end_to_end:
  assumes "client_of c = Inr ci" "ci_fd ci = Some cfd" "ci_name ci = Some (Some (name @ [0]))" "0 \<notin> set name"
    and "cmd_of c = Inr k" "\<not> is_valid_cmd k" "c_input k = Some (Some line)" "line \<noteq> []" "0 \<notin> set line"
    and "t = message_text name (us_channel (us c)) line" "ci_channel ci = 0" "blks c (ticks c) = Some b" "length (block c) = 4096"
    and "cl_os c = \<lparr>script = [answer (int (length t + 6)) [], a1, a2, a3, a4], calls = cs\<rparr>"
    and "sret a1 \<noteq> -1" "sret a2 \<noteq> -1" "sret a3 \<noteq> -1"
    and "sv_view (srv l) W" "map_of (snd W) 0 = Some members" "members \<noteq> []" "p_fd (poll_fds l i) = fd"
    and "\<And>n. stale l n \<notin> {GET_USERS, CREATE_CHANNEL, LEAVE_CHANNEL, JOIN_CHANNEL}"
    and "script (sv_os (srv l)) = answer (int (length t + 6)) request #
      replicate (length (receivers fd members)) (answer (int (length t + 3)) []) @ rest"
    and "request = request_bytes 32 SEND 0 t"
  shows "if length t < 256
    then (\<exists>c'. run_command c = Inr (False, c') \<and> block c' = t @ drop (length t) (block c) \<and>
        delivered cfd (calls (cl_os c')) = delivered cfd cs @ request) \<and>
      (\<exists>l'. serve_client i l = Inr l' \<and> sv_view (srv l') W \<and>
        calls (sv_os (srv l')) = calls (sv_os (srv l)) @ (SRecv fd LG_BUFF_SIZE, int (length t + 6)) #
          sent_to (reply SEND t) (receivers fd members)) \<and>
      (\<forall>s buf x y z more. (\<forall>n. blks (cl s) n \<noteq> None) \<and> res_buf s = reply SEND t @ buf \<and>
          script (cl_os (cl s)) = x # y # z # more \<and> sret x \<noteq> -1 \<and> sret y \<noteq> -1 \<and> sret z \<noteq> -1 \<longrightarrow>
        cpt_parse_response (True, True) (res_buf s) =
          Inr (Some \<lparr>code = SEND, data_size = of_nat (length t), data = Some t\<rparr>) \<and>
        handle_response s = Inl OutOfBounds)
    else run_command c = Inl OutOfBounds"
proof -
  note sent = send_handler_sends [OF assms(1-5,7,9,10,12-17)]
  note run = run_command_message [OF assms(5-8)]
  show ?thesis
  proof (cases "length t < 256")
    case False
    with sent show ?thesis by (simp add: run)
  next
    case True
    have t0: "0 \<notin> set t" using assms(4,9,10) by (simp add: message_text_def)
    have len: "length t + 6 < 512" "length t < 512" using True by simp_all
    from sent True assms(11) obtain c' where "send_handler c = Inr c'" "block c' = t @ drop (length t) (block c)"
      "delivered cfd (calls (cl_os c')) = delivered cfd cs @ request_bytes 32 SEND 0 t" by auto
    then have "\<exists>c'. run_command c = Inr (False, c') \<and> block c' = t @ drop (length t) (block c) \<and>
      delivered cfd (calls (cl_os c')) = delivered cfd cs @ request" by (simp add: run assms(24))
    moreover from serve_send_sim [OF assms(18-20) t0 len(1) assms(21,22)] assms(23,24)
    have "\<exists>l'. serve_client i l = Inr l' \<and> sv_view (srv l') W \<and>
        calls (sv_os (srv l')) = calls (sv_os (srv l)) @ (SRecv fd LG_BUFF_SIZE, int (length t + 6)) #
          sent_to (reply SEND t) (receivers fd members)" by blast
    moreover have "\<forall>s buf x y z more. (\<forall>n. blks (cl s) n \<noteq> None) \<and> res_buf s = reply SEND t @ buf \<and>
          script (cl_os (cl s)) = x # y # z # more \<and> sret x \<noteq> -1 \<and> sret y \<noteq> -1 \<and> sret z \<noteq> -1 \<longrightarrow>
        cpt_parse_response (True, True) (res_buf s) =
          Inr (Some \<lparr>code = SEND, data_size = of_nat (length t), data = Some t\<rparr>) \<and>
        handle_response s = Inl OutOfBounds"
      by (intro allI impI, rule message_overread [OF _ t0 len(2)]) auto
    ultimately show ?thesis using True by (simp only: if_True)
  qed
qed

theorem message_end_to_end_witness:
  "\<exists>s c' l'. sv_view s demo \<and> run_command (a_client 0 (hi_answers 0)) = Inr (False, c') \<and>
     delivered 3 (calls (cl_os c')) = request_bytes 32 SEND 0 (hi_text 0) \<and>
     serve_client 7 ((first_loop (\<lambda>_. 0) s)\<lparr>poll_fds := (\<lambda>_. no_fd\<lparr>p_fd := 4\<rparr>)\<rparr>) = Inr l' \<and>
     calls (sv_os (srv l')) = (SRecv 4 LG_BUFF_SIZE, int (length (hi_text 0) + 6)) #
       sent_to (reply SEND (hi_text 0)) [bob]"
proof -
  obtain s where s: "sv_view s demo" "sv_os s = \<lparr>script = answer (int (length (hi_text 0) + 6)) (request_bytes 32 SEND 0 (hi_text 0)) #
      [answer (int (length (hi_text 0) + 3)) []], calls = []\<rparr>" using demo_state by blast
  let ?l = "(first_loop (\<lambda>_. 0) s)\<lparr>poll_fds := (\<lambda>_. no_fd\<lparr>p_fd := 4\<rparr>)\<rparr>"
  have r: "receivers 4 [bob, alice, root_user] = [bob]" by (simp add: receivers_def bob_def alice_def root_user_def)
  have l: "sv_view (srv ?l) demo" "map_of (snd demo) 0 = Some [bob, alice, root_user]" "[bob, alice, root_user] \<noteq> []"
    "p_fd (poll_fds ?l 7) = 4" "\<And>n. stale ?l n \<notin> {GET_USERS, CREATE_CHANNEL, LEAVE_CHANNEL, JOIN_CHANNEL}"
    "script (sv_os (srv ?l)) = answer (int (length (hi_text 0) + 6)) (request_bytes 32 SEND 0 (hi_text 0)) #
      replicate (length (receivers 4 [bob, alice, root_user])) (answer (int (length (hi_text 0) + 3)) []) @ []"
    "calls (sv_os (srv ?l)) = []"
    using s by (simp_all add: first_loop_def demo_def r command_defs del: str_simps)
  have k: "\<not> is_valid_cmd (typed (str ''hi'' @ [10]))" "str ''hi'' @ [10] \<noteq> []"
    by (simp_all add: is_valid_cmd_def typed_def)
  note q = a_client_premises
  note message_end_to_end [where c = "a_client 0 (hi_answers 0)", OF q(1-5) k(1) q(6) k(2) q(7,8) client_at_simps(3)
      q(9-14) l(1-6) refl]
  then show ?thesis using length_hi_text [of 0] s(1) l(7) r by (simp only: if_True) auto
qed

end
