(* ===== verification/Login.thy ===== *)
theory Login
  imports Protocol
begin

text \<open>
  A login, from the command line of the client to the directory of the server.
\<close>

section \<open>The client\<close>

lemma init_list_data_total: "\<exists>p h'. init_list_data h (Some x) = Inr (p, h')"
proof -
  have "avoids UNIV (init_list_data h (Some x))"
    by (auto simp: init_list_data_def create_node_def intro!: avoids_rbind split: prod.split option.split)
  then show ?thesis by (cases "init_list_data h (Some x)") auto
qed

lemma client_info_made:
  assumes "cstring p = Inr pt" "cstring a = Inr at"
  shows "\<exists>ci h'. cpt_init_client_info True (Some b) h (Some p) (Some a) = Inr (Some ci, h')"
proof -
  obtain q h' where "init_list_data h (Some (0 :: u16)) = Inr (q, h')" using init_list_data_total [of h 0] by blast
  with assms show ?thesis by (simp add: cpt_init_client_info_def cpt_request_init_def)
qed

lemma client_connects:
  assumes "0 \<le> fd" "sret r1 \<noteq> -1" "0 \<le> sret r2"
  shows "\<exists>log. tcp_init_client host port \<lparr>script = answer 0 [] # answer fd [] # r1 # r2 # rest, calls = cs\<rparr> =
      Inr (fd, \<lparr>script = rest, calls = cs @ log\<rparr>) \<and> delivered k log = []"
  using assms
  by (simp add: tcp_init_client_def tcp_client_addr_def addr_result_def tcp_client_socket_def new_socket_def deref_addr_def
      tcp_client_sock_opt_def sock_opt_def tcp_client_connect_def log_call_def Let_def del: rbind_eq_Inr)

lemma client_recv_full:
  assumes "length resp \<le> 512"
  shows "tcp_client_recv fd (replicate LG_BUFF_SIZE 0) \<lparr>script = answer (int (length resp)) resp # rest, calls = cs\<rparr> =
    Inr (int (length resp), resp @ replicate (1024 - length resp) 0,
      \<lparr>script = rest, calls = cs @ [(SRecv fd MD_BUFF_SIZE, int (length resp))]\<rparr>)"
  using assms by (simp add: tcp_client_recv_def recv_into_def LG_BUFF_SIZE_def MD_BUFF_SIZE_def)

text \<open>The request, and whatever the answer says.\<close>

lemma login_handler_sends:
  assumes "client_of c = Inr ci" "ci_fd ci = Some fd" "0 \<notin> set t" "length t + 6 < 512" "\<forall>n. blks c n \<noteq> None"
    and "cl_os c = \<lparr>script = answer (int (length t + 6)) [] # answer (int (length resp)) resp # rest, calls = cs\<rparr>"
    and "resp = reply k u" "0 \<notin> set u" "length u + 3 \<le> 512"
  shows "\<exists>c' ci'. login_handler c (Some (t @ [0])) = Inr (int (length t + 6), c') \<and> client_of c' = Inr ci' \<and>
    ci_fd ci' = Some fd \<and> ci_channel ci' = 0 \<and> blks c' = blks c \<and>
    cl_os c' = \<lparr>script = rest, calls = cs @
      [(SSend fd (request_bytes 32 LOGIN 0 t), int (length t + 6)), (SRecv fd MD_BUFF_SIZE, int (length resp))]\<rparr>"
proof -
  let ?out = "request_bytes 32 LOGIN 0 t"
  from assms(5) obtain b where b: "blks c (ticks c) = Some b" by auto
  let ?c1 = "c\<lparr>ticks := Suc (ticks c)\<rparr>"
  have "length t + 6 \<le> LG_BUFF_SIZE" using assms(4) by (simp add: LG_BUFF_SIZE_def)
  from packet_wire [OF _ assms(3,4) this, of LOGIN b 0 "\<lambda>r. r" ci]
  obtain r where sent: "cpt_login (Some b) LG_BUFF_SIZE ci (Some (t @ [0])) =
      Inr (int (length ?out), ?out, ci\<lparr>packet := Some r\<rparr>)"
    by (auto simp: cpt_login_def simp del: rbind_eq_Inr)
  let ?w = "\<lparr>script = answer (int (length resp)) resp # rest, calls = cs @ [(SSend fd ?out, int (length ?out))]\<rparr>"
  have pk: "send_packet LG_BUFF_SIZE (int (length ?out), ?out, ci\<lparr>packet := Some r\<rparr>) ?c1 =
      Inr (int (length ?out), (set_client (ci\<lparr>packet := Some r\<rparr>) ?c1)\<lparr>cl_os := ?w\<rparr>)"
    by (rule send_packet_full) (use assms(2,4,6) in \<open>simp_all add: LG_BUFF_SIZE_def request_bytes_def\<close>)
  have recv: "tcp_client_recv fd (replicate LG_BUFF_SIZE 0) ?w = Inr (int (length resp), resp @ replicate (1024 - length resp) 0,
      \<lparr>script = rest, calls = calls ?w @ [(SRecv fd MD_BUFF_SIZE, int (length resp))]\<rparr>)"
    by (rule client_recv_full [THEN trans]) (use assms(7,9) in simp_all)
  obtain v where parsed: "cpt_parse_response (True, True) (resp @ replicate (1024 - length resp) 0) = Inr v"
    using parse_response_bytes [OF assms(8), of k "replicate (1024 - length resp) 0"] assms(7,9) by (simp add: reply_def)
  have nf: "int (length ?out) \<noteq> SYS_CALL_FAIL" by (simp add: SYS_CALL_FAIL_def)
  have nm: "cstring (t @ [0]) = Inr t" using assms(3) by simp
  show ?thesis
    unfolding login_handler_def new_block_def prod.case b client_of_ticks assms(1) rbind_Inr sent pk
    using assms(2,5) nf nm recv parsed
    by (simp add: client_of_def set_client_def Let_def)
qed

lemma user_login_sends:
  assumes "cstring p = Inr pt" "cstring a = Inr at" "0 \<notin> set t" "length t + 6 < 512" "\<forall>n. blks c n \<noteq> None"
    and "cl_os c = \<lparr>script = answer 0 [] # answer fd [] # r1 # r2 # answer (int (length t + 6)) [] #
      answer (int (length resp)) resp # r3 # rest, calls = cs\<rparr>"
    and "0 \<le> fd" "sret r1 \<noteq> -1" "0 \<le> sret r2" "resp = reply k u" "0 \<notin> set u" "length u + 3 \<le> 512"
  shows "\<exists>c' h' ci. user_login c h (Some a) (Some p) (Some (t @ [0])) = Inr (c', h') \<and> logged_in (us c') \<and>
    us_channel (us c') = 0 \<and> us_client (us c') = Some ci \<and> ci_fd ci = Some fd \<and> ci_name ci = Some (Some (t @ [0])) \<and>
    ci_channel ci = 0 \<and> script (cl_os c') = rest \<and> blks c' = blks c \<and>
    delivered fd (calls (cl_os c')) = delivered fd cs @ request_bytes 32 LOGIN 0 t"
proof -
  from assms(5) obtain b b0 where b: "blks c (Suc (ticks c)) = Some b" "blks c (ticks c) = Some b0" by force
  obtain ci h' where ci: "cpt_init_client_info True (Some b) h (Some p) (Some a) = Inr (Some ci, h')"
    using client_info_made [OF assms(1,2)] by blast
  from client_connects [OF assms(7-9), of "Some a" "Some p" "answer (int (length t + 6)) [] # answer (int (length resp)) resp # r3 # rest" cs fd]
  obtain log where log: "tcp_init_client (Some a) (Some p) (cl_os c) = Inr (fd,
      \<lparr>script = answer (int (length t + 6)) [] # answer (int (length resp)) resp # r3 # rest, calls = cs @ log\<rparr>)" "delivered fd log = []"
    unfolding assms(6) by blast
  let ?c2 = "c\<lparr>ticks := Suc (Suc (ticks c))\<rparr>"
  let ?c3 = "(set_client (ci\<lparr>ci_fd := Some fd, ci_name := Some (Some (t @ [0]))\<rparr>) ?c2)
      \<lparr>cl_os := \<lparr>script = answer (int (length t + 6)) [] # answer (int (length resp)) resp # r3 # rest, calls = cs @ log\<rparr>\<rparr>"
  have c3: "client_of ?c3 = Inr (ci\<lparr>ci_fd := Some fd, ci_name := Some (Some (t @ [0]))\<rparr>)" "\<forall>n. blks ?c3 n \<noteq> None"
    "blks ?c3 = blks c" using assms(5) by (simp_all add: client_of_def set_client_def)
  from login_handler_sends [OF c3(1) _ assms(3,4) c3(2) _ assms(10-12), of fd "r3 # rest" "cs @ log"] c3(3)
  obtain c4 ci4 where c4: "login_handler ?c3 (Some (t @ [0])) = Inr (int (length t + 6), c4)" "client_of c4 = Inr ci4"
      "ci_fd ci4 = Some fd" "ci_channel ci4 = 0" "blks c4 = blks c"
      "cl_os c4 = \<lparr>script = r3 # rest, calls = (cs @ log) @
        [(SSend fd (request_bytes 32 LOGIN 0 t), int (length t + 6)), (SRecv fd MD_BUFF_SIZE, int (length resp))]\<rparr>"
    by (auto simp del: of_nat_add)
  have nm: "cstring (t @ [0]) = Inr t" using assms(3) by simp
  have "user_login c h (Some a) (Some p) (Some (t @ [0])) = Inr ((set_client (ci4\<lparr>ci_name := Some (Some (t @ [0]))\<rparr>) c4)
      \<lparr>cl_os := \<lparr>script = rest, calls = calls (cl_os c4) @ [(SIoctl fd, sret r3)]\<rparr>,
       us := (us (set_client (ci4\<lparr>ci_name := Some (Some (t @ [0]))\<rparr>) c4))\<lparr>logged_in := True, us_channel := 0\<rparr>\<rparr>, h')"
    unfolding user_login_def option.case new_block_def prod.case
    using b c4(1,2,6) by (simp add: ci log(1) nm Let_def del: rbind_eq_Inr of_nat_add)
  with c4(2-6) log(2) show ?thesis by (simp add: set_client_def del: of_nat_add)
qed

text \<open>C16: A login, from one end to the other. The bytes that the client puts on its new connection are those the server
  reads. A name of at most twelve characters puts the user in front of the global channel; a longer one leaves
  the directory alone. In both cases the server keeps the descriptor and answers, and in both cases, whatever the
  answer says, the client takes itself to be logged in under this name in the global channel.\<close>

theorem login_end_to_end:
  assumes "cstring p = Inr pt" "cstring a = Inr at" "0 \<notin> set t" "length t + 6 < 512" "\<forall>n. blks c n \<noteq> None"
    and "cl_os c = \<lparr>script = answer 0 [] # answer cfd [] # r1 # r2 # answer (int (length t + 6)) [] #
      answer (int (length resp)) resp # r3 # crest, calls = cs\<rparr>"
    and "0 \<le> cfd" "sret r1 \<noteq> -1" "0 \<le> sret r2"
    and "sv_view (srv l) W" "global W \<noteq> []" "0 \<le> fd"
    and "table_ok l" "nfds l < MAX_SERVER_FDS" "\<not> compress_array l" "\<not> is_fatal_error l"
    and "script (sv_os (srv l)) = answer 1 [POLLIN] # answer fd [] # answer (int (length t + 6)) request #
      answer (int (length resp)) [] # e # rest" "sret e < 0"
    and "request = request_bytes 32 LOGIN 0 t"
    and "resp = (if length t \<le> MAX_NAME_SIZE then reply LOGIN (str ''Success!'') else reply (of_int FAILURE) (str ''Failure''))"
  shows "(\<exists>l'. run_round l = Inr (False, l') \<and>
      sv_view (srv l') (if length t \<le> MAX_NAME_SIZE then view_login (login_user fd t) W else W) \<and>
      descriptors (nfds l') (poll_fds l') = descriptors (nfds l) (poll_fds l) @ [fd] \<and>
      delivered fd (calls (sv_os (srv l'))) = delivered fd (calls (sv_os (srv l))) @ resp) \<and>
    (\<exists>c' h' ci. user_login c h (Some a) (Some p) (Some (t @ [0])) = Inr (c', h') \<and>
      delivered cfd (calls (cl_os c')) = delivered cfd cs @ request \<and> logged_in (us c') \<and> us_channel (us c') = 0 \<and>
      us_client (us c') = Some ci \<and> ci_fd ci = Some cfd \<and> ci_name ci = Some (Some (t @ [0])))"
proof
  show "\<exists>l'. run_round l = Inr (False, l') \<and>
      sv_view (srv l') (if length t \<le> MAX_NAME_SIZE then view_login (login_user fd t) W else W) \<and>
      descriptors (nfds l') (poll_fds l') = descriptors (nfds l) (poll_fds l) @ [fd] \<and>
      delivered fd (calls (sv_os (srv l'))) = delivered fd (calls (sv_os (srv l))) @ resp"
  proof (cases "length t \<le> MAX_NAME_SIZE")
    case True
    with assms(17,19,20) have "script (sv_os (srv l)) = answer 1 [POLLIN] # answer fd [] #
        answer (int (length t + 6)) (request_bytes 32 LOGIN 0 t) # answer 11 [] # e # rest" by (simp add: str_answers)
    from login_round_sim [OF assms(10-12,3) True assms(13-16) this assms(18)] True assms(20) show ?thesis by simp
  next
    case False
    with assms(17,19,20) have "script (sv_os (srv l)) = answer 1 [POLLIN] # answer fd [] #
        answer (int (length t + 6)) (request_bytes 32 LOGIN 0 t) # answer 10 [] # e # rest" by (simp add: str_answers)
    from refused_round_sim [OF assms(10,12,3) _ assms(4,13-16) this assms(18)] False assms(20) show ?thesis by simp
  qed
  from assms(20) obtain k u where u: "resp = reply k u" "0 \<notin> set u" "length u + 3 \<le> 512"
    by (cases "length t \<le> MAX_NAME_SIZE") (auto simp: str_answers simp del: str_simps)
  from user_login_sends [OF assms(1-9) u] assms(19)
  show "\<exists>c' h' ci. user_login c h (Some a) (Some p) (Some (t @ [0])) = Inr (c', h') \<and>
      delivered cfd (calls (cl_os c')) = delivered cfd cs @ request \<and> logged_in (us c') \<and> us_channel (us c') = 0 \<and>
      us_client (us c') = Some ci \<and> ci_fd ci = Some cfd \<and> ci_name ci = Some (Some (t @ [0]))" by blast
qed

text \<open>The client of the user \<open>eve\<close>, and the server she connects to.\<close>

definition eve_client :: "sysret list \<Rightarrow> client" where
  "eve_client rest = \<lparr>us = \<lparr>us_pid = None, us_cmd = None, us_channel = 0, us_client = None, logged_in = False\<rparr>,
     cl_os = \<lparr>script = answer 0 [] # answer 3 [] # answer 0 [] # answer 0 [] # answer (int (length (str ''eve'') + 6)) [] #
       answer (int (length (reply LOGIN (str ''Success!'')))) (reply LOGIN (str ''Success!'')) # answer 0 [] # rest, calls = []\<rparr>,
     block = replicate 4096 0, receiving = False, blks = (\<lambda>_. Some fresh_block), ticks = 0\<rparr>"

lemma eve_client_premises:
  "cstring (PORT_8080 @ [0]) = Inr PORT_8080" "cstring (IP_LOCAL_LB @ [0]) = Inr IP_LOCAL_LB"
  "0 \<notin> set (str ''eve'')" "length (str ''eve'') + 6 < 512" "\<forall>n. blks (eve_client rest) n \<noteq> None"
  by (rule cstring_append_zero, simp add: PORT_8080_def, rule cstring_append_zero, simp add: IP_LOCAL_LB_def)
    (simp_all add: eve_client_def)

lemma eve_client_os:
  "cl_os (eve_client rest) = \<lparr>script = answer 0 [] # answer 3 [] # answer 0 [] # answer 0 [] #
     answer (int (length (str ''eve'') + 6)) [] # answer (int (length (reply LOGIN (str ''Success!''))))
       (reply LOGIN (str ''Success!'')) # answer 0 [] # rest, calls = []\<rparr>"
  by (simp add: eve_client_def)

theorem login_end_to_end_witness:
  "\<forall>h. \<exists>l l' J c' h' ci. rounds (\<lambda>_. 0) (booted eve_connects) l \<and> run_round l = Inr (False, l') \<and>
     sv_view (srv l') (J, [(0, [login_user 5 (str ''eve''), root_user])]) \<and> descriptors (nfds l') (poll_fds l') = [3, 5] \<and>
     user_login (eve_client []) h (Some (IP_LOCAL_LB @ [0])) (Some (PORT_8080 @ [0])) (Some (str ''eve'' @ [0])) = Inr (c', h') \<and>
     delivered 3 (calls (cl_os c')) = request_bytes 32 LOGIN 0 (str ''eve'') \<and> us_client (us c') = Some ci \<and>
     ci_name ci = Some (Some (str ''eve'' @ [0]))"
proof
  fix h :: "u16 lheap"
  obtain l cs J where l: "rounds (\<lambda>_. 0) (booted eve_connects) l" "sv_os (srv l) = \<lparr>script = eve_connects, calls = cs\<rparr>"
    "sv_view (srv l) (J, [(0, [root_user])])" "gcfd l = 3" "nfds l = 1" "\<not> is_fatal_error l" using booted_first by blast
  from rounds_keep [OF booted_fresh l(1)] have c: "table_ok l" "\<not> compress_array l" by (auto simp: clean_def)
  then have d: "descriptors (nfds l) (poll_fds l) = [3]" using l(4,5) by (simp add: descriptors_def table_ok_def)
  have g: "global (J, [(0, [root_user])]) \<noteq> []" "nfds l < MAX_SERVER_FDS" using l(5) by (simp_all add: global_def MAX_SERVER_FDS_def)
  have short: "length (str ''eve'') \<le> MAX_NAME_SIZE" by (simp add: MAX_NAME_SIZE_def)
  have sc: "script (sv_os (srv l)) = answer 1 [POLLIN] # answer 5 [] #
      answer (int (length (str ''eve'') + 6)) (request_bytes 32 LOGIN 0 (str ''eve'')) #
      answer (int (length (reply LOGIN (str ''Success!'')))) [] # answer (-1) [] # []"
    using l(2) by (simp add: eve_connects_def str_answers)
  have resp: "reply LOGIN (str ''Success!'') = (if length (str ''eve'') \<le> MAX_NAME_SIZE
      then reply LOGIN (str ''Success!'') else reply (of_int FAILURE) (str ''Failure''))" using short by (simp only: if_True)
  have r: "(0 :: int) \<le> 3" "sret (answer 0 []) \<noteq> -1" "0 \<le> sret (answer 0 [])" "(0 :: int) \<le> 5" by simp_all
  from login_end_to_end [where h = h and crest = "[]", OF eve_client_premises(1-5) eve_client_os r(1-3) l(3) g(1) r(4) c(1) g(2) c(2) l(6) sc
      eve_premises(3) refl resp] short l(1) d
  show "\<exists>l l' J c' h' ci. rounds (\<lambda>_. 0) (booted eve_connects) l \<and> run_round l = Inr (False, l') \<and>
     sv_view (srv l') (J, [(0, [login_user 5 (str ''eve''), root_user])]) \<and> descriptors (nfds l') (poll_fds l') = [3, 5] \<and>
     user_login (eve_client []) h (Some (IP_LOCAL_LB @ [0])) (Some (PORT_8080 @ [0])) (Some (str ''eve'' @ [0])) = Inr (c', h') \<and>
     delivered 3 (calls (cl_os c')) = request_bytes 32 LOGIN 0 (str ''eve'') \<and> us_client (us c') = Some ci \<and>
     ci_name ci = Some (Some (str ''eve'' @ [0]))" by (simp only: if_True) (auto simp: view_login_def global_def simp del: str_simps)
qed

end
