(* ===== verification/Client_Defined.thy ===== *)
theory Client_Defined
  imports Login
begin

text \<open>
  The fields of the client's structures are written before they are read. \<open>UserState\<close>, \<open>ClientInfo\<close> and the
  command are allocated with fields that hold whatever the block held; the outer \<open>None\<close> of such a field
  is the mark of that, and reading it is the fault \<open>Uninit\<close>.
\<close>

section \<open>Faults of a wild value\<close>

text \<open>What a value of the wrong kind leads to: a field that was not written, a pointer that is wild or
  freed, a chain with a cycle.\<close>

definition wild :: "fault set" where
  "wild = {Uninit, BadFree, Dangling, Diverge}"

lemma wild_faults [simp]:
  "Uninit \<in> wild" "BadFree \<in> wild" "Dangling \<in> wild" "Diverge \<in> wild"
  "NullDeref \<notin> wild" "OutOfBounds \<notin> wild" "Blocked \<notin> wild" "ExitProcess n \<notin> wild"
  by (simp_all add: wild_def)

abbreviation defined :: "'a res \<Rightarrow> bool" where
  "defined \<equiv> avoids wild"

lemma defined_sys [simp]: "defined (sys c w)"
  by (simp add: sys_def split: list.split)

lemma defined_cstring [simp]: "defined (cstring a)" "defined (cstrlen a)"
proof -
  show "defined (cstrlen a)" by (auto simp: avoids_def cstrlen_eq_Inl)
  then show "defined (cstring a)" by (auto simp: cstring_def intro!: avoids_rbind)
qed

lemma defined_parts [simp]:
  "defined (recv_into fd n buf w)" "defined (unpacku16 b)" "defined (copy_word n s)"
  "defined (shmem_attach f w)" "defined (shmem_detach w)" "defined (store_text t b)" "defined (first_byte d)"
  "defined (is_cmd k v)" "defined (the_data r)" "defined (cmd_get_input w)" "defined (client_of c)" "defined (cmd_of c)"
  by (auto simp: recv_into_def unpacku16_def copy_word_def shmem_attach_def get_shared_block_def shmem_detach_def
      store_text_def first_byte_def is_cmd_def the_data_def cmd_get_input_def client_of_def cmd_of_def Let_def
      intro!: avoids_rbind split: list.split option.split)

lemma defined_response [simp]: "defined (cpt_parse_response oks buf)"
proof (cases buf)
  case Nil
  then show ?thesis by (simp add: cpt_parse_response_def)
next
  case (Cons b bs)
  then show ?thesis
    by (auto simp: cpt_parse_response_def parse_response_fields parse_512s Let_def
        intro!: avoids_rbind split: option.split simp del: parse.simps)
qed

lemma defined_serialize [simp]: "defined (cpt_serialize_packet cap r)"
  by (auto simp: cpt_serialize_packet_def Let_def intro!: avoids_rbind split: option.split)

text \<open>The number of bytes of a packet is positive, and neither conversion changes it.\<close>

lemma serialized_size:
  assumes "cpt_serialize_packet cap r = Inr (n, out)" "cap < 65536"
  shows "0 < size16 n" "0 < uint n"
proof -
  from serialize_size [OF assms(1) [unfolded cpt_serialize_packet_def]] assms(2)
  have n: "n = of_nat (length out)" "length out < 65536" by simp_all
  from assms(1) have "0 < length out"
    by (auto simp: cpt_serialize_packet_def Let_def split: option.splits if_splits)
  moreover have u: "uint n = int (length out)" using uint_u32_len [of "length out"] n by simp
  moreover have "size16 n = int (length out)"
    using n u by (simp add: size16_def unsigned_ucast_eq take_bit_int_eq_self)
  ultimately show "0 < size16 n" "0 < uint n" by simp_all
qed

section \<open>Calls\<close>

text \<open>A call leaves the descriptor and the name alone, and has bytes to send.\<close>

definition sendable :: "client_info \<Rightarrow> sent res \<Rightarrow> bool" where
  "sendable ci m \<longleftrightarrow> gives wild m (\<lambda>(n, out, ci'). 0 < n \<and> ci_fd ci' = ci_fd ci \<and> ci_name ci' = ci_name ci)"

lemma defined_packets [simp]: "defined (new_packet blk ch c)" "defined (cpt_request_msg m r)"
  by (auto simp: new_packet_def cpt_request_msg_def intro!: avoids_rbind split: option.split)

lemma calls_sendable:
  assumes "cap < 65536"
  shows "sendable ci (cpt_login blk cap ci name)" "sendable ci (cpt_logout cap ci)" "sendable ci (cpt_get_users cap ci cid)"
    "sendable ci (cpt_send blk cap ci m)" "sendable ci (cpt_join_channel blk cap ci cid)"
    "sendable ci (cpt_create_channel blk cap ci l)" "sendable ci (cpt_create_vchannel blk cap ci l)"
    "cid \<noteq> 0 \<Longrightarrow> sendable ci (cpt_leave_channel blk cap ci cid)"
  using serialized_size [OF _ assms]
  by (auto simp: sendable_def gives_def res_post_def client_calls cpt_logout_def cpt_get_users_def Let_def
      intro!: avoids_rbind split: option.splits prod.splits)

lemma send_loop_sent: "send_loop fd buf n l r w = Inr (x, w') \<Longrightarrow> 0 < l \<or> r \<noteq> None \<Longrightarrow> x \<noteq> None"
proof (induction fd buf n l r w rule: send_loop.induct)
  case (1 fd buf n l r w)
  from 1(2) show ?case
    by (subst (asm) send_loop.simps) (use 1(1,3) in \<open>auto split: if_splits\<close>)
qed

lemma send_loop_defined [simp]: "defined (send_loop fd buf n l r w)"
proof (induction fd buf n l r w rule: send_loop.induct)
  case (1 fd buf n l r w)
  show ?case
    by (subst send_loop.simps) (auto intro!: avoids_rbind simp: 1 split: prod.splits)
qed

lemma client_send_defined: "0 < n \<Longrightarrow> defined (tcp_client_send fd buf n w)"
  by (auto simp: tcp_client_send_def client_send_def intro!: avoids_rbind dest: send_loop_sent split: option.split)

section \<open>The handlers\<close>

definition fields_set :: "client \<Rightarrow> bool" where
  "fields_set c \<longleftrightarrow> us_pid (us c) \<noteq> None \<and>
     (\<exists>ci. us_client (us c) = Some ci \<and> ci_fd ci \<noteq> None \<and> ci_name ci \<noteq> None)"

lemma fields_set_updates [simp]:
  "fields_set (c\<lparr>ticks := n\<rparr>) = fields_set c" "fields_set (c\<lparr>cl_os := w\<rparr>) = fields_set c"
  "fields_set (c\<lparr>block := b\<rparr>) = fields_set c" "fields_set (c\<lparr>receiving := r\<rparr>) = fields_set c"
  "fields_set (c\<lparr>us := (us c)\<lparr>us_cmd := k\<rparr>\<rparr>) = fields_set c" "fields_set (set_channel cid c) = fields_set c"
  "fields_set (c\<lparr>us := (us c)\<lparr>logged_in := l\<rparr>\<rparr>) = fields_set c"
  by (simp_all add: fields_set_def set_channel_def)

lemma fields_setE:
  assumes "fields_set c" "client_of c = Inr ci"
  obtains fd nm where "ci_fd ci = Some fd" "ci_name ci = Some nm"
  using assms by (auto simp: fields_set_def client_of_def)

lemma fields_setD: "fields_set c \<Longrightarrow> \<exists>ci. client_of c = Inr ci"
  by (auto simp: fields_set_def client_of_def)

text \<open>What every handler does with the packet of a call.\<close>

lemma send_packet_fields:
  assumes "fields_set c" "client_of c = Inr ci" "sendable ci (Inr sent)"
  shows "gives wild (send_packet cap sent c) (\<lambda>(_, c'). fields_set c')"
proof -
  obtain n out ci' where s: "sent = (n, out, ci')" by (cases sent)
  obtain fd nm where f: "ci_fd ci = Some fd" "ci_name ci = Some nm" by (rule fields_setE [OF assms(1,2)])
  with s assms(3) have c: "0 < n" "ci_fd ci' = Some fd" "ci_name ci' = Some nm" by (simp_all add: sendable_def)
  then have "fields_set ((set_client ci' c)\<lparr>cl_os := w\<rparr>)" for w
    using assms(1) by (simp add: fields_set_def set_client_def)
  with c s client_send_defined [OF c(1)] show ?thesis
    by (auto simp: send_packet_def intro!: gives_rbind [OF gives_any])
qed

lemma call_sent:
  assumes "fields_set c" "client_of c = Inr ci" "sendable ci m"
    and "\<And>r c'. fields_set c' \<Longrightarrow> gives wild (f (r, c')) P"
  shows "gives wild (rbind m (\<lambda>sent. rbind (send_packet cap sent c) f)) P"
proof (rule gives_rbind)
  show "gives wild m (\<lambda>sent. sendable ci (Inr sent))" using assms(3) by (simp add: sendable_def)
  fix sent assume "sendable ci (Inr sent)"
  from send_packet_fields [OF assms(1,2) this]
  show "gives wild (rbind (send_packet cap sent c) f) P"
    by (rule gives_rbind) (use assms(4) in auto)
qed

lemma with_client:
  assumes "fields_set c" "\<And>ci. client_of c = Inr ci \<Longrightarrow> gives wild (f ci) P"
  shows "gives wild (rbind (client_of c) f) P"
  using fields_setD [OF assms(1)] assms(2) by auto

lemma any_value: "defined m \<Longrightarrow> (\<And>x. m = Inr x \<Longrightarrow> gives wild (f x) P) \<Longrightarrow> gives wild (rbind m f) P"
  by (rule gives_rbind [OF gives_any [where P = "\<lambda>_. True"]]) auto

lemma guarded [simp]:
  "gives wild (rbind (guard_res e b) f) P \<longleftrightarrow> (if b then gives wild (f ()) P else e \<notin> wild)"
  by simp

lemmas any_values = any_value [OF defined_cstring(1)] any_value [OF defined_parts(4)] any_value [OF defined_parts(5)]
  any_value [OF defined_parts(6)] any_value [OF defined_parts(2)] any_value [OF defined_parts(7)]
  any_value [OF defined_parts(9)] any_value [OF defined_parts(12)]

lemma handlers_defined:
  assumes "fields_set c"
  shows "gives wild (logout_handler c) fields_set" "gives wild (create_channel_handler c) fields_set"
    "gives wild (create_vchannel_handler c) fields_set" "gives wild (get_users_handler c) fields_set"
    "gives wild (join_channel_handler c) fields_set"
    "us_channel (us c) \<noteq> 0 \<Longrightarrow> gives wild (leave_channel_handler c) fields_set"
proof -
  have small: "MD_BUFF_SIZE < 65536" "LG_BUFF_SIZE < 65536" by (simp_all add: MD_BUFF_SIZE_def LG_BUFF_SIZE_def)
  note sent = call_sent [OF _ _ calls_sendable(2) [OF small(2)]] call_sent [OF _ _ calls_sendable(3) [OF small(1)]]
    call_sent [OF _ _ calls_sendable(5) [OF small(1)]] call_sent [OF _ _ calls_sendable(6) [OF small(1)]]
    call_sent [OF _ _ calls_sendable(7) [OF small(1)]] call_sent [OF _ _ calls_sendable(8) [OF small(1)]]
  show "gives wild (logout_handler c) fields_set" "gives wild (create_channel_handler c) fields_set"
    "gives wild (create_vchannel_handler c) fields_set" "gives wild (get_users_handler c) fields_set"
    "gives wild (join_channel_handler c) fields_set"
    "us_channel (us c) \<noteq> 0 \<Longrightarrow> gives wild (leave_channel_handler c) fields_set"
    using assms
    by (auto simp: logout_handler_def create_channel_handler_def create_vchannel_handler_def get_users_handler_def
        join_channel_handler_def leave_channel_handler_def new_block_def Let_def
        intro!: with_client any_values sent split: option.split)
qed

lemma send_handler_defined:
  assumes "fields_set c" "has_line c"
  shows "gives wild (send_handler c) fields_set"
proof -
  have small: "MD_BUFF_SIZE < 65536" by (simp add: MD_BUFF_SIZE_def)
  note sent = call_sent [OF _ _ calls_sendable(4) [OF small]]
  obtain k l where "us_cmd (us c) = Some k" "c_input k = Some (Some l)" using assms(2) by (auto simp: has_line_def)
  then have k: "cmd_of c = Inr k" "the_input (c_input k) = Inr l" by (simp_all add: cmd_of_def the_input_def)
  from fields_setD [OF assms(1)] obtain ci where ci: "client_of c = Inr ci" ..
  obtain fd nm where nm: "ci_fd ci = Some fd" "ci_name ci = Some nm" by (rule fields_setE [OF assms(1) ci])
  show ?thesis
    using assms(1)
    by (auto simp: send_handler_def ci nm k new_block_def Let_def intro!: any_values sent split: option.split)
qed

lemma recv_handler_defined: "fields_set c \<Longrightarrow> gives wild (recv_handler c r) fields_set"
  by (auto simp: recv_handler_def intro!: any_values)

section \<open>Commands\<close>

text \<open>The command that leaves the global channel: the call makes no packet and reports the size -1, and
  the send function returns its local variable without an assignment.\<close>

definition leaves_global :: "client \<Rightarrow> bool" where
  "leaves_global c \<longleftrightarrow> (\<exists>k. us_cmd (us c) = Some k \<and> c_cmd k = Some (cli_cmds ! LEAVE_CHANNEL_CMD)) \<and> us_channel (us c) = 0"

lemma when_cmd_gives:
  assumes "us_cmd (us c) = Some k" "fields_set c" "c_cmd k = Some (cli_cmds ! i) \<Longrightarrow> gives wild (h c) fields_set"
  shows "gives wild (when_cmd i h c) fields_set"
  using assms by (cases "c_cmd k") (auto simp: when_cmd_def cmd_of_def is_cmd_def)

lemma when_other:
  assumes "us_cmd (us c) = Some k" "c_cmd k = Some (cli_cmds ! j)" "cli_cmds ! i \<noteq> cli_cmds ! j"
  shows "when_cmd i h c = Inr c"
  using assms by (simp add: when_cmd_def cmd_of_def is_cmd_def)

lemma cmds_distinct: "distinct cli_cmds"
  by (simp add: cli_cmds_def)

lemmas cmd_numbers = GET_USERS_CMD_def CREATE_CHANNEL_CMD_def JOIN_CHANNEL_CMD_def LEAVE_CHANNEL_CMD_def
  CREATE_VCHANNEL_CMD_def LOGOUT_CMD_def MENU_CMD_def

lemma not_leave:
  "i \<in> {MENU_CMD, LOGOUT_CMD, GET_USERS_CMD, CREATE_CHANNEL_CMD, JOIN_CHANNEL_CMD, CREATE_VCHANNEL_CMD} \<Longrightarrow>
   cli_cmds ! i \<noteq> cli_cmds ! LEAVE_CHANNEL_CMD"
  by (auto simp: cli_cmds_def cmd_numbers)

lemma cmd_handler_leave:
  assumes "us_cmd (us c) = Some k" "c_cmd k = Some (cli_cmds ! LEAVE_CHANNEL_CMD)"
  shows "cmd_handler c = rbind (leave_channel_handler c) (when_cmd CREATE_VCHANNEL_CMD create_vchannel_handler)"
proof -
  note o = when_other [OF assms not_leave]
  have "when_cmd LEAVE_CHANNEL_CMD leave_channel_handler c = leave_channel_handler c"
    using assms by (simp add: when_cmd_def cmd_of_def is_cmd_def)
  then show ?thesis by (simp add: cmd_handler_def o)
qed

lemma leave_global_uninit:
  assumes "fields_set c" "us_channel (us c) = 0"
  shows "leave_channel_handler c = Inl Uninit"
proof -
  from fields_setD [OF assms(1)] obtain ci where ci: "client_of c = Inr ci" ..
  obtain fd nm where "ci_fd ci = Some fd" "ci_name ci = Some nm" by (rule fields_setE [OF assms(1) ci])
  with ci assms(2) show ?thesis
    by (simp add: leave_channel_handler_def cpt_leave_channel_def send_packet_def tcp_client_send_def client_send_empty)
qed

lemma cmd_handler_defined:
  assumes "fields_set c" "has_line c"
  shows "if leaves_global c then cmd_handler c = Inl Uninit else gives wild (cmd_handler c) fields_set"
proof (cases "leaves_global c")
  case True
  then show ?thesis
    using cmd_handler_leave leave_global_uninit [OF assms(1)] by (auto simp: leaves_global_def)
next
  case False
  from assms(2) obtain k where k: "us_cmd (us c) = Some k" by (auto simp: has_line_def)
  have kept: "us_cmd (us c') = Some k" if "keeps c0 c'" "us_cmd (us c0) = Some k" for c0 c'
    using that by (simp add: keeps_def)
  show ?thesis
  proof (cases "c_cmd k = Some (cli_cmds ! LEAVE_CHANNEL_CMD)")
    case True
    with False k have "us_channel (us c) \<noteq> 0" by (auto simp: leaves_global_def)
    from handlers_defined(6) [OF assms(1) this]
    have "gives wild (cmd_handler c) fields_set"
      unfolding cmd_handler_leave [OF k True]
    proof (rule gives_rbind)
      fix c1 assume c1: "leave_channel_handler c = Inr c1" "fields_set c1"
      have "us_cmd (us c1) = Some k" by (rule kept [OF handlers_keep(5) [OF c1(1)] k])
      then show "gives wild (when_cmd CREATE_VCHANNEL_CMD create_vchannel_handler c1) fields_set"
        by (rule when_cmd_gives [OF _ c1(2)]) (rule handlers_defined(3) [OF c1(2)])
    qed
    with False show ?thesis by simp
  next
    case other: False
    have step: "gives wild (rbind (when_cmd i h c0) f) fields_set"
      if "us_cmd (us c0) = Some k" "fields_set c0" "c_cmd k = Some (cli_cmds ! i) \<Longrightarrow> gives wild (h c0) fields_set"
        "\<And>c c'. h c = Inr c' \<Longrightarrow> keeps c c'"
        "\<And>c'. us_cmd (us c') = Some k \<Longrightarrow> fields_set c' \<Longrightarrow> gives wild (f c') fields_set" for i h c0 f
      by (rule gives_rbind [OF when_cmd_gives [where h = h, OF that(1-3)]])
        (use that(1,4,5) kept when_cmd_keeps in blast)+
    have m: "keeps c (menu c)" for c by (auto simp: menu_def keeps_def)
    have handlers: "gives wild (logout_handler c) fields_set" "gives wild (get_users_handler c) fields_set"
      "gives wild (create_channel_handler c) fields_set" "gives wild (join_channel_handler c) fields_set"
      "gives wild (create_vchannel_handler c) fields_set" if "fields_set c" for c
      using that by (rule handlers_defined)+
    have "gives wild (cmd_handler c) fields_set"
      unfolding cmd_handler_def
      by (rule step, rule k, rule assms(1), simp add: menu_def assms(1), simp add: m,
          (rule step, assumption, assumption, erule handlers, erule handlers_keep)+,
          rule step, assumption, assumption, erule notE [OF other], erule handlers_keep,
          erule (1) when_cmd_gives, erule handlers)
    with False show ?thesis by simp
  qed
qed

lemma is_voice_chan_defined [simp]: "defined (is_voice_chan c)"
  by (auto simp: is_voice_chan_def packet_of_def client_of_def intro!: avoids_rbind split: option.split)

lemma leave_is_valid: "c_cmd k = Some (cli_cmds ! LEAVE_CHANNEL_CMD) \<Longrightarrow> is_valid_cmd k"
  by (simp add: is_valid_cmd_def cli_cmds_def cmd_numbers NUM_CMD_def)

lemma run_command_defined:
  assumes "fields_set c" "has_line c"
  shows "if leaves_global c then run_command c = Inl Uninit else gives wild (run_command c) (\<lambda>(_, c'). fields_set c')"
proof -
  obtain k l where k: "us_cmd (us c) = Some k" "c_input k = Some (Some l)" using assms(2) by (auto simp: has_line_def)
  let ?c = "c\<lparr>receiving := True\<rparr>"
  have c: "leaves_global ?c = leaves_global c" "fields_set ?c" "has_line ?c" "cmd_of c = Inr k"
    using assms k(1) by (simp_all add: leaves_global_def has_line_def cmd_of_def)
  have valid: "is_valid_cmd k" if "leaves_global c"
    using that k(1) leave_is_valid by (auto simp: leaves_global_def)
  show ?thesis
  proof (cases "leaves_global c")
    case True
    with cmd_handler_defined [OF c(2,3)] c valid [OF True] show ?thesis by (simp add: run_command_def)
  next
    case False
    with cmd_handler_defined [OF c(2,3)] c(1) have h: "gives wild (cmd_handler ?c) fields_set" by simp
    have rest: "gives wild (case us_pid (us c1) of None \<Rightarrow> Inl Uninit | Some p \<Rightarrow> Inr p) (\<lambda>_. True)" if "fields_set c1" for c1
      using that by (auto simp: fields_set_def)
    have "gives wild (run_command c) (\<lambda>(_, c'). fields_set c')"
    proof (cases "is_valid_cmd k")
      case True
      then show ?thesis
        by (auto simp: run_command_def c(4) intro!: gives_rbind [OF h] gives_rbind [OF rest] any_values
            any_value [OF is_voice_chan_defined] any_value [OF defined_sys] any_value [OF defined_parts(8)])
    next
      case False
      with send_handler_defined [OF assms] assms(1) k(2) show ?thesis
        by (auto simp: run_command_def c(4) intro!: gives_rbind)
    qed
    with False show ?thesis by simp
  qed
qed

section \<open>The threads\<close>

lemma parse_defined:
  assumes "c_input k = Some (Some l)"
  shows "defined (parse_cmd_input k)"
proof -
  have p: "gives wild (parse_cmd k) (\<lambda>k'. p_input k' \<noteq> None)"
    using assms by (auto simp: parse_cmd_def the_input_def intro!: any_value [OF defined_parts(3)] split: option.split)
  have "defined (parse_cmd_args k')" if "p_input k' \<noteq> None" for k'
    using that by (auto simp: parse_cmd_args_def intro!: avoids_rbind split: option.split)
  with p show ?thesis
    unfolding parse_cmd_input_def by (intro avoids_rbind gives_avoids [OF p]) (blast dest: givesD)
qed

lemma read_command_defined:
  assumes "fields_set c"
  shows "gives wild (read_command ok c) fields_set"
proof -
  from fields_setD [OF assms] obtain ci where ci: "client_of c = Inr ci" ..
  obtain fd nm where "ci_fd ci = Some fd" "ci_name ci = Some nm" by (rule fields_setE [OF assms ci])
  then have "defined (prompt c)" by (auto simp: prompt_def ci intro!: avoids_rbind split: option.split)
  with assms show ?thesis
    by (auto simp: read_command_def cmd_init_def
        intro!: any_value parse_defined)
qed

lemma free_command_defined:
  "fields_set c \<Longrightarrow> has_line c \<Longrightarrow> gives wild (free_command c) (\<lambda>c'. fields_set c' \<and> us_cmd (us c') = None)"
  by (auto simp: free_command_def cmd_destroy_def has_line_def)

lemma receive_bytes_defined:
  assumes "fields_set (cl s)"
  shows "gives wild (receive_bytes s) (\<lambda>s'. fields_set (cl s') \<and> us_cmd (us (cl s')) = us_cmd (us (cl s)) \<and> sender s' = sender s)"
proof -
  from fields_setD [OF assms] obtain ci where ci: "client_of (cl s) = Inr ci" ..
  obtain fd nm where "ci_fd ci = Some fd" "ci_name ci = Some nm" by (rule fields_setE [OF assms ci])
  with assms ci show ?thesis
    by (auto simp: receive_bytes_def tcp_client_recv_def intro!: any_value [OF defined_parts(1)])
qed

lemma handle_response_defined:
  assumes "fields_set (cl s)"
  shows "gives wild (handle_response s) (\<lambda>s'. fields_set (cl s') \<and> us_cmd (us (cl s')) = us_cmd (us (cl s)) \<and> sender s' = sender s)"
proof -
  have "gives wild (recv_handler c r) (\<lambda>c'. fields_set c' \<and> us_cmd (us c') = us_cmd (us c))" if "fields_set c" for c r
    using recv_handler_defined [OF that, of r] recv_handler_keeps [of c r]
    by (auto simp: gives_def res_post_def keeps_def)
  note r = gives_rbind [OF this]
  from assms show ?thesis
    by (auto simp: handle_response_def new_block_def intro!: any_value [OF defined_response] r split: option.split)
qed

definition fields_inv :: "cli \<Rightarrow> bool" where
  "fields_inv s \<longleftrightarrow> wait_inv s \<and> fields_set (cl s) \<and> (sender s \<in> {AtPrompt, SendDone} \<longrightarrow> us_cmd (us (cl s)) = None)"

lemma recv_thread_defined:
  assumes "fields_inv s"
  shows "gives wild (recv_thread s) fields_inv"
proof -
  have "gives wild (recv_thread s) (\<lambda>s'. fields_set (cl s') \<and> us_cmd (us (cl s')) = us_cmd (us (cl s)) \<and>
      (sender s' = sender s \<or> sender s' = Woken))"
    using assms receive_bytes_defined [of s] handle_response_defined [of s]
    by (auto simp: recv_thread_def fields_inv_def gives_def res_post_def split: recv_pc.split)
  with assms recv_thread_inv [of s] show ?thesis
    by (auto simp: fields_inv_def gives_def res_post_def)
qed

lemma send_thread_defined:
  assumes "fields_inv s"
  shows "if sender s = InCommand \<and> leaves_global (cl s) then send_thread ok s = Inl Uninit
    else gives wild (send_thread ok s) fields_inv"
proof -
  from assms have i: "fields_set (cl s)" "sender s \<notin> {AtPrompt, SendDone} \<longrightarrow> has_line (cl s)"
    by (simp_all add: fields_inv_def wait_inv_def)
  show ?thesis
  proof (cases "sender s = InCommand \<and> leaves_global (cl s)")
    case True
    with run_command_defined [OF i(1)] i(2) show ?thesis by (simp add: send_thread_def)
  next
    case False
    have "gives wild (send_thread ok s) (\<lambda>s'. fields_set (cl s') \<and>
        (sender s' \<in> {AtPrompt, SendDone} \<longrightarrow> us_cmd (us (cl s')) = None))"
    proof (cases "sender s")
      case AtPrompt
      with assms show ?thesis
        by (auto simp: send_thread_def fields_inv_def intro!: gives_rbind [OF read_command_defined])
    next
      case InCommand
      with False i run_command_defined [of "cl s"] have "gives wild (run_command (cl s)) (\<lambda>(_, c'). fields_set c')" by simp
      with InCommand show ?thesis by (auto simp: send_thread_def intro!: gives_rbind)
    next
      case Freeing
      with i show ?thesis by (auto simp: send_thread_def intro!: gives_rbind [OF free_command_defined])
    qed (use i in \<open>auto simp: send_thread_def\<close>)
    with assms send_thread_inv [of s ok] False show ?thesis
      by (auto simp: fields_inv_def gives_def res_post_def)
  qed
qed

section \<open>The login\<close>

definition login_kept :: "client \<Rightarrow> client \<Rightarrow> bool" where
  "login_kept c c' \<longleftrightarrow> us_cmd (us c') = us_cmd (us c) \<and>
     (\<forall>ci. client_of c = Inr ci \<longrightarrow> (\<exists>ci'. client_of c' = Inr ci' \<and> ci_fd ci' = ci_fd ci))"

lemma post_any: "(\<And>x. m = Inr x \<Longrightarrow> gives {} (f x) P) \<Longrightarrow> gives {} (rbind m f) P"
  by (cases m) simp_all

lemma login_sent:
  assumes "client_of c = Inr ci" "\<And>r c2. login_kept c c2 \<Longrightarrow> gives {} (f (r, c2)) P"
  shows "gives {} (rbind (cpt_login blk k ci name) (\<lambda>sent. rbind (send_packet k sent (c\<lparr>ticks := n\<rparr>)) f)) P"
proof (rule post_any, rule post_any)
  fix sent x assume "cpt_login blk k ci name = Inr sent" "send_packet k sent (c\<lparr>ticks := n\<rparr>) = Inr x"
  then have "login_kept c (snd x)"
    using assms(1) by (auto simp: cpt_login_def send_packet_def client_of_def set_client_def login_kept_def)
  with assms(2) show "gives {} (f x) P" by (cases x) simp
qed

lemma login_kept_set: "login_kept c c2 \<Longrightarrow> client_of c2 = Inr ci \<Longrightarrow>
    login_kept c ((set_client (ci\<lparr>ci_channel := k, ci_name := n\<rparr>) c2)\<lparr>ticks := t, cl_os := w\<rparr>)"
  "login_kept c c2 \<Longrightarrow> client_of c2 = Inr ci \<Longrightarrow>
    login_kept c (set_client (ci\<lparr>ci_channel := k, ci_name := n\<rparr>) c2)"
  by (auto simp: login_kept_def client_of_def set_client_def)

lemma login_handler_kept: "gives {} (login_handler c name) (\<lambda>(r, c'). login_kept c c')"
proof (cases "client_of c")
  case (Inr ci)
  then show ?thesis
    unfolding login_handler_def new_block_def prod.case Let_def client_of_ticks Inr rbind_Inr
    by (intro login_sent [OF Inr]) (auto intro!: post_any login_kept_set)
qed (simp add: login_handler_def new_block_def)

definition logged_fields :: "client \<Rightarrow> client \<Rightarrow> bool" where
  "logged_fields c c' \<longleftrightarrow> (\<exists>ci. us_client (us c') = Some ci \<and> ci_fd ci \<noteq> None \<and> ci_name ci \<noteq> None) \<and>
     us_cmd (us c') = us_cmd (us c)"

lemma login_fields: "gives {} (user_login c h host port name) (\<lambda>(c', h'). logged_fields c c')"
proof -
  have fields: "logged_fields c (set_client (ci4\<lparr>ci_name := Some u\<rparr>) c4\<lparr>cl_os := v,
      us := (us (set_client (ci4\<lparr>ci_name := Some u\<rparr>) c4))\<lparr>logged_in := True, us_channel := 0\<rparr>\<rparr>)"
    if "login_handler ((set_client (ci\<lparr>ci_fd := Some fd, ci_name := Some t\<rparr>) (c\<lparr>ticks := n\<rparr>))\<lparr>cl_os := w\<rparr>) name = Inr (r, c4)"
      "client_of c4 = Inr ci4" for ci fd t n w r c4 ci4 u v
    using givesD [OF login_handler_kept that(1)] that(2) by (auto simp: logged_fields_def login_kept_def client_of_def set_client_def)
  show ?thesis
    by (auto simp: user_login_def new_block_def Let_def intro!: post_any fields split: option.split)
qed

lemma start_fields:
  assumes "cli_start ok False c h host port login = Inr (c0, h', pid)"
  shows "fields_set c0 \<and> us_cmd (us c0) = None"
  using assms
  by (auto simp: cli_start_def user_state_init_def logged_fields_def fields_set_def split: if_splits dest!: givesD [OF login_fields])

lemma states_defined:
  assumes "fields_set c0" "us_cmd (us c0) = None"
  shows "cli_states c0 s \<Longrightarrow> fields_inv s"
proof (induction rule: cli_states.induct)
  case start
  show ?case using assms by (simp add: fields_inv_def cli_states_inv [OF cli_states.start]) (simp add: thread_chat_io_def)
next
  case (send s ok s')
  then show ?case using send_thread_defined [of s ok] by (auto dest: givesD split: if_splits)
next
  case (recv s s')
  then show ?case using recv_thread_defined [of s] by (auto dest: givesD)
next
  case (spurious s)
  then show ?case using cli_states_inv [OF cli_states.spurious] by (simp add: fields_inv_def)
next
  case (outside s w b)
  then show ?case using cli_states_inv [OF cli_states.outside] by (simp add: fields_inv_def)
qed

lemma end_defined:
  assumes "fields_inv s" "sender s = SendDone" "receiver s = RecvDone"
  shows "\<exists>w. cli_end s = Inr w"
  using assms
  by (auto simp: fields_inv_def fields_set_def cli_end_def cli_cleanup_def client_of_def user_state_destroy_def
      cmd_destroy_def cpt_destroy_client_info_def)


text \<open>Eve logs in and, still in the global channel, types the command to leave it.\<close>

lemma eve_starts:
  "\<exists>c0 h' ci. cli_start True False (eve_client [answer 42 [], answer (int (length l)) l]) h (Some (IP_LOCAL_LB @ [0]))
       (Some (PORT_8080 @ [0])) (Some (str ''eve'' @ [0])) = Inr (c0, h', 42) \<and> logged_in (us c0) \<and> us_channel (us c0) = 0 \<and>
     client_of c0 = Inr ci \<and> ci_name ci = Some (Some (str ''eve'' @ [0])) \<and> script (cl_os c0) = [answer (int (length l)) l]"
proof -
  let ?c = "eve_client [answer 42 [], answer (int (length l)) l]"
  have u: "us ?c = \<lparr>us_pid = None, us_cmd = None, us_channel = 0, us_client = None, logged_in = False\<rparr>"
    by (simp add: eve_client_def)
  then have u': "?c\<lparr>us := \<lparr>us_pid = None, us_cmd = None, us_channel = 0, us_client = None, logged_in = False\<rparr>\<rparr> = ?c" by simp
  have r: "(0 :: int) \<le> 3" "sret (answer 0 []) \<noteq> -1" "0 \<le> sret (answer 0 [])"
    "0 \<notin> set (str ''Success!'')" "length (str ''Success!'') + 3 \<le> 512" by simp_all
  from user_login_sends [OF eve_client_premises(1-5) eve_client_os r(1-3) refl r(4,5), of _ h] obtain c' h' ci where
    c': "user_login ?c h (Some (IP_LOCAL_LB @ [0])) (Some (PORT_8080 @ [0])) (Some (str ''eve'' @ [0])) = Inr (c', h')"
      "logged_in (us c')" "us_channel (us c') = 0" "us_client (us c') = Some ci" "ci_name ci = Some (Some (str ''eve'' @ [0]))"
      "script (cl_os c') = [answer 42 [], answer (int (length l)) l]" by blast
  obtain cs where w: "cl_os c' = \<lparr>script = [answer 42 [], answer (int (length l)) l], calls = cs\<rparr>"
    using c'(6) by (cases "cl_os c'") auto
  show ?thesis
    unfolding cli_start_def user_state_init_def if_True rbind_Inr u'
    using c'(1-5) w by (simp add: client_of_def u' del: rbind_eq_Inr str_simps)
qed


end
