(* ===== verification/Settings.thy ===== *)
theory Settings
  imports Cli
begin

text \<open>
  The settings of the client: application_framework.c, the beginning of \<open>run\<close> in cli_dc.c and the main function in
  cpt_chat_client.c. They call the dc application library, which is not part of the sources: it is the
  parameter \<open>dc_lib\<close>, on a memory \<open>'h\<close> of its own. An object of the library (a block, a setting) is an address.
\<close>

section \<open>The library\<close>

record 'h dc_lib =
  dc_malloc :: "'h \<Rightarrow> addr option \<times> 'h"
  dc_calloc :: "'h \<Rightarrow> addr option \<times> 'h"
  dc_free :: "addr option \<Rightarrow> 'h \<Rightarrow> 'h"
  dc_setting_string_create :: "'h \<Rightarrow> addr option \<times> 'h"
  dc_setting_path_create :: "'h \<Rightarrow> addr option \<times> 'h"
  dc_setting_string_destroy :: "addr option \<Rightarrow> 'h \<Rightarrow> 'h"
  dc_setting_string_get :: "addr option \<Rightarrow> 'h \<Rightarrow> byte list option"
  dup_string :: "'h \<Rightarrow> addr option \<times> 'h"  \<comment> \<open>\<open>strdup\<close>\<close>
  null_free :: bool

section \<open>application_framework.c\<close>

datatype default_value = NoDefault | Literal string | Copied "addr option"

record option_row =
  o_setting :: "addr option"
  o_name :: string
  o_letter :: char
  o_env :: string
  o_key :: "string option"
  o_default :: default_value

record application_settings =
  config_path :: "addr option"
  s_host :: "addr option"
  s_port :: "addr option"
  s_login :: "addr option"
  s_opts :: "addr option"
  opts_rows :: "option_row list"
  opts_count :: nat
  flags :: string
  env_prefix :: string

definition option_rows :: "addr option \<Rightarrow> addr option \<Rightarrow> addr option \<Rightarrow> addr option \<Rightarrow> addr option \<Rightarrow> option_row list" where
  "option_rows cfg login host port anon =
     [\<lparr>o_setting = cfg, o_name = ''config'', o_letter = CHR ''c'', o_env = ''CONFIG'', o_key = None, o_default = NoDefault\<rparr>,
      \<lparr>o_setting = login, o_name = ''LOGIN'', o_letter = CHR ''L'', o_env = ''LOGIN'', o_key = Some ''LOGIN'', o_default = Copied anon\<rparr>,
      \<lparr>o_setting = host, o_name = ''host'', o_letter = CHR ''h'', o_env = ''HOST'', o_key = Some ''host'',
       o_default = Literal ''127.0.0.1''\<rparr>,
      \<lparr>o_setting = port, o_name = ''port'', o_letter = CHR ''p'', o_env = ''PORT'', o_key = Some ''port'',
       o_default = Literal ''8080''\<rparr>]"

text \<open>The table is one row longer than the options, and is filled without a look at the result of its allocation.\<close>

definition create_settings :: "'h dc_lib \<Rightarrow> 'h \<Rightarrow> ((addr \<times> application_settings) option \<times> 'h) res" where
  "create_settings lib h =
     (case dc_malloc lib h of
        (None, h1) \<Rightarrow> Inr (None, h1)
      | (Some a, h1) \<Rightarrow>
          (case dc_setting_path_create lib h1 of (cfg, h2) \<Rightarrow>
          (case dc_setting_string_create lib h2 of (host, h3) \<Rightarrow>
          (case dc_setting_string_create lib h3 of (port, h4) \<Rightarrow>
          (case dc_setting_string_create lib h4 of (login, h5) \<Rightarrow>
          (case dup_string lib h5 of (anon, h6) \<Rightarrow>
          (let rows = option_rows cfg login host port anon in
          (case dc_calloc lib h6 of
             (None, h7) \<Rightarrow> Inl NullDeref
           | (Some t, h7) \<Rightarrow>
               Inr (Some (a, \<lparr>config_path = cfg, s_host = host, s_port = port, s_login = login, s_opts = Some t,
                 opts_rows = rows, opts_count = length rows + 1, flags = ''L:h:p:'', env_prefix = ''CPT_CHAT_CLIENT_''\<rparr>), h7)))))))))"

text \<open>The result and what the caller's pointer holds afterwards.\<close>

definition destroy_settings ::
  "'h dc_lib \<Rightarrow> (addr \<times> application_settings) option \<Rightarrow> 'h \<Rightarrow> (int \<times> (addr \<times> application_settings) option \<times> 'h) res" where
  "destroy_settings lib psettings h =
     (case psettings of None \<Rightarrow> Inl NullDeref
      | Some (a, st) \<Rightarrow>
          let h1 = dc_setting_string_destroy lib (s_host st) h;
              h2 = dc_setting_string_destroy lib (s_port st) h1;
              h3 = dc_setting_string_destroy lib (s_login st) h2;
              h4 = dc_free lib (s_opts st) h3;
              h5 = dc_free lib (Some a) h4 in
          Inr (0, if null_free lib then None else psettings, h5))"

text \<open>\<open>info\<close> is created before and destroyed after \<open>application_run\<close>, the call of \<open>dc_application_run\<close>.\<close>

definition run_client_cli ::
  "('h \<Rightarrow> addr option \<times> 'h) \<Rightarrow> (addr option \<Rightarrow> 'h \<Rightarrow> 'h) \<Rightarrow> (addr option \<Rightarrow> 'h \<Rightarrow> (int \<times> 'h) res) \<Rightarrow> 'h \<Rightarrow> (int \<times> 'h) res" where
  "run_client_cli info_create info_destroy application_run h =
     (case info_create h of (info, h1) \<Rightarrow>
     rbind (application_run info h1) (\<lambda>(ret_val, h2). Inr (ret_val, info_destroy info h2)))"

text \<open>The result of the application is dropped.\<close>

definition client_main ::
  "('h \<Rightarrow> addr option \<times> 'h) \<Rightarrow> (addr option \<Rightarrow> 'h \<Rightarrow> 'h) \<Rightarrow> (addr option \<Rightarrow> 'h \<Rightarrow> (int \<times> 'h) res) \<Rightarrow> 'h \<Rightarrow> (int \<times> 'h) res" where
  "client_main info_create info_destroy application_run h =
     rbind (run_client_cli info_create info_destroy application_run h) (\<lambda>(_, h'). Inr (0, h'))"

section \<open>The beginning of run\<close>

definition run_settings :: "'h dc_lib \<Rightarrow> 'h \<Rightarrow> application_settings \<Rightarrow> byte list option \<times> byte list option \<times> byte list option" where
  "run_settings lib h st =
     (let login = dc_setting_string_get lib (s_login st) h;
          host = dc_setting_string_get lib (s_host st) h;
          port = dc_setting_string_get lib (s_port st) h in (login, host, port))"

definition run_start ::
  "'h dc_lib \<Rightarrow> 'h \<Rightarrow> application_settings \<Rightarrow> bool \<Rightarrow> bool \<Rightarrow> client \<Rightarrow> u16 lheap \<Rightarrow> (client \<times> u16 lheap \<times> int) res" where
  "run_start lib h st ok was c ch =
     (case run_settings lib h st of (login, host, port) \<Rightarrow> cli_start ok was c ch host port login)"

section \<open>What is destroyed\<close>

text \<open>What the library and \<open>strdup\<close> promise of their objects: a new one is not live before and live after, and
  one that is destroyed or freed is not live any more.\<close>

definition fresh_call :: "('h \<Rightarrow> addr set) \<Rightarrow> ('h \<Rightarrow> addr option \<times> 'h) \<Rightarrow> bool" where
  "fresh_call live f \<longleftrightarrow> (\<forall>h p h'. f h = (p, h') \<longrightarrow> set_option p \<inter> live h = {} \<and> live h' = live h \<union> set_option p)"

definition lawful :: "('h \<Rightarrow> addr set) \<Rightarrow> 'h dc_lib \<Rightarrow> bool" where
  "lawful live lib \<longleftrightarrow> fresh_call live (dc_malloc lib) \<and> fresh_call live (dc_calloc lib) \<and>
     fresh_call live (dc_setting_string_create lib) \<and> fresh_call live (dc_setting_path_create lib) \<and>
     fresh_call live (dup_string lib) \<and>
     (\<forall>p h. live (dc_free lib p h) = live h - set_option p) \<and>
     (\<forall>p h. live (dc_setting_string_destroy lib p h) = live h - set_option p)"

lemma fresh_callD: "fresh_call live f \<Longrightarrow> f h = (p, h') \<Longrightarrow> set_option p \<inter> live h = {} \<and> live h' = live h \<union> set_option p"
  by (simp add: fresh_call_def)

lemma created_live:
  assumes "lawful live lib" "create_settings lib h = Inr (Some (a, st), h1)"
  shows "\<exists>anon. opts_rows st = option_rows (config_path st) (s_login st) (s_host st) (s_port st) anon \<and> flags st = ''L:h:p:'' \<and>
    (let owned = set_option (s_host st) \<union> set_option (s_port st) \<union> set_option (s_login st) \<union> set_option (s_opts st) \<union> {a};
         rest = set_option (config_path st) \<union> set_option anon in
     live h1 = live h \<union> owned \<union> rest \<and> live h \<inter> owned = {} \<and> (live h \<union> owned) \<inter> rest = {})"
proof -
  from assms(2) obtain h0 cfg h2 host h3 port h4 login h5 anon h6 t where c:
    "dc_malloc lib h = (Some a, h0)" "dc_setting_path_create lib h0 = (cfg, h2)" "dc_setting_string_create lib h2 = (host, h3)"
    "dc_setting_string_create lib h3 = (port, h4)" "dc_setting_string_create lib h4 = (login, h5)"
    "dup_string lib h5 = (anon, h6)" "dc_calloc lib h6 = (Some t, h1)"
    and st: "st = \<lparr>config_path = cfg, s_host = host, s_port = port, s_login = login, s_opts = Some t,
      opts_rows = option_rows cfg login host port anon, opts_count = length (option_rows cfg login host port anon) + 1,
      flags = ''L:h:p:'', env_prefix = ''CPT_CHAT_CLIENT_''\<rparr>"
    unfolding create_settings_def Let_def
    by (auto split: prod.split_asm option.split_asm)
  note laws = assms(1) [unfolded lawful_def]
  from laws have l: "fresh_call live (dc_malloc lib)" "fresh_call live (dc_setting_path_create lib)"
    "fresh_call live (dc_setting_string_create lib)" "fresh_call live (dup_string lib)" "fresh_call live (dc_calloc lib)" by simp_all
  note f = fresh_callD [OF l(1) c(1)] fresh_callD [OF l(2) c(2)] fresh_callD [OF l(3) c(3)] fresh_callD [OF l(3) c(4)]
    fresh_callD [OF l(3) c(5)] fresh_callD [OF l(4) c(6)] fresh_callD [OF l(5) c(7)]
  have "live h1 = live h \<union> (set_option host \<union> set_option port \<union> set_option login \<union> {t} \<union> {a}) \<union> (set_option cfg \<union> set_option anon)"
    using f by auto
  moreover have "live h \<inter> (set_option host \<union> set_option port \<union> set_option login \<union> {t} \<union> {a}) = {}" using f by auto
  moreover have "(live h \<union> (set_option host \<union> set_option port \<union> set_option login \<union> {t} \<union> {a})) \<inter> (set_option cfg \<union> set_option anon) = {}"
    using f by auto
  ultimately show ?thesis by (intro exI [of _ anon]) (simp add: st Let_def)
qed

lemma set_left: "K = L \<union> Q \<union> R \<and> L \<inter> Q = {} \<and> (L \<union> Q) \<inter> R = {} \<Longrightarrow> K - Q = L \<union> R \<and> L \<inter> R = {}"
  by auto

text \<open>C40: What the settings of the client leave behind. Destroying settings that were created destroys the table, the
  three settings of the login, the host and the port and the structure, and clears the caller's pointer if the library is
  told to; two objects stay, neither of which was live before: the setting of the configuration path and the
  copy of the default login. And the letter of the option for the configuration file is the only one of the table
  that the flags for \<open>getopt\<close> do not list.\<close>

theorem settings_leak:
  assumes "lawful live lib" "create_settings lib h = Inr (Some (a, st), h1)"
  shows "\<exists>h2 anon. destroy_settings lib (Some (a, st)) h1 = Inr (0, if null_free lib then None else Some (a, st), h2) \<and>
    o_default (opts_rows st ! 1) = Copied anon \<and>
    live h2 = live h \<union> set_option (config_path st) \<union> set_option anon \<and>
    live h \<inter> (set_option (config_path st) \<union> set_option anon) = {} \<and>
    filter (\<lambda>c. c \<notin> set (flags st)) (map o_letter (opts_rows st)) = [CHR ''c'']"
proof -
  from created_live [OF assms] obtain anon where an:
    "opts_rows st = option_rows (config_path st) (s_login st) (s_host st) (s_port st) anon" "flags st = ''L:h:p:''"
    and lv: "let owned = set_option (s_host st) \<union> set_option (s_port st) \<union> set_option (s_login st) \<union> set_option (s_opts st) \<union> {a};
         rest = set_option (config_path st) \<union> set_option anon in
     live h1 = live h \<union> owned \<union> rest \<and> live h \<inter> owned = {} \<and> (live h \<union> owned) \<inter> rest = {}" by blast
  let ?h2 = "dc_free lib (Some a) (dc_free lib (s_opts st) (dc_setting_string_destroy lib (s_login st)
      (dc_setting_string_destroy lib (s_port st) (dc_setting_string_destroy lib (s_host st) h1))))"
  have "destroy_settings lib (Some (a, st)) h1 = Inr (0, if null_free lib then None else Some (a, st), ?h2)"
    by (simp add: destroy_settings_def Let_def)
  moreover have "live ?h2 = live h1 - (set_option (s_host st) \<union> set_option (s_port st) \<union> set_option (s_login st) \<union>
      set_option (s_opts st) \<union> {a})" using assms(1) by (auto simp: lawful_def)
  with set_left [OF lv [unfolded Let_def]] have "live ?h2 = live h \<union> set_option (config_path st) \<union> set_option anon"
    "live h \<inter> (set_option (config_path st) \<union> set_option anon) = {}" by (simp_all add: Un_assoc)
  moreover have "o_default (opts_rows st ! 1) = Copied anon"
    "filter (\<lambda>c. c \<notin> set (flags st)) (map o_letter (opts_rows st)) = [CHR ''c'']"
    by (simp_all add: an option_rows_def)
  ultimately show ?thesis by blast
qed

text \<open>A library that hands out the addresses one after the other.\<close>

definition counting :: "(nat \<times> addr set) dc_lib" where
  "counting = (let new = (\<lambda>(n, S). (Some n, (Suc n, insert n S))); gone = (\<lambda>p (n, S). (n, S - set_option p)) in
     \<lparr>dc_malloc = new, dc_calloc = new, dc_free = gone, dc_setting_string_create = new, dc_setting_path_create = new,
      dc_setting_string_destroy = gone, dc_setting_string_get = (\<lambda>_ _. None), dup_string = new, null_free = True\<rparr>)"

definition below :: "nat \<times> addr set \<Rightarrow> addr set" where
  "below = (\<lambda>(n, S). {x \<in> S. x < n})"

lemma counting_lawful: "lawful below counting"
  by (auto simp: lawful_def fresh_call_def counting_def below_def Let_def)

theorem settings_leak_witness:
  "\<exists>st h1 h2. create_settings counting (0, {}) = Inr (Some (0, st), h1) \<and>
     destroy_settings counting (Some (0, st)) h1 = Inr (0, None, h2) \<and> below h2 = {1, 5}"
proof -
  obtain st h1 where c: "create_settings counting (0, {}) = Inr (Some (0, st), h1)" "config_path st = Some 1"
    "o_default (opts_rows st ! 1) = Copied (Some 5)"
    by (simp add: create_settings_def counting_def option_rows_def Let_def)
  from settings_leak [OF counting_lawful c(1)] obtain h2 where
    "destroy_settings counting (Some (0, st)) h1 = Inr (0, None, h2)" "below h2 = {1, 5}"
    using c(2,3) by (auto simp: counting_def below_def Let_def)
  with c(1) show ?thesis by blast
qed

end
