(* ===== verification/Destructors.thy ===== *)
theory Destructors
  imports Linked_List
begin

text \<open>
  The memory behind the structures that own a text: requests, sub-packets and users
  (cpt_packet_builder.c, user.c), and the responses, which do not free theirs. Elsewhere in the
  development such a structure is a value and its text a list of bytes; here both are blocks with an address.

  \<open>malloc\<close> and \<open>strdup\<close> are given as the address of the new block, \<open>None\<close> if there is no memory.
\<close>

section \<open>Blocks\<close>

text \<open>A structure with its pointer to the text (the outer \<open>None\<close>: not written yet), or a text.\<close>

datatype block = Holder "addr option option" | Chars

type_synonym blocks = "addr \<rightharpoonup> block"

definition free_block :: "addr option \<Rightarrow> blocks \<Rightarrow> blocks res" where
  "free_block p m = (case p of None \<Rightarrow> Inr m
     | Some a \<Rightarrow> if m a = None then Inl BadFree else Inr (m(a := None)))"

definition load_text :: "addr option \<Rightarrow> blocks \<Rightarrow> addr option res" where
  "load_text p m = (case p of None \<Rightarrow> Inl NullDeref
     | Some a \<Rightarrow> (case m a of Some (Holder (Some t)) \<Rightarrow> Inr t | Some (Holder None) \<Rightarrow> Inl Uninit | _ \<Rightarrow> Inl Dangling))"

definition store_pointer :: "addr option \<Rightarrow> addr option \<Rightarrow> blocks \<Rightarrow> blocks res" where
  "store_pointer p t m = (case p of None \<Rightarrow> Inl NullDeref
     | Some a \<Rightarrow> (case m a of Some (Holder _) \<Rightarrow> Inr (m(a \<mapsto> Holder (Some t))) | _ \<Rightarrow> Inl Dangling))"

text \<open>\<open>if (p->msg) { free(p->msg); p->msg = NULL; }\<close>\<close>

definition drop_text :: "addr option \<Rightarrow> blocks \<Rightarrow> blocks res" where
  "drop_text p m = rbind (load_text p m) (\<lambda>t.
     if t \<noteq> None then rbind (free_block t m) (store_pointer p None) else Inr m)"

definition destroy_holder :: "addr option \<Rightarrow> blocks \<Rightarrow> blocks res" where
  "destroy_holder p m = (if p \<noteq> None then rbind (drop_text p m) (free_block p) else Inr m)"

section \<open>Making, filling and destroying structures\<close>

definition request_made :: "addr option \<Rightarrow> blocks \<Rightarrow> addr option \<times> blocks" where
  "request_made new m = (case new of None \<Rightarrow> (None, m) | Some a \<Rightarrow> (Some a, m(a \<mapsto> Holder (Some None))))"

definition cpt_msg_sp_init :: "addr option \<Rightarrow> blocks \<Rightarrow> addr option \<times> blocks" where
  "cpt_msg_sp_init new m = (case new of None \<Rightarrow> (None, m) | Some a \<Rightarrow> (Some a, m(a \<mapsto> Holder None)))"

text \<open>A message for the request: the pointer is overwritten, whatever it points to.\<close>

definition request_filled :: "addr option \<Rightarrow> addr option \<Rightarrow> blocks \<Rightarrow> blocks res" where
  "request_filled cpt dup m = (case dup of None \<Rightarrow> Inr m
     | Some t \<Rightarrow> store_pointer cpt (Some t) (m(t \<mapsto> Chars)))"

definition request_emptied :: "addr option \<Rightarrow> blocks \<Rightarrow> blocks res" where
  "request_emptied packet m = drop_text packet m"

definition cpt_request_destroy :: "addr option \<Rightarrow> blocks \<Rightarrow> blocks res" where
  "cpt_request_destroy req m = destroy_holder req m"

definition cpt_msg_sp_destroy :: "addr option \<Rightarrow> blocks \<Rightarrow> blocks res" where
  "cpt_msg_sp_destroy msg_res m = destroy_holder msg_res m"

definition user_destroy :: "addr option \<Rightarrow> blocks \<Rightarrow> blocks res" where
  "user_destroy u m = destroy_holder u m"

definition cpt_response_destroy :: "addr option \<Rightarrow> blocks \<Rightarrow> blocks res" where
  "cpt_response_destroy r m = (if r \<noteq> None then free_block r m else Inr m)"

section \<open>What is freed\<close>

text \<open>The destructor runs through if the structure is live, its pointer has been written and leads to nothing
  or to another live block; it frees these blocks and no others.\<close>

lemma destroy_holder_done:
  "destroy_holder (Some a) m = Inr m' \<longleftrightarrow> (\<exists>p. m a = Some (Holder (Some p)) \<and> a \<notin> set_option p \<and>
     set_option p \<subseteq> dom m \<and> m' = m |` (- insert a (set_option p)))"
proof -
  have r: "m(a := None) = m |` (- {a})" "(m(t := None))(a := None) = m |` (- {a, t})" for t
    by (auto simp: restrict_map_def fun_eq_iff)
  have "destroy_holder (Some a) m = Inr m' \<longleftrightarrow> (\<exists>p. m a = Some (Holder (Some p)) \<and> (case p of None \<Rightarrow> m' = m(a := None)
     | Some t \<Rightarrow> t \<noteq> a \<and> t \<in> dom m \<and> m' = (m(t := None))(a := None)))"
  proof (cases "m a")
    case (Some c)
    then show ?thesis
      by (cases c) (auto simp: destroy_holder_def drop_text_def load_text_def store_pointer_def free_block_def
          simp del: rbind_eq_Inr split: option.split)
  qed (simp add: destroy_holder_def drop_text_def load_text_def)
  also have "\<dots> \<longleftrightarrow> (\<exists>p. m a = Some (Holder (Some p)) \<and> a \<notin> set_option p \<and>
     set_option p \<subseteq> dom m \<and> m' = m |` (- insert a (set_option p)))"
    by (rule ex_cong1) (auto simp: r split: option.splits)
  finally show ?thesis .
qed

lemma destroyed_twice: "destroy_holder (Some a) m = Inr m' \<Longrightarrow> destroy_holder (Some a) m' = Inl Dangling"
  unfolding destroy_holder_done [of a m] by (auto simp: destroy_holder_def drop_text_def load_text_def)

text \<open>C39: The destructors of requests, sub-packets and users free the structure and its text, and nothing else, exactly when the
  structure is live and its pointer leads to nothing or to another live block. The callers' pointers are not
  cleared: a second call with the same pointer follows freed memory. A request that was given two messages
  leaves the first one behind, a response leaves its data behind, and a sub-packet that has just been made cannot be destroyed,
  because its pointer was never written.\<close>

theorem destructors_free:
  assumes "m a = None" "m t = None" "m t' = None" "distinct [a, t, t']"
  shows "(\<forall>M b M'. cpt_request_destroy (Some b) M = Inr M' \<longleftrightarrow> (\<exists>p. M b = Some (Holder (Some p)) \<and> b \<notin> set_option p \<and>
      set_option p \<subseteq> dom M \<and> M' = M |` (- insert b (set_option p)))) \<and>
    cpt_msg_sp_destroy = cpt_request_destroy \<and> user_destroy = cpt_request_destroy \<and>
    (\<forall>M b N. rbind (cpt_request_destroy (Some b) M) (cpt_request_destroy (Some b)) \<noteq> Inr N) \<and>
    (case request_made (Some a) m of (r, m1) \<Rightarrow> rbind (request_filled r (Some t) m1) (\<lambda>m2.
       rbind (request_filled r (Some t') m2) (cpt_request_destroy r))) = Inr (m(t \<mapsto> Chars)) \<and>
    cpt_response_destroy (Some a) (m(a \<mapsto> Holder (Some (Some t)), t \<mapsto> Chars)) = Inr (m(t \<mapsto> Chars)) \<and>
    (case cpt_msg_sp_init (Some a) m of (r, m1) \<Rightarrow> cpt_msg_sp_destroy r m1) = Inl Uninit"
proof (intro conjI allI)
  fix M b M'
  show "cpt_request_destroy (Some b) M = Inr M' \<longleftrightarrow> (\<exists>p. M b = Some (Holder (Some p)) \<and> b \<notin> set_option p \<and>
      set_option p \<subseteq> dom M \<and> M' = M |` (- insert b (set_option p)))"
    by (simp add: cpt_request_destroy_def destroy_holder_done)
next
  show "cpt_msg_sp_destroy = cpt_request_destroy" "user_destroy = cpt_request_destroy"
    by (simp_all add: fun_eq_iff cpt_msg_sp_destroy_def user_destroy_def cpt_request_destroy_def)
next
  fix M b N
  show "rbind (cpt_request_destroy (Some b) M) (cpt_request_destroy (Some b)) \<noteq> Inr N"
    using destroyed_twice by (fastforce simp: cpt_request_destroy_def)
next
  have ne: "a \<noteq> t" "a \<noteq> t'" "t \<noteq> t'" using assms(4) by auto
  have "m(a := None) = m" "m(t := None) = m" "m(t' := None) = m" using assms(1-3) by (simp_all add: fun_upd_idem)
  with ne assms(1-3) show "(case request_made (Some a) m of (r, m1) \<Rightarrow> rbind (request_filled r (Some t) m1) (\<lambda>m2.
       rbind (request_filled r (Some t') m2) (cpt_request_destroy r))) = Inr (m(t \<mapsto> Chars))"
    "cpt_response_destroy (Some a) (m(a \<mapsto> Holder (Some (Some t)), t \<mapsto> Chars)) = Inr (m(t \<mapsto> Chars))"
    "(case cpt_msg_sp_init (Some a) m of (r, m1) \<Rightarrow> cpt_msg_sp_destroy r m1) = Inl Uninit"
    by (simp_all add: request_made_def request_filled_def store_pointer_def cpt_request_destroy_def destroy_holder_def
        drop_text_def load_text_def free_block_def cpt_response_destroy_def cpt_msg_sp_init_def cpt_msg_sp_destroy_def
        fun_eq_iff)
qed

theorem destructors_free_witness:
  "(case request_made (Some 1) Map.empty of (r, m1) \<Rightarrow> rbind (request_filled r (Some 2) m1) (\<lambda>m2.
     rbind (request_filled r (Some 3) m2) (cpt_request_destroy r))) = Inr [2 \<mapsto> Chars] \<and>
   cpt_request_destroy (Some 1) [1 \<mapsto> Holder (Some None)] = Inr Map.empty"
proof -
  have p: "(Map.empty :: blocks) 1 = None" "(Map.empty :: blocks) 2 = None" "(Map.empty :: blocks) 3 = None"
    "distinct [1, 2, 3 :: addr]" by simp_all
  from destructors_free [OF p] show ?thesis by (auto simp: restrict_map_def fun_eq_iff)
qed

end
