(* ===== verification/Voice.thy ===== *)
theory Voice
  imports Channels Net
begin

text \<open>
  The voice tasks of the server: voice_task.c and the shared arrays of server_voice.c with the
  functions that use them. A task and a channel are addresses here, because a task can outlive the
  channel it points to.
\<close>

section \<open>State\<close>

definition VOICE_MAX_CHAN :: nat where "VOICE_MAX_CHAN = 4096"

record voice_task =
  vt_uid :: int
  vt_udp_fd :: int
  vt_channel :: "addr option"

text \<open>The global variables, and the blocks of memory that tasks and their channels live in.\<close>

record pool =
  task_count :: int
  voice_task_queue :: "addr option list"
  voice_udp_fds_r :: "int list"
  active_voice_chan :: "bool list"
  live_tasks :: "addr \<rightharpoonup> voice_task"
  live_chans :: "addr \<rightharpoonup> channel"

definition pool_start :: pool where
  "pool_start = \<lparr>task_count = 0, voice_task_queue = replicate 1024 None,
     voice_udp_fds_r = replicate VOICE_MAX_CHAN 0, active_voice_chan = replicate VOICE_MAX_CHAN False,
     live_tasks = (\<lambda>_. None), live_chans = (\<lambda>_. None)\<rparr>"

definition array_get :: "'a list \<Rightarrow> int \<Rightarrow> 'a res" where
  "array_get xs i = (if 0 \<le> i \<and> i < int (length xs) then Inr (xs ! nat i) else Inl OutOfBounds)"

definition array_set :: "'a list \<Rightarrow> int \<Rightarrow> 'a \<Rightarrow> 'a list res" where
  "array_set xs i x = (if 0 \<le> i \<and> i < int (length xs) then Inr (xs[nat i := x]) else Inl OutOfBounds)"

section \<open>voice_task.c\<close>

definition voice_task_init :: "bool \<Rightarrow> voice_task option" where
  "voice_task_init ok = (if ok then Some \<lparr>vt_uid = 0, vt_udp_fd = 0, vt_channel = None\<rparr> else None)"

definition deref_task :: "addr option \<Rightarrow> pool \<Rightarrow> voice_task res" where
  "deref_task task p = (case task of None \<Rightarrow> Inl NullDeref
     | Some t \<Rightarrow> (case live_tasks p t of None \<Rightarrow> Inl Dangling | Some v \<Rightarrow> Inr v))"

text \<open>The channel of the task is freed with it.\<close>

definition voice_task_destroy :: "addr option \<Rightarrow> pool \<Rightarrow> pool res" where
  "voice_task_destroy task p = (case task of None \<Rightarrow> Inr p
     | Some t \<Rightarrow>
         rbind (deref_task task p) (\<lambda>v.
         rbind (case vt_channel v of None \<Rightarrow> Inr p
                | Some c \<Rightarrow> if live_chans p c = None then Inl BadFree
                            else Inr (p\<lparr>live_chans := (live_chans p)(c := None)\<rparr>)) (\<lambda>p1.
           Inr (p1\<lparr>live_tasks := (live_tasks p1)(t := None)\<rparr>))))"

section \<open>Relaying\<close>

text \<open>\<open>recv\<close> may store 512 bytes into the buffer of 256.\<close>

definition relay :: "int \<Rightarrow> byte list \<Rightarrow> int \<Rightarrow> user option \<Rightarrow> os \<Rightarrow> os res" where
  "relay own voice_buf voice_size u w = (case u of None \<Rightarrow> Inl NullDeref
     | Some v \<Rightarrow>
         if own \<noteq> uint (uid v)
         then rbind (udp_server_send (uint (udp_fd_s v)) voice_buf voice_size w) (\<lambda>(_, w'). Inr w')
         else Inr w)"

text \<open>The two nested loops. \<open>user_node\<close> is not set back to the head of the list for the next packet:
  the inner loop leaves it at the null pointer.\<close>

function voice_loop :: "uheap \<Rightarrow> voice_task \<Rightarrow> byte list \<Rightarrow> addr option \<Rightarrow> os \<Rightarrow> os res" where
  "voice_loop uh task voice_buf user_node w =
     rbind (udp_server_recv (vt_udp_fd task) voice_buf w) (\<lambda>(voice_size, buf, w1).
       if voice_size > 0 then
         rbind (iter_nodes (fuel uh) uh user_node (relay (vt_uid task) buf voice_size) w1) (\<lambda>w2.
           voice_loop uh task buf None w2)
       else Inr w1)"
  by pat_completeness auto

lemma relay_length: "relay own buf n u w = Inr w' \<Longrightarrow> length (script w') \<le> length (script w)"
  by (auto simp: relay_def udp_server_send_def client_send_def split: option.splits if_splits dest: send_loop_left)

lemma recv_length: "recv_into fd n buf w = Inr (r, b, w') \<Longrightarrow> length (script w') < length (script w)"
  by (auto simp: recv_into_def Let_def dest: sys_length)

termination voice_loop
proof (relation "measure (\<lambda>(uh, task, buf, node, w). length (script w))", goal_cases)
  case (2 uh task buf node w a n y b w1 w2)
  then have "length (script w1) < length (script w)"
    by (auto simp: udp_server_recv_def dest: recv_length)
  moreover have "length (script w2) \<le> length (script w1)"
  proof (rule iter_nodes_invariant [where P = "\<lambda>w. length (script w) \<le> length (script w1)"])
    show "iter_nodes (fuel uh) uh node (relay (vt_uid task) b n) w1 = Inr w2" using 2 by simp
  qed (auto dest: relay_length)
  ultimately show ?case by simp
qed simp

declare voice_loop.simps [simp del]

definition execute_voice_task :: "uheap \<Rightarrow> pool \<Rightarrow> addr option \<Rightarrow> os \<Rightarrow> os res" where
  "execute_voice_task uh p task w =
     rbind (deref_task task p) (\<lambda>v.
     rbind (case vt_channel v of None \<Rightarrow> Inl NullDeref
            | Some c \<Rightarrow> (case live_chans p c of None \<Rightarrow> Inl Dangling | Some ch \<Rightarrow> Inr (ch_users ch))) (\<lambda>users.
     rbind (get_head_user uh users) (\<lambda>user_node.
       voice_loop uh v (replicate SM_BUFF_SIZE 0) user_node w)))"

section \<open>The queue and the arrays\<close>

text \<open>The critical section of \<open>submit_task\<close>.\<close>

definition put_task :: "addr option \<Rightarrow> pool \<Rightarrow> pool res" where
  "put_task task p = rbind (array_set (voice_task_queue p) (task_count p) task) (\<lambda>q.
     Inr (p\<lparr>voice_task_queue := q, task_count := task_count p + 1\<rparr>))"

text \<open>The critical section of \<open>start_thread\<close> when there is a task: the first one is taken, and the others
  move up.\<close>

function shift_tasks :: "addr option list \<Rightarrow> int \<Rightarrow> int \<Rightarrow> addr option list res" where
  "shift_tasks q ind n = (if ind < n
     then rbind (array_get q (ind + 1)) (\<lambda>t. rbind (array_set q ind t) (\<lambda>q'. shift_tasks q' (ind + 1) n))
     else Inr q)"
  by pat_completeness auto
termination by (relation "measure (\<lambda>(q, ind, n). nat (n - ind))") auto

declare shift_tasks.simps [simp del]

definition take_task :: "pool \<Rightarrow> (addr option \<times> pool) res" where
  "take_task p = rbind (array_get (voice_task_queue p) 0) (\<lambda>task.
     rbind (shift_tasks (voice_task_queue p) 0 (task_count p - 1)) (\<lambda>q.
       Inr (task, p\<lparr>voice_task_queue := q, task_count := task_count p - 1\<rparr>)))"

definition toggle_user_vchan :: "int \<Rightarrow> pool \<Rightarrow> pool res" where
  "toggle_user_vchan u p = rbind (array_get (active_voice_chan p) u) (\<lambda>b.
     rbind (array_set (active_voice_chan p) u (\<not> b)) (\<lambda>a. Inr (p\<lparr>active_voice_chan := a\<rparr>)))"

definition set_user_vchan :: "int \<Rightarrow> int \<Rightarrow> pool \<Rightarrow> pool res" where
  "set_user_vchan u fd p = rbind (array_set (voice_udp_fds_r p) u fd) (\<lambda>a. Inr (p\<lparr>voice_udp_fds_r := a\<rparr>))"

definition get_user_vchan :: "int \<Rightarrow> pool \<Rightarrow> int res" where
  "get_user_vchan u p = array_get (voice_udp_fds_r p) u"

section \<open>The queue is a queue\<close>

text \<open>Filling and draining a queue with given operations.\<close>

primrec enq_all :: "('e \<Rightarrow> 'q \<Rightarrow> 'q res) \<Rightarrow> 'e list \<Rightarrow> 'q \<Rightarrow> 'q res" where
  "enq_all put [] q = Inr q"
| "enq_all put (x # xs) q = rbind (put x q) (enq_all put xs)"

primrec deq_all :: "('q \<Rightarrow> ('e \<times> 'q) res) \<Rightarrow> nat \<Rightarrow> 'q \<Rightarrow> ('e list \<times> 'q) res" where
  "deq_all get 0 q = Inr ([], q)"
| "deq_all get (Suc n) q = rbind (get q) (\<lambda>(x, q'). rbind (deq_all get n q') (\<lambda>(xs, q''). Inr (x # xs, q'')))"

text \<open>What its users rely on: an abstract list, to which \<open>enq\<close> adds at the end, and from which \<open>deq\<close> takes
  the first element. Putting an element into a full queue is a fault.\<close>

locale bounded_queue =
  fixes view :: "'q \<Rightarrow> 'e list" and inv :: "'q \<Rightarrow> bool" and cap :: nat
    and enq :: "'e \<Rightarrow> 'q \<Rightarrow> 'q res" and deq :: "'q \<Rightarrow> ('e \<times> 'q) res"
  assumes enq_ok: "inv q \<Longrightarrow> length (view q) < cap \<Longrightarrow> \<exists>q'. enq x q = Inr q' \<and> inv q' \<and> view q' = view q @ [x]"
    and enq_full: "inv q \<Longrightarrow> cap \<le> length (view q) \<Longrightarrow> enq x q = Inl OutOfBounds"
    and deq_ok: "inv q \<Longrightarrow> view q = x # xs \<Longrightarrow> \<exists>q'. deq q = Inr (x, q') \<and> inv q' \<and> view q' = xs"
begin

lemma enq_all_ok:
  "inv q \<Longrightarrow> length (view q) + length xs \<le> cap \<Longrightarrow>
   \<exists>q'. enq_all enq xs q = Inr q' \<and> inv q' \<and> view q' = view q @ xs"
proof (induction xs arbitrary: q)
  case (Cons x xs)
  from enq_ok [OF Cons.prems(1), of x] Cons.prems(2) obtain q1 where
    q1: "enq x q = Inr q1" "inv q1" "view q1 = view q @ [x]" by auto
  with Cons.IH [of q1] Cons.prems(2) show ?case by auto
qed simp

lemma deq_all_ok: "inv q \<Longrightarrow> view q = xs @ ys \<Longrightarrow>
   \<exists>q'. deq_all deq (length xs) q = Inr (xs, q') \<and> inv q' \<and> view q' = ys"
proof (induction xs arbitrary: q)
  case (Cons x xs)
  from deq_ok [OF Cons.prems(1), of x "xs @ ys"] Cons.prems(2) obtain q1 where
    q1: "deq q = Inr (x, q1)" "inv q1" "view q1 = xs @ ys" by auto
  with Cons.IH [of q1] show ?case by auto
qed simp

lemma enq_view: "inv q \<Longrightarrow> enq x q = Inr q' \<Longrightarrow> inv q' \<and> view q' = view q @ [x]"
  using enq_ok [of q x] enq_full [of q x] by (cases "length (view q) < cap") auto

end

definition pool_ok :: "pool \<Rightarrow> bool" where
  "pool_ok p \<longleftrightarrow> length (voice_task_queue p) = 1024 \<and> 0 \<le> task_count p \<and> task_count p \<le> 1024"

definition queued :: "pool \<Rightarrow> addr option list" where
  "queued p = take (nat (task_count p)) (voice_task_queue p)"

lemma array_get_nth [simp]: "k < length xs \<Longrightarrow> array_get xs (int k) = Inr (xs ! k)"
  by (simp add: array_get_def)

lemma array_set_nth [simp]: "k < length xs \<Longrightarrow> array_set xs (int k) x = Inr (xs[k := x])"
  by (simp add: array_set_def)

lemma shift_tasks_eq:
  "k \<le> n \<Longrightarrow> n < length q \<Longrightarrow>
   shift_tasks q (int k) (int n) = Inr (take k q @ take (n - k) (drop (Suc k) q) @ drop n q)"
proof (induction "n - k" arbitrary: k q)
  case 0
  then show ?case by (simp add: shift_tasks.simps [of q "int k"])
next
  case (Suc d)
  then have k: "k < n" "Suc k < length q" by simp_all
  let ?q = "q[k := q ! Suc k]"
  have g: "array_get q (int k + 1) = Inr (q ! Suc k)" using array_get_nth [OF k(2)] by (simp add: add.commute)
  have "shift_tasks q (int k) (int n) = shift_tasks ?q (int (Suc k)) (int n)"
    using k g by (subst shift_tasks.simps) (simp add: add.commute)
  also have "\<dots> = Inr (take (Suc k) ?q @ take (n - Suc k) (drop (Suc (Suc k)) ?q) @ drop n ?q)"
    by (rule Suc(1)) (use Suc(2,4) k in simp_all)
  also have "take (Suc k) ?q = take k q @ [q ! Suc k]"
    using k by (simp add: take_Suc_conv_app_nth)
  finally have "shift_tasks q (int k) (int n) =
    Inr (take k q @ q ! Suc k # take (n - Suc k) (drop (Suc (Suc k)) q) @ drop n q)" using k by simp
  moreover have "drop (Suc k) q = q ! Suc k # drop (Suc (Suc k)) q" using Cons_nth_drop_Suc [OF k(2)] by simp
  then have "take (n - k) (drop (Suc k) q) = q ! Suc k # take (n - Suc k) (drop (Suc (Suc k)) q)"
    using k(1) by (simp add: take_Cons')
  ultimately show ?case by simp
qed

lemma put_task_ok:
  assumes "pool_ok p" "length (queued p) < 1024"
  shows "\<exists>p'. put_task t p = Inr p' \<and> pool_ok p' \<and> queued p' = queued p @ [t]"
proof -
  obtain k where k: "task_count p = int k" using assms(1) by (metis pool_ok_def nonneg_int_cases)
  with assms have "k < 1024" by (auto simp: pool_ok_def queued_def)
  with assms k show ?thesis
    by (simp add: put_task_def pool_ok_def queued_def nat_add_distrib take_Suc_conv_app_nth)
qed

lemma put_task_full: "pool_ok p \<Longrightarrow> 1024 \<le> length (queued p) \<Longrightarrow> put_task t p = Inl OutOfBounds"
  by (simp add: put_task_def array_set_def pool_ok_def queued_def)

lemma take_task_ok:
  assumes "pool_ok p" "queued p = t # ts"
  shows "\<exists>p'. take_task p = Inr (t, p') \<and> pool_ok p' \<and> queued p' = ts"
proof -
  obtain k where k: "task_count p = int (Suc k)"
  proof -
    from assms have "task_count p \<noteq> 0" "0 \<le> task_count p" by (auto simp: queued_def pool_ok_def)
    then show ?thesis using that [of "nat (task_count p - 1)"] by simp
  qed
  let ?q = "voice_task_queue p"
  from assms(1) k have len: "length ?q = 1024" "k < 1024" by (simp_all add: pool_ok_def)
  from assms(2) k len obtain q where q: "?q = t # q" by (cases ?q) (auto simp: queued_def nat_add_distrib)
  have "shift_tasks ?q 0 (int k) = Inr (take k (drop 1 ?q) @ drop k ?q)"
    using shift_tasks_eq [of 0 k ?q] len by simp
  moreover have "array_get ?q 0 = Inr t" using q by (simp add: array_get_def)
  moreover have "take k q = ts" using assms(2) k q by (simp add: queued_def nat_add_distrib)
  moreover from this have "length ts = k" using len q by auto
  ultimately show ?thesis
    using k len q by (simp add: take_task_def pool_ok_def queued_def)
qed

interpretation vq: bounded_queue queued pool_ok 1024 put_task take_task
  by unfold_locales (rule put_task_ok put_task_full take_task_ok; assumption)+

lemma pool_start_ok: "pool_ok pool_start" "queued pool_start = []"
  by (simp_all add: pool_ok_def pool_start_def queued_def)

text \<open>C28: The voice tasks are a queue: what is submitted to the empty pool, up to 1024 tasks, is taken in the
  same order by the threads; the task after that is stored behind the end of the array.\<close>

theorem tasks_in_order:
  "\<exists>p. enq_all put_task (take 1024 ts) pool_start = Inr p \<and>
    (\<exists>p'. deq_all take_task (length (take 1024 ts)) p = Inr (take 1024 ts, p') \<and> queued p' = []) \<and>
    (if 1024 \<le> length ts then put_task t p = Inl OutOfBounds else queued p = ts)"
proof -
  from vq.enq_all_ok [OF pool_start_ok(1), of "take 1024 ts"] obtain p where
    p: "enq_all put_task (take 1024 ts) pool_start = Inr p" "pool_ok p" "queued p = take 1024 ts"
    by (auto simp: pool_start_ok)
  from vq.deq_all_ok [OF p(2), of "take 1024 ts" "[]"] p(3) have
    "\<exists>p'. deq_all take_task (length (take 1024 ts)) p = Inr (take 1024 ts, p') \<and> queued p' = []" by auto
  moreover have "put_task t p = Inl OutOfBounds" if "1024 \<le> length ts"
    by (rule put_task_full [OF p(2)]) (use p(3) that in simp)
  ultimately show ?thesis using p by auto
qed

section \<open>What is relayed\<close>

text \<open>The sends to the other users of the channel, one per user.\<close>

definition others :: "int \<Rightarrow> user list \<Rightarrow> user list" where
  "others own us = filter (\<lambda>v. own \<noteq> uint (uid v)) us"

lemma udp_server_send_full:
  assumes "script w = r # rest" "sret r = n" "0 < n" "nat n \<le> length buf"
  shows "udp_server_send fd buf n w =
    Inr (n, \<lparr>script = rest, calls = calls w @ [(SSend fd (take (nat n) buf), n)]\<rparr>)"
  unfolding udp_server_send_def by (rule client_send_full [OF assms])

lemma relay_all:
  assumes "0 < n" "nat n \<le> length buf"
  shows "script w = map (\<lambda>_. \<lparr>sret = n, serr = 0, sbytes = []\<rparr>) (others own us) @ rest \<Longrightarrow>
    fold_res (\<lambda>v. relay own buf n (Some v)) us w = Inr \<lparr>script = rest,
      calls = calls w @ map (\<lambda>v. (SSend (uint (udp_fd_s v)) (take (nat n) buf), n)) (others own us)\<rparr>"
proof (induction us arbitrary: w)
  case Nil
  then show ?case by (simp add: others_def)
next
  case (Cons v us)
  show ?case
  proof (cases "own = uint (uid v)")
    case True
    with Cons show ?thesis by (simp add: relay_def others_def)
  next
    case False
    let ?rest = "map (\<lambda>_. \<lparr>sret = n, serr = 0, sbytes = []\<rparr>) (others own us) @ rest"
    have sc: "script w = \<lparr>sret = n, serr = 0, sbytes = []\<rparr> # ?rest"
      using Cons.prems False by (simp add: others_def)
    have "udp_server_send (uint (udp_fd_s v)) buf n w = Inr (n, \<lparr>script = ?rest,
        calls = calls w @ [(SSend (uint (udp_fd_s v)) (take (nat n) buf), n)]\<rparr>)"
      by (rule udp_server_send_full [OF sc]) (use assms in simp_all)
    then show ?thesis
      using False Cons.IH by (simp add: relay_def others_def del: rbind_eq_Inr)
  qed
qed

definition packet_in :: "byte list \<Rightarrow> sysret" where
  "packet_in d = \<lparr>sret = int (length d), serr = 0, sbytes = d\<rparr>"

lemma recv_packet:
  assumes "script w = packet_in d # rest" "length d \<le> 256" "length buf = 256"
  shows "udp_server_recv fd buf w = Inr (int (length d), d @ drop (length d) buf,
    w\<lparr>script := rest, calls := calls w @ [(SRecv fd 512, int (length d))]\<rparr>)"
  using assms by (simp add: udp_server_recv_def recv_into_def sys_def packet_in_def MD_BUFF_SIZE_def)

text \<open>Without a user to send to, packets are received and dropped, until there are no more.\<close>

lemma voice_loop_drops:
  "script w = map packet_in later @ e # rest \<Longrightarrow> list_all (\<lambda>d. d \<noteq> [] \<and> length d \<le> 256) later \<Longrightarrow>
   length buf = 256 \<Longrightarrow> sret e \<le> 0 \<Longrightarrow>
   voice_loop uh task buf None w = Inr \<lparr>script = rest, calls = calls w @
     map (\<lambda>d. (SRecv (vt_udp_fd task) 512, int (length d))) later @ [(SRecv (vt_udp_fd task) 512, sret e)]\<rparr>"
proof (induction later arbitrary: w buf)
  case Nil
  then have "udp_server_recv (vt_udp_fd task) buf w =
      Inr (sret e, buf, w\<lparr>script := rest, calls := calls w @ [(SRecv (vt_udp_fd task) 512, sret e)]\<rparr>)"
    by (simp add: udp_server_recv_def recv_into_def sys_def MD_BUFF_SIZE_def)
  with Nil(4) show ?case by (simp add: voice_loop.simps [of uh task buf])
next
  case (Cons d later)
  let ?w = "w\<lparr>script := map packet_in later @ e # rest,
    calls := calls w @ [(SRecv (vt_udp_fd task) 512, int (length d))]\<rparr>"
  have "udp_server_recv (vt_udp_fd task) buf w = Inr (int (length d), d @ drop (length d) buf, ?w)"
    by (rule recv_packet) (use Cons.prems in simp_all)
  moreover have "voice_loop uh task (d @ drop (length d) buf) None ?w = Inr \<lparr>script = rest, calls = calls ?w @
     map (\<lambda>d. (SRecv (vt_udp_fd task) 512, int (length d))) later @ [(SRecv (vt_udp_fd task) 512, sret e)]\<rparr>"
    by (rule Cons.IH) (use Cons.prems in simp_all)
  ultimately show ?case
    using Cons.prems(2) by (simp add: voice_loop.simps [of uh task buf] fuel_def)
qed

text \<open>C24: Of the voice packets that wait for a task when a thread executes it, only the first is sent to the
  other users of the channel, once to each and not to the task's own user. The packets after it
  are received and dropped, because the loop over the users does not start again at the head of
  the list. A first packet of more than 256 bytes overflows the buffer.\<close>

theorem first_packet_relayed:
  assumes "rep uh A" "A l = Some (k, us)" "live_tasks p t = Some v" "vt_channel v = Some c"
    "live_chans p c = Some ch" "ch_users ch = Some l"
    and "d \<noteq> []" "length d \<le> 512" "sret e \<le> 0" "list_all (\<lambda>d. d \<noteq> [] \<and> length d \<le> 256) later"
    and "script w = packet_in d # map (\<lambda>_. \<lparr>sret = int (length d), serr = 0, sbytes = []\<rparr>) (others (vt_uid v) us) @
      map packet_in later @ e # rest"
  shows "execute_voice_task uh p (Some t) w = (if length d \<le> 256
    then Inr \<lparr>script = rest, calls = calls w @ [(SRecv (vt_udp_fd v) 512, int (length d))] @
      map (\<lambda>u. (SSend (uint (udp_fd_s u)) d, int (length d))) (others (vt_uid v) us) @
      map (\<lambda>d. (SRecv (vt_udp_fd v) 512, int (length d))) later @ [(SRecv (vt_udp_fd v) 512, sret e)]\<rparr>
    else Inl OutOfBounds)"
proof -
  let ?buf = "replicate SM_BUFF_SIZE 0" and ?n = "int (length d)"
  let ?acks = "map (\<lambda>_. \<lparr>sret = ?n, serr = 0, sbytes = []\<rparr>) (others (vt_uid v) us)"
  from assms(1) obtain N where N: "repN uh N A" by (auto simp: rep_def)
  from list_head [OF repN_list [OF N assms(2)]] obtain L where
    L: "lists uh l = Some L" "seg (nodes uh) (ll_head L) (N l) None" "map snd (N l) = us" by auto
  have "execute_voice_task uh p (Some t) w = voice_loop uh v ?buf (ll_head L) w"
    using assms(3-6) L(1) by (simp add: execute_voice_task_def deref_task_def get_head_user_def get_head_node_def)
  also have "\<dots> = (if length d \<le> 256 then Inr \<lparr>script = rest, calls = calls w @ [(SRecv (vt_udp_fd v) 512, ?n)] @
      map (\<lambda>u. (SSend (uint (udp_fd_s u)) d, ?n)) (others (vt_uid v) us) @
      map (\<lambda>d. (SRecv (vt_udp_fd v) 512, int (length d))) later @ [(SRecv (vt_udp_fd v) 512, sret e)]\<rparr>
    else Inl OutOfBounds)"
  proof (cases "length d \<le> 256")
    case False
    then have "udp_server_recv (vt_udp_fd v) ?buf w = Inl OutOfBounds"
      using assms(8,11) by (simp add: udp_server_recv_def recv_into_def sys_def packet_in_def MD_BUFF_SIZE_def SM_BUFF_SIZE_def)
    with False show ?thesis by (simp add: voice_loop.simps [of uh v ?buf])
  next
    case True
    let ?w1 = "w\<lparr>script := ?acks @ map packet_in later @ e # rest, calls := calls w @ [(SRecv (vt_udp_fd v) 512, ?n)]\<rparr>"
    let ?b = "d @ drop (length d) ?buf"
    let ?w2 = "\<lparr>script = map packet_in later @ e # rest,
      calls = calls ?w1 @ map (\<lambda>u. (SSend (uint (udp_fd_s u)) (take (nat ?n) ?b), ?n)) (others (vt_uid v) us)\<rparr>"
    have r: "udp_server_recv (vt_udp_fd v) ?buf w = Inr (?n, ?b, ?w1)"
      by (rule recv_packet [OF assms(11) True]) (simp add: SM_BUFF_SIZE_def)
    have "iter_nodes (fuel uh) uh (ll_head L) (relay (vt_uid v) ?b ?n) ?w1 =
        fold_res (\<lambda>x. relay (vt_uid v) ?b ?n (Some x)) us ?w1"
      using iter_nodes_seg [OF L(2) rep_list_fuel [OF N assms(2)]] L(3) by simp
    also have "\<dots> = Inr ?w2"
      by (rule relay_all) (use assms(7) in simp_all)
    finally have it: "iter_nodes (fuel uh) uh (ll_head L) (relay (vt_uid v) ?b ?n) ?w1 = Inr ?w2" .
    have "voice_loop uh v ?b None ?w2 = Inr \<lparr>script = rest, calls = calls ?w2 @
        map (\<lambda>d. (SRecv (vt_udp_fd v) 512, int (length d))) later @ [(SRecv (vt_udp_fd v) 512, sret e)]\<rparr>"
      by (rule voice_loop_drops) (use assms(9,10) True in \<open>simp_all add: SM_BUFF_SIZE_def\<close>)
    moreover have "0 < ?n" using assms(7) by simp
    ultimately show ?thesis
      using True r it by (simp add: voice_loop.simps [of uh v ?buf])
  qed
  finally show ?thesis .
qed

definition speaker :: user where
  "speaker = \<lparr>uid = 4, uname = Some (str ''ann'' @ [0]), udp_fd_s = 0, udp_fd_r = 0\<rparr>"

definition listener :: user where
  "listener = \<lparr>uid = 5, uname = Some (str ''bob'' @ [0]), udp_fd_s = 9, udp_fd_r = 0\<rparr>"

definition two_users :: uheap where
  "two_users = \<lparr>nodes = [1 \<mapsto> \<lparr>ndata = Some listener, nxt = Some 2\<rparr>, 2 \<mapsto> \<lparr>ndata = Some speaker, nxt = None\<rparr>],
     lists = [0 \<mapsto> \<lparr>ll_length = 2, ll_head = Some 1, ll_tail = Some 2\<rparr>], brk = 3, malloc_ok = (\<lambda>_. True), junk = (\<lambda>_. 0)\<rparr>"

definition one_task :: pool where
  "one_task = pool_start\<lparr>live_tasks := [3 \<mapsto> \<lparr>vt_uid = 4, vt_udp_fd = 7, vt_channel = Some 8\<rparr>],
     live_chans := [8 \<mapsto> \<lparr>ch_fd = 0, ch_id = 32769, ch_users = Some 0\<rparr>]\<rparr>"

lemma two_users_rep: "rep two_users [0 \<mapsto> (2, [listener, speaker])]"
  unfolding rep_def repN_def
  by (rule exI [of _ "(\<lambda>_. [])(0 := [(1, listener), (2, speaker)])"]) (auto simp: two_users_def list_at_def)

theorem first_packet_relayed_witness:
  "execute_voice_task two_users one_task (Some 3)
     \<lparr>script = [packet_in [1, 2], \<lparr>sret = 2, serr = 0, sbytes = []\<rparr>, packet_in [3], \<lparr>sret = -1, serr = 11, sbytes = []\<rparr>], calls = []\<rparr> =
   Inr \<lparr>script = [], calls = [(SRecv 7 512, 2), (SSend 9 [1, 2], 2), (SRecv 7 512, 1), (SRecv 7 512, -1)]\<rparr>"
  using first_packet_relayed [OF two_users_rep, of 0 2 "[listener, speaker]" one_task 3
      "\<lparr>vt_uid = 4, vt_udp_fd = 7, vt_channel = Some 8\<rparr>" 8 "\<lparr>ch_fd = 0, ch_id = 32769, ch_users = Some 0\<rparr>"
      "[1, 2]" "\<lparr>sret = -1, serr = 11, sbytes = []\<rparr>" "[[3]]"
      "\<lparr>script = [packet_in [1, 2], \<lparr>sret = 2, serr = 0, sbytes = []\<rparr>, packet_in [3],
         \<lparr>sret = -1, serr = 11, sbytes = []\<rparr>], calls = []\<rparr>" "[]"]
  by (simp add: one_task_def others_def speaker_def listener_def)

section \<open>Two tasks of one channel\<close>

text \<open>The channel of a voice task is freed with the task.\<close>

lemma shared_channel_freed:
  assumes "live_tasks p t = Some v" "live_tasks p t' = Some v'" "t \<noteq> t'"
    and "vt_channel v = Some c" "vt_channel v' = Some c" "live_chans p c = Some ch"
  shows "\<exists>p'. voice_task_destroy (Some t) p = Inr p' \<and> live_tasks p' t = None \<and>
    execute_voice_task uh p' (Some t') w = Inl Dangling \<and> voice_task_destroy (Some t') p' = Inl BadFree"
  using assms by (auto simp: voice_task_destroy_def deref_task_def execute_voice_task_def)

lemma shared_channel_freed_example:
  "\<exists>p'. voice_task_destroy (Some 3) (one_task\<lparr>live_tasks := (live_tasks one_task)(4 \<mapsto>
       \<lparr>vt_uid = 5, vt_udp_fd = 9, vt_channel = Some 8\<rparr>)\<rparr>) = Inr p' \<and>
     execute_voice_task two_users p' (Some 4) \<lparr>script = [], calls = []\<rparr> = Inl Dangling"
  using shared_channel_freed [of "one_task\<lparr>live_tasks := (live_tasks one_task)(4 \<mapsto>
       \<lparr>vt_uid = 5, vt_udp_fd = 9, vt_channel = Some 8\<rparr>)\<rparr>" 3 "\<lparr>vt_uid = 4, vt_udp_fd = 7, vt_channel = Some 8\<rparr>"
      4 "\<lparr>vt_uid = 5, vt_udp_fd = 9, vt_channel = Some 8\<rparr>" 8 "\<lparr>ch_fd = 0, ch_id = 32769, ch_users = Some 0\<rparr>"
      two_users "\<lparr>script = [], calls = []\<rparr>"]
  by (auto simp: one_task_def)

end
