(* ===== verification/Voice_Pool.thy ===== *)
theory Voice_Pool
  imports Voice "HOL-Library.Multiset"
begin

text \<open>
  The threads of server_voice.c: the four workers of \<open>voice_pool\<close>, which run \<open>start_thread\<close>, and the
  thread of the server, which may call the functions of the file. A step of a thread is the code between
  two points at which another thread can be scheduled: taking the mutex, a critical section with the
  release of the mutex at its end, the execution or destruction of a task, and the signal.

  Thread 0 is the server, the threads 1 to 4 are the workers.
\<close>

section \<open>Threads\<close>

definition NUM_VTHREADS :: nat where "NUM_VTHREADS = 4"

datatype pc =
    Outside                     \<comment> \<open>the server, not in a function of this file\<close>
  | Locking                     \<comment> \<open>a worker, before the mutex\<close>
  | Deciding                    \<comment> \<open>a worker that holds the mutex, before the test of \<open>task_count\<close>\<close>
  | Asleep                      \<comment> \<open>a worker in \<open>pthread_cond_wait\<close>\<close>
  | Holding "addr option"       \<comment> \<open>a worker with a task\<close>
  | Submitting "addr option"    \<comment> \<open>in \<open>submit_task\<close>, before the mutex\<close>
  | Storing "addr option"       \<comment> \<open>in \<open>submit_task\<close>, with the mutex\<close>
  | Signalling                  \<comment> \<open>in \<open>submit_task\<close>, before the signal\<close>

record voice_sys =
  vpool :: pool
  vos :: os
  owner :: "nat option"
  pcs :: "pc list"

definition voice_pool :: "os \<Rightarrow> voice_sys" where
  "voice_pool w = \<lparr>vpool = pool_start, vos = w, owner = None, pcs = Outside # replicate NUM_VTHREADS Locking\<rparr>"

text \<open>After \<open>pthread_cond_signal\<close> a thread that was asleep, if there is one, competes for the mutex again.
  Which one is a choice of the system: \<open>j\<close>.\<close>

definition cond_signal :: "nat \<Rightarrow> pc list \<Rightarrow> pc list res" where
  "cond_signal j ps = (if Asleep \<notin> set ps then Inr ps
     else if j < length ps \<and> ps ! j = Asleep then Inr (ps[j := Locking]) else Inl Blocked)"

definition goto :: "nat \<Rightarrow> pc \<Rightarrow> voice_sys \<Rightarrow> voice_sys" where
  "goto i c s = s\<lparr>pcs := (pcs s)[i := c]\<rparr>"

definition lock :: "nat \<Rightarrow> pc \<Rightarrow> voice_sys \<Rightarrow> voice_sys res" where
  "lock i c s = (if owner s = None then Inr (goto i c (s\<lparr>owner := Some i\<rparr>)) else Inl Blocked)"

definition unlock :: "nat \<Rightarrow> pc \<Rightarrow> voice_sys \<Rightarrow> voice_sys" where
  "unlock i c s = goto i c (s\<lparr>owner := None\<rparr>)"

text \<open>The steps of \<open>start_thread\<close>.\<close>

definition worker_decide :: "nat \<Rightarrow> voice_sys \<Rightarrow> voice_sys res" where
  "worker_decide i s =
     (if task_count (vpool s) = 0 then Inr (unlock i Asleep s)
      else rbind (take_task (vpool s)) (\<lambda>(task, p). Inr (unlock i (Holding task) (s\<lparr>vpool := p\<rparr>))))"

text \<open>Whether the channel of the user is active is read without the mutex.\<close>

definition worker_execute :: "uheap \<Rightarrow> nat \<Rightarrow> addr option \<Rightarrow> voice_sys \<Rightarrow> voice_sys res" where
  "worker_execute uh i task s =
     rbind (deref_task task (vpool s)) (\<lambda>v.
     rbind (array_get (active_voice_chan (vpool s)) (vt_uid v)) (\<lambda>active.
       if active then
         rbind (execute_voice_task uh (vpool s) task (vos s)) (\<lambda>w.
           Inr (goto i (Submitting task) (s\<lparr>vos := w\<rparr>)))
       else
         rbind (voice_task_destroy task (vpool s)) (\<lambda>p. Inr (goto i Locking (s\<lparr>vpool := p\<rparr>)))))"

text \<open>The steps of \<open>submit_task\<close>.\<close>

definition submit_store :: "nat \<Rightarrow> addr option \<Rightarrow> voice_sys \<Rightarrow> voice_sys res" where
  "submit_store i task s =
     rbind (put_task task (vpool s)) (\<lambda>p. Inr (unlock i Signalling (s\<lparr>vpool := p\<rparr>)))"

definition submit_signal :: "nat \<Rightarrow> nat \<Rightarrow> voice_sys \<Rightarrow> voice_sys res" where
  "submit_signal i j s =
     rbind (cond_signal j (pcs s)) (\<lambda>ps.
       Inr (goto i (if i = 0 then Outside else Locking) (s\<lparr>pcs := ps\<rparr>)))"

definition start_thread :: "uheap \<Rightarrow> nat \<Rightarrow> nat \<Rightarrow> voice_sys \<Rightarrow> voice_sys res" where
  "start_thread uh i j s = (if i < length (pcs s) then
     (case pcs s ! i of
        Outside \<Rightarrow> Inl Blocked
      | Locking \<Rightarrow> lock i Deciding s
      | Deciding \<Rightarrow> worker_decide i s
      | Asleep \<Rightarrow> Inl Blocked
      | Holding task \<Rightarrow> worker_execute uh i task s
      | Submitting task \<Rightarrow> lock i (Storing task) s
      | Storing task \<Rightarrow> submit_store i task s
      | Signalling \<Rightarrow> submit_signal i j s) else Inl Blocked)"

text \<open>The server calls \<open>submit_task\<close> with a new task.\<close>

definition submit_task :: "addr \<Rightarrow> voice_task \<Rightarrow> voice_sys \<Rightarrow> voice_sys res" where
  "submit_task t v s = (if pcs s ! 0 = Outside \<and> live_tasks (vpool s) t = None
     then Inr (goto 0 (Submitting (Some t))
       (s\<lparr>vpool := (vpool s)\<lparr>live_tasks := (live_tasks (vpool s))(t \<mapsto> v)\<rparr>\<rparr>))
     else Inl Blocked)"

text \<open>The other functions of the file are one critical section each.\<close>

definition with_mutex :: "(pool \<Rightarrow> pool res) \<Rightarrow> voice_sys \<Rightarrow> voice_sys res" where
  "with_mutex f s = (if owner s = None then rbind (f (vpool s)) (\<lambda>p. Inr (s\<lparr>vpool := p\<rparr>)) else Inl Blocked)"

text \<open>The states of the pool. A thread may also wake up without a signal, and while the threads run, the
  network and the memory of the channels change.\<close>

inductive voice_states :: "uheap \<Rightarrow> voice_sys \<Rightarrow> bool" for uh where
  start: "voice_states uh (voice_pool w)"
| thread: "voice_states uh s \<Longrightarrow> start_thread uh i j s = Inr s' \<Longrightarrow> voice_states uh s'"
| spurious: "voice_states uh s \<Longrightarrow> i < length (pcs s) \<Longrightarrow> pcs s ! i = Asleep \<Longrightarrow> voice_states uh (goto i Locking s)"
| submit: "voice_states uh s \<Longrightarrow> submit_task t v s = Inr s' \<Longrightarrow> voice_states uh s'"
| toggle: "voice_states uh s \<Longrightarrow> with_mutex (toggle_user_vchan u) s = Inr s' \<Longrightarrow> voice_states uh s'"
| set_fd: "voice_states uh s \<Longrightarrow> with_mutex (set_user_vchan u fd) s = Inr s' \<Longrightarrow> voice_states uh s'"
| outside: "voice_states uh s \<Longrightarrow>
    voice_states uh (s\<lparr>vos := w, vpool := (vpool s)\<lparr>live_chans := c\<rparr>\<rparr>)"

section \<open>Who holds the mutex, and who holds a task\<close>

definition in_section :: "pc \<Rightarrow> bool" where
  "in_section c = (case c of Deciding \<Rightarrow> True | Storing t \<Rightarrow> True | _ \<Rightarrow> False)"

definition held :: "pc \<Rightarrow> addr option multiset" where
  "held c = (case c of Holding t \<Rightarrow> {#t#} | Submitting t \<Rightarrow> {#t#} | Storing t \<Rightarrow> {#t#} | _ \<Rightarrow> {#})"

definition places :: "voice_sys \<Rightarrow> addr option multiset" where
  "places s = mset (queued (vpool s)) + sum_list (map held (pcs s))"

text \<open>Only the server is outside, and only the workers take tasks out of the queue.\<close>

definition role_ok :: "nat \<Rightarrow> pc \<Rightarrow> bool" where
  "role_ok i c = (case c of Outside \<Rightarrow> i = 0 | Submitting _ \<Rightarrow> True | Storing _ \<Rightarrow> True | Signalling \<Rightarrow> True | _ \<Rightarrow> 0 < i)"

definition well_shaped :: "voice_sys \<Rightarrow> bool" where
  "well_shaped s \<longleftrightarrow> length (pcs s) = Suc NUM_VTHREADS \<and> pool_ok (vpool s) \<and>
     (\<forall>i < length (pcs s). role_ok i (pcs s ! i))"

definition mutex_ok :: "voice_sys \<Rightarrow> bool" where
  "mutex_ok s \<longleftrightarrow> (\<forall>i. (i < length (pcs s) \<and> in_section (pcs s ! i)) \<longleftrightarrow> owner s = Some i)"

definition tasks_placed :: "voice_sys \<Rightarrow> bool" where
  "tasks_placed s \<longleftrightarrow> (\<forall>t. count (places s) t = (if t \<in> Some ` dom (live_tasks (vpool s)) then 1 else 0))"

text \<open>A worker that is not asleep, or a signal on its way.\<close>

definition awake :: "voice_sys \<Rightarrow> bool" where
  "awake s \<longleftrightarrow> pcs s ! 0 = Signalling \<or> (\<exists>i < length (pcs s). 0 < i \<and> pcs s ! i \<noteq> Asleep)"

definition pool_inv :: "voice_sys \<Rightarrow> bool" where
  "pool_inv s \<longleftrightarrow> well_shaped s \<and> mutex_ok s \<and> tasks_placed s \<and> (task_count (vpool s) \<noteq> 0 \<longrightarrow> awake s)"

lemma goto_simps [simp]:
  "pcs (goto i c s) = (pcs s)[i := c]" "vpool (goto i c s) = vpool s" "owner (goto i c s) = owner s"
  "pcs (unlock i c s) = (pcs s)[i := c]" "vpool (unlock i c s) = vpool s" "owner (unlock i c s) = None"
  by (simp_all add: goto_def unlock_def)

lemma mutex_goto:
  "mutex_ok s \<Longrightarrow> i < length (pcs s) \<Longrightarrow> in_section c = in_section (pcs s ! i) \<Longrightarrow>
   owner s' = owner s \<Longrightarrow> pcs s' = (pcs s)[i := c] \<Longrightarrow> mutex_ok s'"
  unfolding mutex_ok_def by (metis length_list_update nth_list_update_eq nth_list_update_neq)

lemma mutex_lock:
  "mutex_ok s \<Longrightarrow> i < length (pcs s) \<Longrightarrow> owner s = None \<Longrightarrow> in_section c \<Longrightarrow>
   owner s' = Some i \<Longrightarrow> pcs s' = (pcs s)[i := c] \<Longrightarrow> mutex_ok s'"
  unfolding mutex_ok_def by (auto simp: nth_list_update)

lemma mutex_unlock:
  "mutex_ok s \<Longrightarrow> i < length (pcs s) \<Longrightarrow> in_section (pcs s ! i) \<Longrightarrow> \<not> in_section c \<Longrightarrow>
   owner s' = None \<Longrightarrow> pcs s' = (pcs s)[i := c] \<Longrightarrow> mutex_ok s'"
  unfolding mutex_ok_def by (metis length_list_update nth_list_update_eq nth_list_update_neq option.inject option.distinct(1))

lemma well_shaped_goto:
  "well_shaped s \<Longrightarrow> pool_ok (vpool s') \<Longrightarrow> role_ok i c \<Longrightarrow> pcs s' = (pcs s)[i := c] \<Longrightarrow> well_shaped s'"
  unfolding well_shaped_def by (metis length_list_update nth_list_update_eq nth_list_update_neq)

lemma held_le: "i < length ps \<Longrightarrow> held (ps ! i) \<subseteq># sum_list (map held ps)"
proof (induction ps arbitrary: i)
  case (Cons a ps)
  then show ?case by (cases i) (auto intro: subset_mset.order_trans [OF _ mset_subset_eq_add_right])
qed simp

lemma sum_held:
  "i < length ps \<Longrightarrow> sum_list (map held (ps[i := c])) + held (ps ! i) = sum_list (map held ps) + held c"
proof (induction ps arbitrary: i)
  case (Cons a ps)
  show ?case
  proof (cases i)
    case 0
    then show ?thesis by (simp add: ac_simps)
  next
    case (Suc k)
    with Cons.IH [of k] Cons.prems show ?thesis by (simp add: ac_simps)
  qed
qed simp

text \<open>A thread that moves on, with a change of the queue: what leaves the queue and the thread's hands
  is what comes into them.\<close>

lemma places_goto:
  assumes "i < length (pcs s)" "pcs s' = (pcs s)[i := c]"
    "mset (queued (vpool s')) + held c = mset (queued (vpool s)) + held (pcs s ! i)"
  shows "places s' = places s"
proof -
  let ?S = "sum_list (map held (pcs s))" and ?S' = "sum_list (map held (pcs s'))"
    and ?q = "mset (queued (vpool s))" and ?q' = "mset (queued (vpool s'))" and ?h = "held (pcs s ! i)"
  have "?S' + ?h = ?S + held c" using sum_held [OF assms(1), of c] assms(2) by simp
  then have "?q' + held c + (?S' + ?h) = ?q + ?h + (?S + held c)" using assms(3) by simp
  then have "(?q' + ?S') + (held c + ?h) = (?q + ?S) + (held c + ?h)" by (simp only: ac_simps)
  then show ?thesis by (simp add: places_def)
qed

lemma placed_goto:
  "tasks_placed s \<Longrightarrow> places s' = places s \<Longrightarrow> dom (live_tasks (vpool s')) = dom (live_tasks (vpool s)) \<Longrightarrow>
   tasks_placed s'"
  by (simp add: tasks_placed_def)

lemma awake_goto:
  assumes "task_count (vpool s) \<noteq> 0 \<longrightarrow> awake s" "i < length (pcs s)" "pcs s' = (pcs s)[i := c]" "c \<noteq> Asleep"
    and "i = 0 \<longrightarrow> pcs s ! 0 \<noteq> Signalling \<and> (task_count (vpool s) \<noteq> 0 \<or> task_count (vpool s') = 0 \<or> c = Signalling)"
  shows "task_count (vpool s') \<noteq> 0 \<longrightarrow> awake s'"
proof (cases "i = 0")
  case False
  with assms(2-4) show ?thesis by (auto simp: awake_def)
next
  case True
  then show ?thesis using assms by (auto simp: awake_def nth_list_update)
qed

lemma pool_inv_step:
  assumes "pool_inv s" "i < length (pcs s)" "pcs s' = (pcs s)[i := c]" "pool_ok (vpool s')" "role_ok i c" "mutex_ok s'"
    and "mset (queued (vpool s')) + held c = mset (queued (vpool s)) + held (pcs s ! i)"
    and "dom (live_tasks (vpool s')) = dom (live_tasks (vpool s))" "c \<noteq> Asleep"
    and "i = 0 \<longrightarrow> pcs s ! 0 \<noteq> Signalling \<and> (task_count (vpool s) \<noteq> 0 \<or> task_count (vpool s') = 0 \<or> c = Signalling)"
  shows "pool_inv s'"
  using assms well_shaped_goto [of s s' i c] placed_goto [OF _ places_goto, of s i s' c] awake_goto [of s i s' c]
  by (simp add: pool_inv_def)

section \<open>Every step keeps the invariant\<close>

lemma pool_inv_shape:
  "pool_inv s \<Longrightarrow> i < length (pcs s) \<Longrightarrow> role_ok i (pcs s ! i)" "pool_inv s \<Longrightarrow> pool_ok (vpool s)"
  "pool_inv s \<Longrightarrow> mutex_ok s" "pool_inv s \<Longrightarrow> tasks_placed s"
  by (simp_all add: pool_inv_def well_shaped_def)

lemma lock_inv:
  assumes "pool_inv s" "i < length (pcs s)" "lock i c s = Inr s'" "in_section c" "role_ok i c"
    "held c = held (pcs s ! i)" "pcs s ! i \<noteq> Signalling" "i = 0 \<longrightarrow> c \<noteq> Outside"
  shows "pool_inv s'"
proof -
  from assms(3) have o: "owner s = None" and s': "s' = goto i c (s\<lparr>owner := Some i\<rparr>)"
    by (simp_all add: lock_def split: if_splits)
  have m: "mutex_ok s'" by (rule mutex_lock [OF pool_inv_shape(3) [OF assms(1)] assms(2) o assms(4)]) (simp_all add: s')
  show ?thesis
    by (rule pool_inv_step [OF assms(1,2) _ _ assms(5) m])
      (use assms pool_inv_shape(2) [OF assms(1)] in \<open>auto simp: s' in_section_def\<close>)
qed

lemma take_task_live: "take_task p = Inr (t, p') \<Longrightarrow> live_tasks p' = live_tasks p"
  by (auto simp: take_task_def)

lemma put_task_live: "put_task t p = Inr p' \<Longrightarrow> live_tasks p' = live_tasks p"
  by (auto simp: put_task_def)

lemma queued_Nil: "pool_ok p \<Longrightarrow> queued p = [] \<longleftrightarrow> task_count p = 0"
  by (auto simp: queued_def pool_ok_def)

lemma worker_decide_inv:
  assumes "pool_inv s" "i < length (pcs s)" "pcs s ! i = Deciding" "worker_decide i s = Inr s'"
  shows "pool_inv s'"
proof -
  from pool_inv_shape(1) [OF assms(1,2)] assms(3) have i: "0 < i" by (simp add: role_ok_def)
  have p: "pool_ok (vpool s)" by (rule pool_inv_shape(2) [OF assms(1)])
  show ?thesis
  proof (cases "task_count (vpool s) = 0")
    case True
    with assms(4) have s': "s' = unlock i Asleep s" by (simp add: worker_decide_def)
    have "mutex_ok s'"
      by (rule mutex_unlock [OF pool_inv_shape(3) [OF assms(1)] assms(2), of Asleep])
        (simp_all add: s' assms(3) in_section_def)
    moreover have "tasks_placed s'"
      by (rule placed_goto [OF pool_inv_shape(4) [OF assms(1)] places_goto [OF assms(2), of _ Asleep]])
        (simp_all add: s' assms(3) held_def)
    moreover have "well_shaped s'"
      by (rule well_shaped_goto [of s _ i Asleep]) (use assms(1) p i in \<open>simp_all add: s' pool_inv_def role_ok_def\<close>)
    ultimately show ?thesis using True by (simp add: pool_inv_def s')
  next
    case False
    with queued_Nil [OF p] obtain t ts where q: "queued (vpool s) = t # ts" by (cases "queued (vpool s)") auto
    from take_task_ok [OF p q] obtain p' where t: "take_task (vpool s) = Inr (t, p')" "pool_ok p'" "queued p' = ts" by auto
    with False assms(4) have s': "s' = unlock i (Holding t) (s\<lparr>vpool := p'\<rparr>)" by (simp add: worker_decide_def)
    have m: "mutex_ok s'"
      by (rule mutex_unlock [OF pool_inv_shape(3) [OF assms(1)] assms(2), of "Holding t"])
        (simp_all add: s' assms(3) in_section_def)
    show ?thesis
      by (rule pool_inv_step [OF assms(1,2) _ _ _ m, of "Holding t"])
        (use t i q in \<open>simp_all add: s' assms(3) held_def role_ok_def take_task_live\<close>)
  qed
qed

lemma submit_store_inv:
  assumes "pool_inv s" "i < length (pcs s)" "pcs s ! i = Storing t" "submit_store i t s = Inr s'"
  shows "pool_inv s'"
proof -
  from assms(4) obtain p' where t: "put_task t (vpool s) = Inr p'" and s': "s' = unlock i Signalling (s\<lparr>vpool := p'\<rparr>)"
    by (auto simp: submit_store_def)
  from vq.enq_view [OF pool_inv_shape(2) [OF assms(1)] t] have p': "pool_ok p'" "queued p' = queued (vpool s) @ [t]" by auto
  have m: "mutex_ok s'"
    by (rule mutex_unlock [OF pool_inv_shape(3) [OF assms(1)] assms(2), of Signalling])
      (simp_all add: s' assms(3) in_section_def)
  show ?thesis
    by (rule pool_inv_step [OF assms(1,2) _ _ _ m, of Signalling])
      (use p' put_task_live [OF t] assms(3) in \<open>auto simp: s' held_def role_ok_def\<close>)
qed

lemma destroy_live:
  "voice_task_destroy (Some t) p = Inr p' \<Longrightarrow> live_tasks p' = (live_tasks p)(t := None) \<and>
   task_count p' = task_count p \<and> voice_task_queue p' = voice_task_queue p"
  by (auto simp: voice_task_destroy_def split: option.splits if_splits)

lemma queued_cong: "task_count p = task_count p' \<Longrightarrow> voice_task_queue p = voice_task_queue p' \<Longrightarrow> queued p = queued p'"
  by (simp add: queued_def)

lemma pool_ok_cong: "task_count p = task_count p' \<Longrightarrow> voice_task_queue p = voice_task_queue p' \<Longrightarrow> pool_ok p = pool_ok p'"
  by (simp add: pool_ok_def)

text \<open>A thread that holds a task and destroys it.\<close>

lemma destroy_placed:
  assumes "tasks_placed s" "i < length (pcs s)" "pcs s ! i = Holding (Some t)"
    and "vpool s' = p'" "voice_task_destroy (Some t) (vpool s) = Inr p'" "pcs s' = (pcs s)[i := Locking]"
  shows "tasks_placed s'"
proof -
  note d = destroy_live [OF assms(5)]
  have q: "queued p' = queued (vpool s)" using d by (intro queued_cong) simp_all
  have "sum_list (map held (pcs s')) + {#Some t#} = sum_list (map held (pcs s))"
    using sum_held [OF assms(2), of Locking] assms(3,6) by (simp add: held_def)
  then have pl: "places s' + {#Some t#} = places s" by (simp add: places_def assms(4) q add.assoc)
  show ?thesis unfolding tasks_placed_def
  proof
    fix x
    from pl have "count (places s') x + count {#Some t#} x = count (places s) x" by (metis count_union)
    moreover have "count (places s) x = (if x \<in> Some ` dom (live_tasks (vpool s)) then 1 else 0)"
      using assms(1) by (simp add: tasks_placed_def)
    moreover have "Some t \<in> Some ` dom (live_tasks (vpool s))"
      using assms(5) by (auto simp: voice_task_destroy_def deref_task_def split: option.splits)
    ultimately show "count (places s') x = (if x \<in> Some ` dom (live_tasks (vpool s')) then 1 else 0)"
      using d assms(4) by (cases "x = Some t") (auto simp: image_iff split: if_splits)
  qed
qed

lemma worker_execute_inv:
  assumes "pool_inv s" "i < length (pcs s)" "pcs s ! i = Holding task" "worker_execute uh i task s = Inr s'"
  shows "pool_inv s'"
proof -
  from pool_inv_shape(1) [OF assms(1,2)] assms(3) have i: "0 < i" by (simp add: role_ok_def)
  have o: "\<not> in_section (pcs s ! i)" using assms(3) by (simp add: in_section_def)
  consider (run) w where "s' = goto i (Submitting task) (s\<lparr>vos := w\<rparr>)"
    | (drop) p where "voice_task_destroy task (vpool s) = Inr p" "s' = goto i Locking (s\<lparr>vpool := p\<rparr>)"
    using assms(4) by (auto simp: worker_execute_def split: if_splits)
  then show ?thesis
  proof cases
    case run
    have m: "mutex_ok s'"
      by (rule mutex_goto [OF pool_inv_shape(3) [OF assms(1)] assms(2), of "Submitting task"])
        (simp_all add: run o assms(3) in_section_def)
    show ?thesis
      by (rule pool_inv_step [OF assms(1,2) _ _ _ m, of "Submitting task"])
        (use i pool_inv_shape(2) [OF assms(1)] in \<open>simp_all add: run held_def role_ok_def assms(3)\<close>)
  next
    case drop
    from assms(4) obtain t where t: "task = Some t"
      by (cases task) (auto simp: worker_execute_def deref_task_def)
    note d = destroy_live [OF drop(1) [unfolded t]]
    have "mutex_ok s'"
      by (rule mutex_goto [OF pool_inv_shape(3) [OF assms(1)] assms(2), of Locking])
        (simp_all add: drop o assms(3) in_section_def)
    moreover have "tasks_placed s'"
      by (rule destroy_placed [OF pool_inv_shape(4) [OF assms(1)] assms(2) _ _ drop(1) [unfolded t]])
        (simp_all add: drop assms(3) t)
    moreover have "well_shaped s'"
      by (rule well_shaped_goto [of s _ i Locking])
        (use assms(1) pool_inv_shape(2) [OF assms(1)] pool_ok_cong [of p "vpool s"] d i in
          \<open>simp_all add: drop pool_inv_def role_ok_def\<close>)
    moreover have "awake s'" using i assms(2) by (auto simp: awake_def drop)
    ultimately show ?thesis by (simp add: pool_inv_def)
  qed
qed

lemma cond_signal_cases:
  assumes "cond_signal j ps = Inr ps'"
  obtains "ps' = ps" "Asleep \<notin> set ps" | "ps' = ps[j := Locking]" "j < length ps" "ps ! j = Asleep"
  using assms by (auto simp: cond_signal_def split: if_splits)

text \<open>A worker that wakes up.\<close>

lemma wake_inv:
  assumes "pool_inv s" "j < length (pcs s)" "pcs s ! j = Asleep"
  shows "pool_inv (goto j Locking s)" "awake (goto j Locking s)"
proof -
  from pool_inv_shape(1) [OF assms(1,2)] assms(3) have j: "0 < j" by (simp add: role_ok_def)
  have m: "mutex_ok (goto j Locking s)"
    by (rule mutex_goto [OF pool_inv_shape(3) [OF assms(1)] assms(2), of Locking]) (simp_all add: assms(3) in_section_def)
  show "pool_inv (goto j Locking s)"
    by (rule pool_inv_step [OF assms(1,2) _ _ _ m, of Locking])
      (use j pool_inv_shape(2) [OF assms(1)] in \<open>simp_all add: assms(3) held_def role_ok_def\<close>)
  show "awake (goto j Locking s)" using j assms(2) by (auto simp: awake_def)
qed

lemma signal_done:
  assumes "pool_inv s" "i < length (pcs s)" "pcs s ! i = Signalling" "k < length (pcs s)" "0 < k" "pcs s ! k \<noteq> Asleep"
    and "c = (if i = 0 then Outside else Locking)"
  shows "pool_inv (goto i c s)"
proof -
  have c: "\<not> in_section c" "held c = {#}" "role_ok i c" "c \<noteq> Asleep"
    using assms(7) by (simp_all add: in_section_def held_def role_ok_def)
  have "mutex_ok (goto i c s)"
    by (rule mutex_goto [OF pool_inv_shape(3) [OF assms(1)] assms(2), of c]) (simp_all add: assms(3) c, simp add: in_section_def)
  moreover have "tasks_placed (goto i c s)"
    by (rule placed_goto [OF pool_inv_shape(4) [OF assms(1)] places_goto [OF assms(2), of _ c]])
      (simp_all add: assms(3) c, simp add: held_def)
  moreover have "well_shaped (goto i c s)"
    by (rule well_shaped_goto [of s _ i c]) (use assms(1) c pool_inv_shape(2) [OF assms(1)] in \<open>simp_all add: pool_inv_def\<close>)
  moreover have "awake (goto i c s)"
    using assms(4-6) c(4) unfolding awake_def by (cases "k = i") (auto intro!: exI [of _ k])
  ultimately show ?thesis by (simp add: pool_inv_def)
qed

lemma submit_signal_inv:
  assumes "pool_inv s" "i < length (pcs s)" "pcs s ! i = Signalling" "submit_signal i j s = Inr s'"
  shows "pool_inv s'"
proof -
  let ?c = "if i = 0 then Outside else Locking"
  from assms(4) obtain ps where ps: "cond_signal j (pcs s) = Inr ps" and s': "s' = goto i ?c (s\<lparr>pcs := ps\<rparr>)"
    by (auto simp: submit_signal_def)
  from ps show ?thesis
  proof (cases rule: cond_signal_cases)
    case 1
    have "1 < length (pcs s)" using assms(1) by (simp add: pool_inv_def well_shaped_def NUM_VTHREADS_def)
    moreover from this 1(2) have "pcs s ! 1 \<noteq> Asleep" by (metis nth_mem)
    ultimately have "pool_inv (goto i ?c s)" by (intro signal_done [OF assms(1-3)]) simp_all
    with 1(1) s' show ?thesis by simp
  next
    case 2
    let ?s = "goto j Locking s"
    have ij: "i \<noteq> j" using assms(3) 2(3) by auto
    have j: "0 < j" using pool_inv_shape(1) [OF assms(1) 2(2)] 2(3) by (simp add: role_ok_def)
    have "pool_inv (goto i ?c ?s)"
      by (rule signal_done [OF wake_inv(1) [OF assms(1) 2(2,3)], of _ j]) (use assms(2,3) ij j 2(2) in simp_all)
    moreover have "s\<lparr>pcs := ps\<rparr> = ?s" using 2(1) by (simp add: goto_def)
    ultimately show ?thesis using s' by simp
  qed
qed

lemma start_thread_inv:
  assumes "pool_inv s" "start_thread uh i j s = Inr s'"
  shows "pool_inv s'"
proof -
  from assms(2) have i: "i < length (pcs s)" by (simp add: start_thread_def split: if_splits)
  note r = pool_inv_shape(1) [OF assms(1) i]
  from assms(2) i have st: "(case pcs s ! i of Outside \<Rightarrow> Inl Blocked | Locking \<Rightarrow> lock i Deciding s | Deciding \<Rightarrow> worker_decide i s
      | Asleep \<Rightarrow> Inl Blocked | Holding task \<Rightarrow> worker_execute uh i task s | Submitting task \<Rightarrow> lock i (Storing task) s
      | Storing task \<Rightarrow> submit_store i task s | Signalling \<Rightarrow> submit_signal i j s) = Inr s'"
    by (simp add: start_thread_def)
  show ?thesis
  proof (cases "pcs s ! i")
    case Locking
    with st r show ?thesis
      by (intro lock_inv [OF assms(1) i, of Deciding]) (simp_all add: in_section_def role_ok_def held_def)
  next
    case (Submitting t)
    with st r show ?thesis
      by (intro lock_inv [OF assms(1) i, of "Storing t"]) (simp_all add: in_section_def role_ok_def held_def)
  next
    case Deciding
    with st worker_decide_inv [OF assms(1) i] show ?thesis by simp
  next
    case (Holding t)
    with st worker_execute_inv [OF assms(1) i] show ?thesis by simp
  next
    case (Storing t)
    with st submit_store_inv [OF assms(1) i] show ?thesis by simp
  next
    case Signalling
    with st submit_signal_inv [OF assms(1) i] show ?thesis by simp
  qed (use st in simp_all)
qed

lemma submit_task_inv:
  assumes "pool_inv s" "submit_task t v s = Inr s'"
  shows "pool_inv s'"
proof -
  let ?p = "(vpool s)\<lparr>live_tasks := (live_tasks (vpool s))(t \<mapsto> v)\<rparr>"
  from assms(2) have h: "pcs s ! 0 = Outside" "live_tasks (vpool s) t = None"
    and s': "s' = goto 0 (Submitting (Some t)) (s\<lparr>vpool := ?p\<rparr>)"
    by (auto simp: submit_task_def split: if_splits)
  have i: "0 < length (pcs s)" using assms(1) by (simp add: pool_inv_def well_shaped_def)
  have "mutex_ok s'"
    by (rule mutex_goto [OF pool_inv_shape(3) [OF assms(1)] i, of "Submitting (Some t)"])
      (simp_all add: s' h in_section_def)
  moreover have "well_shaped s'"
    by (rule well_shaped_goto [of s _ 0 "Submitting (Some t)"])
      (use assms(1) pool_inv_shape(2) [OF assms(1)] in \<open>simp_all add: s' pool_inv_def role_ok_def pool_ok_def\<close>)
  moreover have pl: "places s' = places s + {#Some t#}"
    using sum_held [OF i, of "Submitting (Some t)"] h(1)
    by (simp add: s' places_def held_def queued_def)
  have "tasks_placed s'"
    using pool_inv_shape(4) [OF assms(1)] h(2) unfolding tasks_placed_def pl
    by (auto simp: s' image_iff dom_def)
  moreover have "task_count (vpool s') \<noteq> 0 \<longrightarrow> awake s'"
    using assms(1) h(1) i by (auto simp: s' pool_inv_def awake_def)
  ultimately show ?thesis by (simp add: pool_inv_def)
qed

text \<open>Changes of what the threads' positions and the queue do not depend on.\<close>

lemma pool_inv_frame:
  assumes "pool_inv s" "pcs s' = pcs s" "owner s' = owner s" "task_count (vpool s') = task_count (vpool s)"
    "voice_task_queue (vpool s') = voice_task_queue (vpool s)" "live_tasks (vpool s') = live_tasks (vpool s)"
  shows "pool_inv s'"
proof -
  have "awake s' = awake s" "places s' = places s" "mutex_ok s' = mutex_ok s"
    using assms queued_cong [OF assms(4,5)] by (simp_all add: awake_def places_def mutex_ok_def)
  moreover have "well_shaped s' = well_shaped s"
    using assms(2) pool_ok_cong [OF assms(4,5)] by (simp add: well_shaped_def)
  ultimately show ?thesis using assms by (simp add: pool_inv_def tasks_placed_def)
qed

lemma voice_pool_inv: "pool_inv (voice_pool w)"
proof -
  have p: "pcs (voice_pool w) = [Outside, Locking, Locking, Locking, Locking]"
    by (simp add: voice_pool_def NUM_VTHREADS_def numeral_eq_Suc)
  have "list_all (\<lambda>c. \<not> in_section c) (pcs (voice_pool w))" "list_all (role_ok 1) (tl (pcs (voice_pool w)))"
    unfolding p by (simp_all add: in_section_def role_ok_def)
  then have "\<not> (i < 5 \<and> in_section (pcs (voice_pool w) ! i))" "i < 5 \<longrightarrow> role_ok i (pcs (voice_pool w) ! i)" for i
    unfolding p by (auto simp: list_all_length role_ok_def nth_Cons split: nat.splits)
  moreover have "places (voice_pool w) = {#}"
    unfolding places_def p by (simp add: held_def voice_pool_def pool_start_ok)
  ultimately show ?thesis
    by (simp add: pool_inv_def well_shaped_def mutex_ok_def tasks_placed_def p)
      (simp add: voice_pool_def pool_start_ok NUM_VTHREADS_def, simp add: pool_start_def)
qed

lemma voice_states_inv: "voice_states uh s \<Longrightarrow> pool_inv s"
proof (induction rule: voice_states.induct)
  case (toggle s u s')
  then show ?case
    by (auto simp: with_mutex_def toggle_user_vchan_def split: if_splits intro: pool_inv_frame)
next
  case (set_fd s u fd s')
  then show ?case
    by (auto simp: with_mutex_def set_user_vchan_def split: if_splits intro: pool_inv_frame)
next
  case (outside s w c)
  show ?case by (rule pool_inv_frame [OF outside.IH]) simp_all
qed (auto intro: voice_pool_inv start_thread_inv wake_inv submit_task_inv)

section \<open>Properties\<close>

text \<open>C11: However the threads are scheduled, no two of them are in a critical section at once, every task that
  has been submitted and not destroyed is in exactly one place, the queue or the hands of one thread,
  and a thread never holds a task that has been freed.\<close>

theorem tasks_in_one_place:
  assumes "voice_states uh s"
  shows "(\<forall>i j. i < length (pcs s) \<and> j < length (pcs s) \<and> in_section (pcs s ! i) \<and> in_section (pcs s ! j) \<longrightarrow> i = j) \<and>
    (\<forall>t. count (places s) t = (if t \<in> Some ` dom (live_tasks (vpool s)) then 1 else 0)) \<and>
    (\<forall>i t. i < length (pcs s) \<and> pcs s ! i = Holding t \<longrightarrow> (\<exists>v. deref_task t (vpool s) = Inr v))"
proof -
  note I = voice_states_inv [OF assms]
  have "i = j" if "i < length (pcs s)" "j < length (pcs s)" "in_section (pcs s ! i)" "in_section (pcs s ! j)" for i j
  proof -
    have "owner s = Some i" "owner s = Some j"
      using pool_inv_shape(3) [OF I] that unfolding mutex_ok_def by blast+
    then show ?thesis by simp
  qed
  moreover have pl: "count (places s) t = (if t \<in> Some ` dom (live_tasks (vpool s)) then 1 else 0)" for t
    using pool_inv_shape(4) [OF I] by (simp add: tasks_placed_def)
  moreover have "\<exists>v. deref_task t (vpool s) = Inr v" if "i < length (pcs s)" "pcs s ! i = Holding t" for i t
  proof -
    have "held (pcs s ! i) \<subseteq># sum_list (map held (pcs s))" by (rule held_le [OF that(1)])
    with that(2) have "t \<in># places s" by (auto simp: held_def places_def dest: mset_subset_eqD)
    then have "count (places s) t \<noteq> 0" by simp
    with pl [of t] have "t \<in> Some ` dom (live_tasks (vpool s))" by (auto split: if_splits)
    then show ?thesis by (auto simp: deref_task_def)
  qed
  ultimately show ?thesis by blast
qed

lemma cond_signal_possible: "\<exists>j. cond_signal j ps \<noteq> Inl Blocked"
proof (cases "Asleep \<in> set ps")
  case True
  then obtain j where "j < length ps" "ps ! j = Asleep" by (auto simp: in_set_conv_nth)
  then show ?thesis by (auto simp: cond_signal_def)
qed (simp add: cond_signal_def)

lemma not_blocked_step:
  assumes "pool_inv s" "i < length (pcs s)" "owner s = None \<or> owner s = Some i"
    and "pcs s ! i \<notin> {Outside, Asleep}" "\<nexists>t. pcs s ! i = Holding t"
  shows "\<exists>j. start_thread uh i j s \<noteq> Inl Blocked"
proof -
  have m: "in_section (pcs s ! i) \<longleftrightarrow> owner s = Some i"
    using pool_inv_shape(3) [OF assms(1)] assms(2) by (auto simp: mutex_ok_def)
  have p: "pool_ok (vpool s)" by (rule pool_inv_shape(2) [OF assms(1)])
  show ?thesis
  proof (cases "pcs s ! i")
    case Deciding
    have "worker_decide i s \<noteq> Inl Blocked"
    proof (cases "queued (vpool s)")
      case Nil
      with p show ?thesis by (simp add: queued_Nil worker_decide_def)
    next
      case (Cons t ts)
      with take_task_ok [OF p Cons] show ?thesis by (auto simp: worker_decide_def)
    qed
    with Deciding assms(2) show ?thesis by (simp add: start_thread_def)
  next
    case (Storing t)
    have "submit_store i t s \<noteq> Inl Blocked"
      by (simp add: submit_store_def put_task_def array_set_def)
    with Storing assms(2) show ?thesis by (simp add: start_thread_def)
  next
    case Signalling
    from cond_signal_possible obtain j where "cond_signal j (pcs s) \<noteq> Inl Blocked" by blast
    then have "submit_signal i j s \<noteq> Inl Blocked"
      by (cases "cond_signal j (pcs s)") (simp_all add: submit_signal_def)
    with Signalling assms(2) show ?thesis by (auto simp: start_thread_def)
  qed (use assms m in \<open>auto simp: start_thread_def lock_def in_section_def\<close>)
qed

text \<open>C12: No wake-up is lost and the mutex is never held for ever: in every state of the pool in which a task is
  queued, some worker is awake or a signal is on its way, and some thread can make its next step or
  has taken a task and waits for the network with it.\<close>

theorem no_lost_wakeup:
  assumes "voice_states uh s" "queued (vpool s) \<noteq> []"
  shows "awake s \<and> (\<exists>i < length (pcs s). (\<exists>j. start_thread uh i j s \<noteq> Inl Blocked) \<or> (\<exists>t. pcs s ! i = Holding t))"
proof
  note I = voice_states_inv [OF assms(1)]
  have "task_count (vpool s) \<noteq> 0" using assms(2) queued_Nil [OF pool_inv_shape(2) [OF I]] by simp
  with I show a: "awake s" by (simp add: pool_inv_def)
  have m: "in_section (pcs s ! i) \<longleftrightarrow> owner s = Some i" if "i < length (pcs s)" for i
    using pool_inv_shape(3) [OF I] that by (auto simp: mutex_ok_def)
  have "0 < length (pcs s)" using I by (simp add: pool_inv_def well_shaped_def)
  then obtain i where i: "i < length (pcs s)" "owner s = None \<or> owner s = Some i" "pcs s ! i \<notin> {Outside, Asleep}"
  proof (cases "owner s")
    case None
    from a obtain k where "k < length (pcs s)" "k = 0 \<and> pcs s ! k = Signalling \<or> 0 < k \<and> pcs s ! k \<noteq> Asleep"
      using \<open>0 < length (pcs s)\<close> by (auto simp: awake_def)
    with pool_inv_shape(1) [OF I, of k] None that [of k] show ?thesis by (cases "pcs s ! k") (auto simp: role_ok_def)
  next
    case (Some k)
    then have "k < length (pcs s) \<and> in_section (pcs s ! k)" using pool_inv_shape(3) [OF I] by (simp add: mutex_ok_def)
    with Some that [of k] show ?thesis by (cases "pcs s ! k") (auto simp: in_section_def)
  qed
  with not_blocked_step [OF I i(1,2,3)]
  show "\<exists>i < length (pcs s). (\<exists>j. start_thread uh i j s \<noteq> Inl Blocked) \<or> (\<exists>t. pcs s ! i = Holding t)" by blast
qed

text \<open>A state of the pool in which the server has submitted a task while a worker sleeps.\<close>

definition a_task :: voice_task where
  "a_task = \<lparr>vt_uid = 4, vt_udp_fd = 7, vt_channel = Some 8\<rparr>"

lemma one_submitted:
  "\<exists>s p. voice_states uh s \<and> put_task (Some 3) (pool_start\<lparr>live_tasks := [3 \<mapsto> a_task]\<rparr>) = Inr p \<and>
     queued p = [Some 3] \<and> vpool s = p \<and> pcs s = [Signalling, Asleep, Locking, Locking, Locking] \<and> owner s = None"
proof -
  let ?w = "\<lparr>script = [], calls = []\<rparr>" and ?p = "pool_start\<lparr>live_tasks := [3 \<mapsto> a_task]\<rparr>"
  define s0 where "s0 = voice_pool ?w"
  have s0: "pcs s0 = [Outside, Locking, Locking, Locking, Locking]" "vpool s0 = pool_start" "owner s0 = None"
    by (simp_all add: s0_def voice_pool_def NUM_VTHREADS_def numeral_eq_Suc)
  obtain s1 where s1: "start_thread uh 1 0 s0 = Inr s1" "pcs s1 = [Outside, Deciding, Locking, Locking, Locking]"
      "vpool s1 = pool_start" "owner s1 = Some 1"
    by (auto simp: start_thread_def lock_def s0)
  obtain s2 where s2: "start_thread uh 1 0 s1 = Inr s2" "pcs s2 = [Outside, Asleep, Locking, Locking, Locking]"
      "vpool s2 = pool_start" "owner s2 = None"
    using pool_start_ok queued_Nil [of pool_start] by (auto simp: start_thread_def worker_decide_def s1)
  obtain s3 where s3: "submit_task 3 a_task s2 = Inr s3" "pcs s3 = [Submitting (Some 3), Asleep, Locking, Locking, Locking]"
      "vpool s3 = ?p" "owner s3 = None"
    by (auto simp: submit_task_def s2 pool_start_def)
  obtain s4 where s4: "start_thread uh 0 0 s3 = Inr s4" "pcs s4 = [Storing (Some 3), Asleep, Locking, Locking, Locking]"
      "vpool s4 = ?p" by (auto simp: start_thread_def lock_def s3)
  have "pool_ok ?p" "queued ?p = []"
    using pool_start_ok pool_ok_cong [of ?p pool_start] queued_cong [of ?p pool_start] by simp_all
  with put_task_ok [of ?p "Some 3"] obtain p where p: "put_task (Some 3) ?p = Inr p" "queued p = [Some 3]" by auto
  obtain s5 where s5: "start_thread uh 0 0 s4 = Inr s5" "pcs s5 = [Signalling, Asleep, Locking, Locking, Locking]"
      "vpool s5 = p" "owner s5 = None"
    using p(1) by (auto simp: start_thread_def submit_store_def s4)
  have "voice_states uh s5"
    by (rule voice_states.thread [OF voice_states.thread [OF voice_states.submit [OF voice_states.thread
      [OF voice_states.thread [OF voice_states.start [of uh ?w, folded s0_def] s1(1)] s2(1)] s3(1)] s4(1)] s5(1)])
  with p s5 show ?thesis by blast
qed

theorem tasks_in_one_place_witness:
  "\<exists>s. voice_states two_users s \<and> pcs s ! 1 = Asleep \<and> count (places s) (Some 3) = 1 \<and> count (places s) (Some 4) = 0"
proof -
  obtain s p where s: "voice_states two_users s" "put_task (Some 3) (pool_start\<lparr>live_tasks := [3 \<mapsto> a_task]\<rparr>) = Inr p"
    "vpool s = p" "pcs s = [Signalling, Asleep, Locking, Locking, Locking]" using one_submitted by blast
  have "live_tasks p = [3 \<mapsto> a_task]" using put_task_live [OF s(2)] by simp
  with tasks_in_one_place [OF s(1)] s show ?thesis by (intro exI [of _ s]) auto
qed

theorem no_lost_wakeup_witness:
  "\<exists>s. voice_states two_users s \<and> queued (vpool s) = [Some 3] \<and> awake s \<and>
     (\<exists>i < length (pcs s). (\<exists>j. start_thread two_users i j s \<noteq> Inl Blocked) \<or> (\<exists>t. pcs s ! i = Holding t))"
proof -
  obtain s where s: "voice_states two_users s" "queued (vpool s) = [Some 3]" using one_submitted by metis
  with no_lost_wakeup [OF s(1)] show ?thesis by auto
qed

end
