(* ===== verification/Termination.thy ===== *)
theory Termination
  imports Server_Loop
begin

text \<open>
  The loops over lists end. A walk over a chain carries one more unit of fuel than there are nodes, so
  that the fault \<open>Diverge\<close> stands for a chain with a cycle; no event leads to it from a reachable state.
\<close>

section \<open>Results other than divergence\<close>

abbreviation ends :: "'a res \<Rightarrow> bool" where
  "ends \<equiv> avoids {Diverge}"

lemmas ends_rbind = avoids_rbind [where F = "{Diverge}"]

lemma ends_sys [simp]: "ends (sys c w)"
  by (simp add: avoids_def sys_def split: list.split)

lemma ends_cstring [simp]: "ends (cstring a)"
  by (induction a) (auto simp: avoids_def cstring_def rbind_eq_Inl cstrlen_eq_Inl)

lemma ends_send_loop [simp]: "ends (send_loop fd buf n l r w)"
proof (induction fd buf n l r w rule: send_loop.induct)
  case (1 fd buf n l r w)
  show ?case
    by (subst send_loop.simps) (auto intro!: ends_rbind simp: 1 split: prod.splits)
qed

lemma ends_send [simp]: "ends (tcp_server_send fd buf n w)"
  by (auto simp: tcp_server_send_def intro!: ends_rbind split: option.splits)

lemma ends_serialize [simp]: "ends (serialize cap fmt args)"
  by (induction cap fmt args rule: serialize.induct)
    (auto intro!: ends_rbind split: list.splits sarg.splits option.splits simp: Let_def)

lemma ends_recv [simp]: "ends (recv_into fd n buf w)"
  by (auto simp: recv_into_def Let_def intro!: ends_rbind)

lemma ends_unpack [simp]: "ends (unpacku16 b)" "ends (unpacki16 b)"
  by (auto simp: avoids_def unpacku16_def unpacki16_def Let_def split: list.splits)

lemma ends_parse [simp]: "ends (parse buf fmt n ds)"
proof (induction fmt arbitrary: buf n ds)
  case (Cons f fs)
  then show ?case by (auto simp: Let_def intro!: ends_rbind split: list.split dest.split)
qed simp

lemma ends_parse_request [simp]: "ends (cpt_parse_request oks buf n)"
  by (auto simp: cpt_parse_request_def Let_def intro!: ends_rbind split: list.splits parsed.splits)

lemma ends_query_loop: "ends (parse_query_loop a b n)"
proof (induction "length a" arbitrary: a rule: less_induct)
  case less
  show ?case
  proof (cases "cstring a")
    case (Inl e)
    with ends_cstring [of a] show ?thesis by (subst parse_query_loop.simps) simp
  next
    case (Inr s)
    with cstring_length [OF Inr] show ?thesis by (simp add: parse_query_step [OF Inr] less)
  qed
qed

lemma ends_respond [simp]: "ends (respond cap r s)"
  by (auto simp: respond_def cpt_serialize_response_def send_to_def intro!: ends_rbind simp del: serialize.simps)

lemma ends_destroy [simp]: "ends (info_res_destroy s)" "ends (deref_res s)"
  by (auto simp: info_res_destroy_def deref_res_def split: res_ptr.splits)

lemma ends_deref [simp]: "ends (deref_list h p)" "ends (deref_node h q)"
  by (auto simp: deref_list_def deref_node_def split: option.splits)

section \<open>The events\<close>

lemma ends_refines: "refines s m spec \<Longrightarrow> ends spec \<Longrightarrow> ends m"
  by (auto simp: refines_def avoids_def split: sum.splits prod.splits)

lemma ends_view [simp]:
  "ends (view_delete k us)" "ends (view_join k cid W)" "ends (view_leave k cid W)" "ends (view_create k W)"
  by (auto simp: view_delete_def view_join_def view_leave_def view_create_def intro!: ends_rbind split: option.splits)

lemma ends_fold: "(\<And>x s. ends (f x s)) \<Longrightarrow> ends (fold_res f xs s)"
  by (induction xs arbitrary: s) (auto intro!: ends_rbind)

lemma ends_view_logout [simp]: "ends (view_logout k W)"
  by (auto simp: view_logout_def logout_round_def intro!: ends_rbind ends_fold split: prod.splits)

lemma create_ends:
  assumes "sv_view s W"
  shows "ends (cpt_create_channel_response s q)"
proof (cases "query_reads s q")
  case True
  show ?thesis by (rule ends_refines [OF create_sim [OF assms True]]) simp
next
  case False
  then obtain a where a: "q = Some a" "parse_query_loop a (id_buf s) 0 \<noteq> Inr (0, id_buf s)"
    by (auto simp: query_reads_def split: option.splits)
  obtain g where "gc s = Some g" using view_gc [OF assms] by auto
  with False create_reads [of s q _ g] have "\<nexists>r. cpt_create_channel_response s q = Inr r" by blast
  then obtain e where e: "cpt_create_channel_response s q = Inl e" by (cases "cpt_create_channel_response s q") auto
  show ?thesis
  proof (cases "parse_query_loop a (id_buf s) 0")
    case (Inl e')
    with ends_query_loop [of a "id_buf s" 0] \<open>gc s = Some g\<close> a(1) show ?thesis
      by (simp add: cpt_create_channel_response_def new_channel_users_def alloc_def filter_channel_users_def
          parse_channel_query_def id_buf_def)
  next
    case (Inr r)
    with a(2) parse_query_result show ?thesis by auto
  qed
qed

lemma ends_user_text [simp]: "ends (user_to_string u)" "ends (append_user v buf)"
  by (auto simp: user_to_string_def append_user_def intro!: ends_rbind split: option.splits)

lemma ends_send_to_user [simp]: "ends (send_to_user out n u s)"
  by (auto simp: send_to_user_def send_to_def intro!: ends_rbind split: option.splits)

text \<open>A walk over a list of a well-formed heap.\<close>

lemma ends_walk:
  assumes "rep h A" "A l = Some (n, xs)" "deref_list h (Some l) = Inr L" "\<And>x s. ends (body (Some x) s)"
  shows "ends (iter_nodes (fuel h) h (ll_head L) body s)"
proof -
  have "iter_nodes (fuel h) h (ll_head L) body s = iter_list h (Some l) body s"
    using assms(3) by (simp add: iter_list_def get_head_node_def)
  then show ?thesis using iter_list_store [OF assms(1,2), of body s] ends_fold [of "\<lambda>x. body (Some x)"] assms(4) by simp
qed

lemma channel_to_string_ends:
  assumes "rep h A" "A l = Some (n, xs)" "ch_users c = Some l"
  shows "ends (channel_to_string h c)"
  using ends_walk [OF assms(1,2), of _ append_user] assms(3)
  by (auto simp: channel_to_string_def get_head_node_def intro!: ends_rbind split: option.splits)

lemma find_channel_ends:
  assumes "sv_view s W"
  obtains "find_channel (sv_chans s) (dir s) cid = Inr None"
  | c l n us A where "find_channel (sv_chans s) (dir s) cid = Inr (Some c)" "ch_users c = Some l"
      "A l = Some (n, us)" "rep (sv_users s) A"
proof -
  from assms obtain Au Ac d cs where S: "sv_rep s W Au Ac d cs" by (auto simp: sv_view_def)
  show ?thesis by (cases rule: sv_channel_cases [OF S, of cid]) (use that in blast)+
qed

lemma send_event_ends:
  assumes "sv_view s W"
  shows "ends (send_event s m cid)"
proof (cases rule: find_channel_ends [OF assms, of "word_of_int cid"])
  case 1
  then show ?thesis by (simp add: send_event_def)
next
  case (2 c l n us A)
  note walk = ends_walk [OF 2(4,3), of _ "send_to_user out k" for out k]
  have "ends (case alloc s of (ok, s1) \<Rightarrow> let s2 = s1\<lparr>info_res := res_of (cpt_response_init ok)\<rparr> in
      rbind (deref_res s2) (\<lambda>r. rbind (case m of None \<Rightarrow> Inl NullDeref | Some a \<Rightarrow> cstring a) (\<lambda>t.
        let r' = r\<lparr>code := SEND, data_size := of_nat (length t), data := Some (t @ [0])\<rparr>;
            s3 = s2\<lparr>info_res := ResLive r'\<rparr> in
        rbind (cpt_serialize_response LG_BUFF_SIZE r') (\<lambda>(n, out).
          iter_nodes (fuel (sv_users s3)) (sv_users s3) (ll_head L) (send_to_user out n) s3))))"
    if "deref_list (sv_users s) (Some l) = Inr L" for L
    using walk [OF that]
    by (auto simp: alloc_def Let_def cpt_serialize_response_def intro!: ends_rbind split: option.splits
        simp del: serialize.simps)
  with 2(1,2) show ?thesis
    by (auto simp: send_event_def get_head_user_def get_head_node_def intro!: ends_rbind)
qed

lemma get_users_event_ends:
  assumes "sv_view s W"
  shows "ends (get_users_event s cid)"
proof -
  have resp: "ends (cpt_get_users_response s' c)" if "sv_view s' W" for s' c
  proof (cases rule: find_channel_ends [OF that, of c])
    case 1
    then show ?thesis by (auto simp: cpt_get_users_response_def Let_def intro!: ends_rbind split: option.splits)
  next
    case (2 ch l n us A)
    from channel_to_string_ends [OF 2(4,3,2)] 2(1) show ?thesis
      by (auto simp: cpt_get_users_response_def Let_def intro!: ends_rbind split: option.splits)
  qed
  show ?thesis
    using resp [of "s\<lparr>clock := n, info_res := p\<rparr>" for n p] assms
    by (auto simp: get_users_event_def alloc_def intro!: ends_rbind)
qed

lemma events_end:
  assumes "sv_view s W"
  shows "ends (join_channel_event s cid)" "ends (leave_channel_event s cid)" "ends (create_channel_event s q)"
    "ends (logout_event s)"
proof -
  note r = ends_refines [OF join_sim [OF assms]] ends_refines [OF leave_sim [OF assms]]
    ends_refines [OF logout_sim [OF assms]] create_ends [OF assms]
  show "ends (join_channel_event s cid)" "ends (leave_channel_event s cid)" "ends (create_channel_event s q)"
    "ends (logout_event s)"
    using r by (auto simp: join_channel_event_def leave_channel_event_def create_channel_event_def logout_event_def
        alloc_def Let_def intro!: ends_rbind split: option.splits)
qed

lemma login_step_ends [simp]: "ends (login_step s fd m)"
  by (auto simp: login_step_def gc_users_def alloc_def user_init_def push_channel_user_def create_user_node_def
      create_node_def push_node_def get_head_node_def Let_def intro!: ends_rbind split: option.splits prod.splits)

lemma login_event_ends: "ends (login_event s fd)"
  by (auto simp: login_event_def handle_new_accept_def tcp_server_accept_def tcp_server_recv_def received_request_def
      cpt_login_response_def alloc_def Let_def intro!: ends_rbind split: option.splits prod.splits)

lemma event_step_ends:
  assumes "session_ok W0 (snd (snd p))" "\<And>s. session_ok W0 s \<Longrightarrow> ends (h s)"
  shows "ends (event_step stl cmd h p)"
  using assms by (cases p) (auto simp: event_step_def intro!: ends_rbind)

lemma session_view: "session_ok W0 s \<Longrightarrow> \<exists>W. sv_view s W"
  by (auto simp: session_ok_def)

lemma handle_event_ends:
  assumes "session_ok W0 s"
  shows "ends (handle_event stl s req)"
proof -
  note V = session_view [of W0]
  have e: "session_ok W0 s \<Longrightarrow> ends (send_event s m k)" "session_ok W0 s \<Longrightarrow> ends (get_users_event s k)"
    "session_ok W0 s \<Longrightarrow> ends (create_channel_event s m)" "session_ok W0 s \<Longrightarrow> ends (leave_channel_event s c)"
    "session_ok W0 s \<Longrightarrow> ends (join_channel_event s c)" for s m k c
    using V [of s] send_event_ends get_users_event_ends events_end by blast+
  show ?thesis
    unfolding handle_event_def
  proof (intro ends_rbind event_step_ends [where ?W0.0 = W0] e)
    show s0: "session_ok W0 (snd (snd (False, command req, s)))" using assms by simp
    fix p1 assume p1: "event_step stl SEND (\<lambda>s. send_event s (msg req) (uint (channel_id req))) (False, command req, s) = Inr p1"
    show s1: "session_ok W0 (snd (snd p1))" by (rule event_step_ok [OF p1 s0]) (rule send_event_ok)
    fix p2 assume p2: "event_step stl GET_USERS (\<lambda>s. get_users_event s (uint (channel_id req))) p1 = Inr p2"
    show s2: "session_ok W0 (snd (snd p2))" by (rule event_step_ok [OF p2 s1]) (rule get_users_event_ok)
    fix p3 assume p3: "event_step stl CREATE_CHANNEL (\<lambda>s. create_channel_event s (msg req)) p2 = Inr p3"
    show s3: "session_ok W0 (snd (snd p3))" by (rule event_step_ok [OF p3 s2]) (rule create_event_ok)
    fix p4 assume p4: "event_step stl LEAVE_CHANNEL (\<lambda>s. leave_channel_event s (channel_id req)) p3 = Inr p4"
    show "session_ok W0 (snd (snd p4))" by (rule event_step_ok [OF p4 s3]) (rule leave_event_ok)
  qed (auto)
qed

section \<open>The rounds\<close>

lemma receive_request_ends [simp]: "ends (receive_request s)"
  by (auto simp: receive_request_def tcp_server_recv_def received_request_def alloc_def intro!: ends_rbind)

lemma serve_client_ends:
  assumes "session_ok W0 (srv l)"
  shows "ends (serve_client i l)"
proof -
  have "ends (dispatch (stale l (clock s)) n req s)"
    if "receive_request ((srv l)\<lparr>current_id := p_fd (poll_fds l i)\<rparr>) = Inr (n, req, s)" for n req s
  proof -
    from that have s: "session_ok W0 s" by (rule receive_request_cases) (use assms in simp)
    with session_view [OF s] show ?thesis
      by (auto simp: dispatch_def intro!: ends_rbind handle_event_ends [OF s] dest: events_end(4))
  qed
  then show ?thesis by (auto simp: serve_client_def Let_def intro!: ends_rbind)
qed

lemma ends_slot [simp]: "ends (slot i)"
  by (simp add: slot_def)

lemma ends_add_fd [simp]: "ends (add_fd fd l)"
  by (auto simp: add_fd_def intro!: ends_rbind)

lemma accept_clients_ends: "ends (accept_clients l)"
proof (induction l rule: accept_clients.induct)
  case (1 l)
  have step: "ends (if r = SUCCESS then rbind (add_fd (current_id s) (l\<lparr>srv := s\<rparr>)) accept_clients
      else if r \<noteq> FAILURE then accept_clients (l\<lparr>srv := s\<rparr>) else Inr (l\<lparr>srv := s\<rparr>))"
    if e: "login_event (srv l) (p_fd (poll_fds l 0)) = Inr (r, s)" for r s
  proof -
    have "ends (accept_clients l2)" if "r = SUCCESS" "add_fd (current_id s) (l\<lparr>srv := s\<rparr>) = Inr l2" for l2
      using 1(1) [OF e refl refl that] .
    moreover from login_event_accepts [OF e] have "r \<noteq> SUCCESS \<longrightarrow> r = FAILURE" by auto
    ultimately show ?thesis by (auto intro!: ends_rbind)
  qed
  show ?case
    by (subst accept_clients.simps, rule ends_rbind [OF login_event_ends]) (use step in \<open>auto simp: Let_def\<close>)
qed

lemma scan_ends: "session_ok W0 (srv l) \<Longrightarrow> ends (scan is l)"
proof (induction "is" arbitrary: l)
  case (Cons i "is")
  let ?l = "l\<lparr>srv := (srv l)\<lparr>current_id := p_fd (poll_fds l i)\<rparr>\<rparr>"
  have P: "session_ok W0 (srv ?l)" using Cons.prems by simp
  have "ends (rbind (accept_clients ?l) (scan is))"
    by (rule ends_rbind [OF accept_clients_ends]) (rule Cons.IH [OF directory.accept [OF P]])
  moreover have "ends (rbind (serve_client i ?l) (scan is))"
    by (rule ends_rbind [OF serve_client_ends [OF P]]) (rule Cons.IH [OF serve_client_session [OF P]])
  moreover have "ends (scan is ?l)" by (rule Cons.IH [OF P])
  moreover have "scan (i # is) l = rbind (slot i) (\<lambda>_. if p_revents (poll_fds l i) = 0 then scan is ?l
      else if \<not> is_revent_POLLIN (poll_fds l i) then Inr (?l\<lparr>is_fatal_error := True\<rparr>)
      else if p_fd (poll_fds l i) = gcfd ?l then rbind (accept_clients ?l) (scan is)
      else rbind (serve_client i ?l) (scan is))"
    by (auto simp: Let_def intro!: rbind_cong)
  ultimately show ?case by (simp only:) (intro ends_rbind [OF ends_slot] avoids_if avoids_simps(1); assumption)
qed simp

lemma shift_fds_ends [simp]: "ends (shift_fds j n fds)"
proof (induction j n fds rule: shift_fds.induct)
  case (1 j n fds)
  then show ?case by (subst shift_fds.simps) (auto intro!: ends_rbind simp del: fun_upd_apply)
qed

lemma compress_loop_ends [simp]: "ends (compress_loop i n fds)"
proof (induction i n fds rule: compress_loop.induct)
  case (1 i n fds)
  then show ?case by (subst compress_loop.simps) (auto intro!: ends_rbind)
qed

lemma run_round_ends:
  assumes "session_ok W0 (srv l)"
  shows "ends (run_round l)"
proof -
  have "session_ok W0 (srv l1)" if "poll_all l = Inr (r, l1)" for r l1
    using that assms by (auto simp: poll_all_def)
  then show ?thesis
    by (auto simp: run_round_def poll_all_def compress_fds_def intro!: ends_rbind scan_ends)
qed

section \<open>The program\<close>

lemma server_destroy_ends:
  assumes "sv_view s W"
  shows "ends (cpt_server_info_destroy s)"
proof (cases "global W = []")
  case False
  then show ?thesis using server_destroy_dangles [OF assms] by simp
next
  case True
  from assms obtain Au Ac d cs where S: "sv_rep s W Au Ac d cs" by (auto simp: sv_view_def)
  from sv_gc [OF S] obtain g lg where g: "gc s = Some g" "ch_users g = Some lg" "Au lg = Some (0, [])"
    using True by auto
  from S have d: "dir s = Some d" "rep (sv_chans s) Ac" "Ac d = Some (fst W, cs)" "rep (sv_users s) Au"
    by (simp_all add: sv_rep_def)
  from destroy_list_store [OF d(2,3)] obtain ch where ch: "destroy_list (sv_chans s) (Some d) = Inr ch" by auto
  from d(4) obtain N where N: "repN (sv_users s) N Au" by (auto simp: rep_def)
  from list_head [OF repN_list [OF N g(3)]] have "N lg = []" by auto
  with destroy_list_nodes [OF N g(3)] have "destroy_list (sv_users s) (Some lg) = Inr (sv_users s)" by simp
  with ch g(1,2) d(1) show ?thesis
    by (simp add: cpt_server_info_destroy_def channels_destroy_def users_destroy_def channel_destroy_def)
qed

lemma run_loop_ends: "clean l \<Longrightarrow> session_ok W0 (srv l) \<Longrightarrow> ends (run_loop l)"
proof (induction l rule: run_loop.induct)
  case (1 l)
  have "ends (if stop then rbind (cpt_server_info_destroy (srv l')) (\<lambda>s. Inr (l'\<lparr>srv := s\<rparr>)) else run_loop l')"
    if r: "run_round l = Inr (stop, l')" for stop l'
  proof -
    have k: "clean l'" "session_ok W0 (srv l')" using run_round_keeps [OF 1(2,3) r] by simp_all
    obtain W where "sv_view (srv l') W" using session_view [OF k(2)] ..
    then have "ends (rbind (cpt_server_info_destroy (srv l')) (\<lambda>s. Inr (l'\<lparr>srv := s\<rparr>)))"
      by (auto intro!: ends_rbind server_destroy_ends)
    moreover have "ends (run_loop l')" if "\<not> stop" using 1(1) [OF r refl that k] .
    ultimately show ?thesis by simp
  qed
  then show ?case
    by (subst run_loop.simps, intro ends_rbind run_round_ends [OF 1(3)]) auto
qed

lemma listen_socket_init_ends: "ends (listen_socket_init l)"
  by (auto simp: listen_socket_init_def tcp_server_init_def socket_defs deref_addr_def Let_def
      intro!: ends_rbind split: option.splits addrinfo.splits)

text \<open>C7: No loop of the server runs for ever on its own. Every round of the main loop consumes an answer of
  the operating system, so the loop goes on only as long as there are events; and no walk over a
  list of users or channels, in any request of any client or in the destruction at the end, goes
  round in a circle.\<close>

theorem run_never_diverges:
  assumes "fresh_server s0"
  shows "run stl s0 \<noteq> Inl Diverge \<and>
    (\<forall>l stop l'. rounds stl s0 l \<and> run_round l = Inr (stop, l') \<longrightarrow>
       length (script (sv_os (srv l'))) < length (script (sv_os (srv l))))"
proof
  from assms setup_sim [of s0] obtain s where s: "server_setup s0 = Inr (Some s)" by (auto simp: fresh_server_def)
  note so = setup_session [OF assms s]
  have "ends (rbind (listen_socket_init (first_loop stl s)) run_loop)"
    using listen_socket_init_clean [OF _ so] by (intro ends_rbind listen_socket_init_ends run_loop_ends) blast+
  with s show "run stl s0 \<noteq> Inl Diverge" by (simp add: run_def avoids_def)
qed (use run_round_left in blast)

theorem run_never_diverges_witness:
  "fresh_server (booted [\<lparr>sret = 0, serr = 0, sbytes = []\<rparr>]) \<and>
   run (\<lambda>_. 0) (booted [\<lparr>sret = 0, serr = 0, sbytes = []\<rparr>]) \<noteq> Inl Diverge"
  using run_never_diverges [OF booted_fresh] booted_fresh by blast

end
