(* ===== verification/Spec2Isabelle.thy ===== *)
theory Spec2Isabelle
  imports Client_Defined Settings Destructors Voice_Pool Termination
begin

text \<open>
  A verification development of the GiJo chat server and its client (the sources are under src/).

  THE PROGRAM. A server process accepts TCP connections, keeps a directory of channels with their
  users and serves the requests of the CPT protocol (SEND, LOGOUT, GET_USERS, CREATE_CHANNEL,
  JOIN_CHANNEL, LEAVE_CHANNEL, LOGIN, CREATE_VCHAN); a pool of threads of the same process relays voice
  packets over UDP. A client process logs in and runs two threads, one that reads commands and
  sends requests, and one that receives the answers and the messages of others; a child process of it
  records and plays sound, and a separate messenger program prints the received messages from
  a block of shared memory. All data structures of the server are linked lists of one generic module.

  HOW IT IS MODELLED. Every C function is a definition of the same name. An operation that can run into
  undefined behaviour, or leave the process, returns a value of the sum type \<open>res\<close> (Prelude): \<open>Inr\<close> with its
  result and the new state, or \<open>Inl\<close> with the fault (null or dangling pointer, access out of bounds, bad free,
  uninitialised read, exit, blocked, a loop that goes round in a circle). Integers that wrap are words of their C width.
  Byte buffers are lists of bytes, C strings are read up to their terminator or to the fault \<open>OutOfBounds\<close>.
  The operating system is a script of answers (Net): each call takes the next answer and is logged
  with its arguments, so that a statement for every script is one for every behaviour of the environment.
  Allocation succeeds or fails as a parameter of the state decides.

  THE THEORIES, in the order of their imports.
   Prelude: faults, results, C strings, decimal printing.
   Linked_List, List_Store, List_Walks: common/src/linked_list.c over an explicit heap of nodes; the store
    that its operations implement; for_each and destroy_list.
   Serialize, Packet: common/src/serialize.c; the packets, builders and wire formats of cpt_api
    (cpt_packet_builder.c, cpt_serialize.c, cpt_parse.c).
   Users, Channels: cpt_app/server/src/user.c and channel.c.
   Net: networking/tcp and networking/udp, server and client sides.
   Server: server_info.c, the request handlers of cpt_server.c and of cpt_voice_server.c.
   Server_Spec, Logout, Requests: the directory as an abstract value (a view), the operations of the
    chat on it, and the refinement lemmas of the handlers.
   Destructors: the destructors of requests, sub-packets, users and responses over the blocks they free.
   Events, Sessions, Members, Wire: server_events.c; sequences of events and the abstract chat; who is a member; the bytes
    on the wire.
   Chat_Server, Server_Loop, Connections, Termination: cpt_chat_server.c, its table of descriptors, its main
    loop, what a connection sees of it, and that its loops end.
   Client_Api, Command, Messenger, Handlers, Client_Spec: client_info.c, cpt_client.c, cpt_voice_client.c;
    command.c; shared_memory.c and cpt_messenger.c; user_state.c and handlers.c; what they do together.
   Voice_Player, Cli: voice.c; cli_dc.c with its two threads, their mutex and condition variable.
   Protocol, Login: client and server together.
   Client_Defined: which fields of the client's structures are set when they are read.
   Settings: application_framework.c and the main function of the client, over the dc application library, whose calls
    are a parameter.
   Voice, Voice_Pool: voice_task.c and server_voice.c: the tasks, the queue, the relaying, and the worker threads
    as steps of a relation.

  STATE. \<open>lheap\<close> is the memory of one payload type: nodes, list headers, the next address and what \<open>malloc\<close> answers.
  \<open>server\<close> holds the ServerInfo structure, the two heaps its pointers lead into and the operating system;
  \<open>loop\<close> adds the static variables of cpt_chat_server.c. \<open>client\<close> holds the UserState structure, the shared
  block and the operating system; \<open>cli\<close> adds the mutex and the program counters of the two threads.
  \<open>pool\<close> and \<open>voice_sys\<close> hold the arrays of server_voice.c and the program counters of its threads.

  WHAT IS SHOWN.
   The list module implements a store (locale \<open>list_store\<close>, and \<open>keyed_store\<close> for comparators that test a key); both
    are interpreted on the definitions of the module, for users (\<open>ustore\<close>), channels (\<open>cstore\<close>) and any payload (\<open>cl\<close>).
   Each request handler refines its operation on the view, faults included (\<open>refines\<close>), from which it follows
    that the main loop implements the abstract chat (rounds_refine_chat). The invariants of the loop are
    interpretations of one locale, \<open>loop_invariant\<close>: of the directory, of the table of descriptors, and
    of the number of answers left, the measure by which the loop ends.
   On the wire: what each client receives for its requests, for those of others, and when a connection breaks.
   Serialization: round trips of requests and responses, and the sizes at which they fail.
   The queue of voice tasks implements a bounded queue (locale \<open>bounded_queue\<close>, interpreted as \<open>vq\<close>); in every state of the
    threads each task is in one place, and no wake up is lost.
   The client: what a typed line becomes, what is sent, where messages go, that one request is open
    at a time, that no field is read before it is set (but one), and, with the server, logging in, joining and sending
    from one end to the other. The proofs about faults share one notion, \<open>avoids\<close> (and \<open>gives\<close>, with what holds of
    the value): that no loop diverges and that no wild value is read are two instances of it.
   What the destructors free and what is left behind.
   Where the code reads or writes out of bounds, dereferences a null pointer or follows freed memory on an input
    a user or a client can produce, a theorem says on which.

  BOUNDS. A walk over a list carries \<open>fuel\<close>, one more than the number of addresses handed out: a chain without a
  cycle has at most as many nodes (rep_list_fuel), and Termination shows that no event of a server that
  runs from its start uses it up. The loop of filter carries the product of the fuel and the
  number of parameters. The loops over answers of the operating system (send, the main loop, voice) end
  with the script, each call taking one answer; at its end the result is \<open>Blocked\<close>, which stands for waiting.

  NOT MODELLED. What is printed on the terminals (but what is read to print it is); the byte sizes of the payloads
  and the overflow of the list length; failures of strdup and of the creation of threads; the interleaving of
  the relaying of one voice task with the other threads (execute_voice_task is one step); the addresses of requests, users and responses in the
  handlers, where the end of their life is the end of a value (Destructors has the memory behind them). mic_drop.c, an earlier version of the
  voice pool, is not built and does not compile. The calls of the dc application library are parameters, and what
  it does with the table of options is not in the sources. readshmem.c, writeshmem.c, destroy.c and testing/ are test programs, and
  the ncurses interface is empty.
\<close>

end
